(* ===== verification/Prelude.thy ===== *)
theory Prelude
  imports "HOL-Library.Word"
begin

text \<open>
  The vocabulary shared by every component: machine integers and byte strings, the \<open>?\<close> operator
  on results, the big-endian coding of \<open>u64\<close>, saturating and checked arithmetic, and the list
  lemmas (insertion into and deletion from strictly sorted lists) the component proofs rest on.
  \<open>usize\<close> values are lengths of in-memory slices and are kept as \<^typ>\<open>nat\<close>; \<open>u64\<close> values keep their
  width, and \<open>+\<close> on them wraps as in a release build.
\<close>

named_theorems sorted_simps \<open>strictly sorted lists\<close>
named_theorems be_simps \<open>big-endian coding\<close>

subsection \<open>Types\<close>

type_synonym u8 = "8 word"
type_synonym u64 = "64 word"
type_synonym bytes = "u8 list"

subsection \<open>Results\<close>

text \<open>\<open>Inl\<close> is \<open>Err\<close>, \<open>Inr\<close> is \<open>Ok\<close>; \<open>and_then\<close> is what \<open>?\<close> does with a result.\<close>

fun and_then :: "'e + 'a \<Rightarrow> ('a \<Rightarrow> 'e + 'b) \<Rightarrow> 'e + 'b" where
  "and_then (Inl e) f = Inl e"
| "and_then (Inr x) f = f x"

fun map_err :: "('e \<Rightarrow> 'd) \<Rightarrow> 'e + 'a \<Rightarrow> 'd + 'a" where
  "map_err g (Inl e) = Inl (g e)"
| "map_err g (Inr x) = Inr x"

fun ok_or :: "'e \<Rightarrow> 'a option \<Rightarrow> 'e + 'a" where
  "ok_or e None = Inl e"
| "ok_or e (Some x) = Inr x"

fun is_ok :: "'e + 'a \<Rightarrow> bool" where
  "is_ok (Inl e) = False"
| "is_ok (Inr x) = True"

subsection \<open>Arithmetic\<close>

definition saturating_sub :: "u64 \<Rightarrow> u64 \<Rightarrow> u64" where
  "saturating_sub a b = (if a < b then 0 else a - b)"

abbreviation u64_max :: u64 where
  "u64_max \<equiv> - 1"

definition saturating_add :: "u64 \<Rightarrow> u64 \<Rightarrow> u64" where
  "saturating_add a b = (if a \<le> u64_max - b then a + b else u64_max)"

definition checked_add :: "u64 \<Rightarrow> u64 \<Rightarrow> u64 option" where
  "checked_add a b = (if a \<le> u64_max - b then Some (a + b) else None)"

subsection \<open>Big-endian coding\<close>

primrec nat_to_be :: "nat \<Rightarrow> nat \<Rightarrow> bytes" where
  "nat_to_be 0 v = []"
| "nat_to_be (Suc n) v = nat_to_be n (v div 256) @ [of_nat (v mod 256)]"

definition nat_from_be :: "bytes \<Rightarrow> nat" where
  "nat_from_be bs = foldl (\<lambda>a b. a * 256 + unat b) 0 bs"

definition to_be_bytes :: "u64 \<Rightarrow> bytes" where
  "to_be_bytes x = nat_to_be 8 (unat x)"

definition from_be_bytes :: "bytes \<Rightarrow> u64" where
  "from_be_bytes bs = of_nat (nat_from_be bs)"

subsection \<open>Lists\<close>

definition vec_insert :: "nat \<Rightarrow> 'a \<Rightarrow> 'a list \<Rightarrow> 'a list" where
  "vec_insert i x xs = take i xs @ x # drop i xs"

abbreviation strictly_sorted :: "('a \<Rightarrow> 'k::linorder) \<Rightarrow> 'a list \<Rightarrow> bool" where
  "strictly_sorted k xs \<equiv> sorted_wrt (<) (map k xs)"

primrec str_contains :: "string \<Rightarrow> string \<Rightarrow> bool" where
  "str_contains needle [] = (needle = [])"
| "str_contains needle (c # cs) =
     (take (length needle) (c # cs) = needle \<or> str_contains needle cs)"

subsection \<open>Lemmas on results\<close>

lemma and_then_eq_Inr:
  "and_then m f = Inr y \<longleftrightarrow> (\<exists>x. m = Inr x \<and> f x = Inr y)"
  by (cases m) auto

lemma and_then_eq_Inl:
  "and_then m f = Inl e \<longleftrightarrow> m = Inl e \<or> (\<exists>x. m = Inr x \<and> f x = Inl e)"
  by (cases m) auto

lemma map_err_eq_Inr: "map_err g m = Inr y \<longleftrightarrow> m = Inr y"
  by (cases m) auto

lemma ok_or_eq_Inr: "ok_or e m = Inr y \<longleftrightarrow> m = Some y"
  by (cases m) auto

lemma is_ok_iff: "is_ok m \<longleftrightarrow> (\<exists>x. m = Inr x)"
  by (cases m) auto

lemmas result_eqs = and_then_eq_Inr and_then_eq_Inl map_err_eq_Inr ok_or_eq_Inr is_ok_iff

subsection \<open>Lemmas on the big-endian coding\<close>

lemma length_nat_to_be [simp, be_simps]: "length (nat_to_be n v) = n"
  by (induction n arbitrary: v) auto

lemma length_to_be_bytes [simp, be_simps]: "length (to_be_bytes x) = 8"
  by (simp add: to_be_bytes_def)

lemma nat_from_be_Nil [simp]: "nat_from_be [] = 0"
  by (simp add: nat_from_be_def)

lemma nat_from_be_snoc [be_simps]: "nat_from_be (bs @ [b]) = nat_from_be bs * 256 + unat b"
  by (simp add: nat_from_be_def)

lemma unat_u8_of_nat: "unat (of_nat n :: u8) = n mod 256"
  by (simp add: unat_of_nat)

lemma nat_from_be_to_be [be_simps]: "nat_from_be (nat_to_be n v) = v mod 256 ^ n"
proof (induction n arbitrary: v)
  case 0
  then show ?case by simp
next
  case (Suc n)
  have "nat_from_be (nat_to_be (Suc n) v) = (v div 256 mod 256 ^ n) * 256 + v mod 256"
    by (simp add: nat_from_be_snoc unat_u8_of_nat Suc.IH)
  then show ?case
    by (simp add: mod_mult2_eq mult.commute)
qed

lemma nat_from_be_less: "nat_from_be bs < 256 ^ length bs"
proof (induction bs rule: rev_induct)
  case Nil
  then show ?case by simp
next
  case (snoc b bs)
  have "unat b < 256" using unsigned_less [of b] by simp
  with snoc show ?case by (simp add: nat_from_be_snoc)
qed

lemma nat_to_be_from_be [be_simps]: "nat_to_be (length bs) (nat_from_be bs) = bs"
proof (induction bs rule: rev_induct)
  case Nil
  then show ?case by simp
next
  case (snoc b bs)
  have "unat b < 256" using unsigned_less [of b] by simp
  then have "(nat_from_be bs * 256 + unat b) div 256 = nat_from_be bs"
    and "(nat_from_be bs * 256 + unat b) mod 256 = unat b" by simp_all
  with snoc show ?case by (simp add: nat_from_be_snoc)
qed

lemma from_be_to_be [simp, be_simps]: "from_be_bytes (to_be_bytes x) = x"
proof -
  have "unat x < 256 ^ 8" using unsigned_less [of x] by simp
  then show ?thesis by (simp add: from_be_bytes_def to_be_bytes_def nat_from_be_to_be)
qed

lemma to_be_from_be [be_simps]:
  assumes "length bs = 8"
  shows "to_be_bytes (from_be_bytes bs) = bs"
proof -
  have "nat_from_be bs < 2 ^ 64" using nat_from_be_less [of bs] assms by simp
  then have "unat (from_be_bytes bs) = nat_from_be bs"
    by (simp add: from_be_bytes_def unat_of_nat)
  then show ?thesis using nat_to_be_from_be [of bs] assms by (simp add: to_be_bytes_def)
qed

lemma to_be_bytes_inject [simp]: "to_be_bytes x = to_be_bytes y \<longleftrightarrow> x = y"
  using from_be_to_be by metis

subsection \<open>Lemmas on arithmetic\<close>

lemma unat_u64_less: "unat (x::u64) < 2 ^ 64"
  using unsigned_less [of x] by simp

lemma unat_of_nat_u64: "n < 2 ^ 64 \<Longrightarrow> unat (of_nat n :: u64) = n"
  by (simp add: unat_of_nat)

lemma unat_u64_max: "unat u64_max = 2 ^ 64 - 1"
  by (simp add: unsigned_minus_1_eq_mask mask_eq_exp_minus_1)

lemma no_overflow_iff: "a \<le> u64_max - b \<longleftrightarrow> unat a + unat b < 2 ^ 64"
proof -
  have "unat (u64_max - b) = 2 ^ 64 - 1 - unat b"
    using unat_u64_less [of b] by (subst unat_sub) (simp_all add: unat_u64_max word_le_nat_alt)
  then show ?thesis unfolding word_le_nat_alt using unat_u64_less [of b] by auto
qed

lemma unat_add_no_overflow: "unat (a :: u64) + unat b < 2 ^ 64 \<Longrightarrow> unat (a + b) = unat a + unat b"
  by (simp add: unat_word_ariths)

lemma u64_less_max: "(x::u64) \<le> u64_max - 1 \<longleftrightarrow> x \<noteq> u64_max"
proof -
  have "unat (- 1 - 1 :: u64) = 2 ^ 64 - 2" by simp
  moreover note unat_u64_max
  moreover have "unat x < 2 ^ 64" by (rule unat_u64_less)
  moreover have "x \<noteq> - 1 \<longleftrightarrow> unat x \<noteq> unat (- 1 :: u64)" by (simp only: word_unat_eq_iff)
  ultimately show ?thesis by (simp add: word_le_nat_alt) linarith
qed

lemma unat_inc: "x \<noteq> u64_max \<Longrightarrow> unat (x + 1) = unat x + 1"
  by (metis add.commute add.inverse_inverse add_eq_0_iff plus_1_eq_Suc unatSuc)

lemma inc_le_iff: "x \<noteq> u64_max \<Longrightarrow> x + 1 \<le> k \<longleftrightarrow> x < k"
  by (simp add: word_le_nat_alt word_less_nat_alt unat_inc Suc_le_eq)

lemma checked_add_1: "checked_add x 1 = (if x = u64_max then None else Some (x + 1))"
  unfolding checked_add_def u64_less_max by simp

end
