(* ===== verification/Rollup.thy ===== *)
theory Rollup
  imports Prelude
begin

text \<open>
  The interface between the streamer, the submitter and the DA server on one side and a rollup stack
  on the other: the reply of a batch verification (\<open>src/lib.rs\<close>), the \<open>Rollup\<close> trait
  (\<open>src/rollups/rollup.rs\<close>) as a record of its operations, and the read interface to Espresso
  (\<open>EspressoReader\<close>). The locale \<open>rollup_contract\<close> states what the streamer relies on of
  \<open>parse_hotshot_transactions\<close>; the Nitro stack interprets it.
\<close>

subsection \<open>Verification replies\<close>

record verification_result =
  success :: bool
  start_message_position :: u64
  end_message_position :: u64
  start_espresso_block :: u64
  after_delayed_messages_read :: u64
  min_espresso_block_still_in_queue :: u64

definition vr_success :: "u64 \<Rightarrow> u64 \<Rightarrow> u64 \<Rightarrow> u64 \<Rightarrow> u64 \<Rightarrow> verification_result" where
  "vr_success start_pos end_pos start_block after_delayed min_block =
     \<lparr>success = True, start_message_position = start_pos, end_message_position = end_pos,
      start_espresso_block = start_block, after_delayed_messages_read = after_delayed,
      min_espresso_block_still_in_queue = min_block\<rparr>"

definition vr_failure :: verification_result where
  "vr_failure =
     \<lparr>success = False, start_message_position = 0, end_message_position = 0,
      start_espresso_block = 0, after_delayed_messages_read = 0,
      min_espresso_block_still_in_queue = 0\<rparr>"

lemma success_vr [simp]: "success (vr_success a b c d e)" "\<not> success vr_failure"
  by (simp_all add: vr_success_def vr_failure_def)

subsection \<open>The trait\<close>

text \<open>
  The type parameters are the trait's associated types: stack configuration, Espresso transaction,
  queue entry, batch message, feed message, batch cursor. \<open>r_error\<close> stands for \<open>anyhow::Error\<close>.
\<close>

type_synonym r_error = string

record ('cfg, 'tx, 'e, 'bm, 'f, 'c) rollup =
  r_sequence_number :: "'e \<Rightarrow> u64"
  r_hotshot_height :: "'e \<Rightarrow> u64"
  r_parse_batch_data :: "bytes \<Rightarrow> r_error + 'bm list"
  r_convert_entry_to_feed_message :: "'e \<Rightarrow> 'f"
  r_parse_hotshot_transactions :: "'cfg \<Rightarrow> 'tx list list \<Rightarrow> u64 \<Rightarrow> 'e list"
  r_verify_batch_messages :: "'bm list \<Rightarrow> 'e list \<Rightarrow> 'c \<Rightarrow> verification_result"
  r_batch_cursor_default :: 'c

subsection \<open>The read interface to Espresso\<close>

datatype anyhow_error = AnyNotFound | AnyMsg string

datatype light_client_error =
    LcStorage anyhow_error
  | LcClient anyhow_error
  | LcHeightOverflow u64
  | LcVerification anyhow_error

record 'tx espresso_reader =
  block_height :: "light_client_error + u64"
  namespace_transactions_in_range :: "u64 \<Rightarrow> u64 \<Rightarrow> u64 \<Rightarrow> light_client_error + 'tx list list"

subsection \<open>What the streamer relies on\<close>

text \<open>
  \<open>parse_hotshot_transactions\<close> is positional: the blocks are aligned with the heights from the starting
  one, an entry carries the height of its block, and parsing a range is parsing its blocks one by one.
\<close>

locale rollup_contract =
  fixes R :: "('cfg, 'tx, 'e, 'bm, 'f, 'c) rollup"
  assumes parse_Nil: "r_parse_hotshot_transactions R cfg [] h = []"
    and parse_Cons: "r_parse_hotshot_transactions R cfg (b # bs) h =
          r_parse_hotshot_transactions R cfg [b] h @ r_parse_hotshot_transactions R cfg bs (h + 1)"
    and parse_block_height:
          "e \<in> set (r_parse_hotshot_transactions R cfg [b] h) \<Longrightarrow> r_hotshot_height R e = h"
begin

lemma parse_append:
  "r_parse_hotshot_transactions R cfg (bs @ cs) h =
     r_parse_hotshot_transactions R cfg bs h @
     r_parse_hotshot_transactions R cfg cs (h + of_nat (length bs))"
proof (induction bs arbitrary: h)
  case Nil
  then show ?case by (simp add: parse_Nil)
next
  case (Cons b bs)
  show ?case
    using Cons.IH [of "h + 1"] parse_Cons [of cfg b bs h] parse_Cons [of cfg b "bs @ cs" h]
    by (simp add: add.assoc)
qed

text \<open>Every entry of a parsed range comes from the block at its own height.\<close>

lemma parse_range_mem:
  "e \<in> set (r_parse_hotshot_transactions R cfg bs h) \<longleftrightarrow>
     (\<exists>i < length bs. e \<in> set (r_parse_hotshot_transactions R cfg [bs ! i] (h + of_nat i)))"
proof (induction bs arbitrary: h)
  case Nil
  then show ?case by (simp add: parse_Nil)
next
  case (Cons b bs)
  have shift: "h + 1 + of_nat i = h + of_nat (Suc i)" for i by (simp add: add.assoc)
  have "e \<in> set (r_parse_hotshot_transactions R cfg (b # bs) h) \<longleftrightarrow>
      e \<in> set (r_parse_hotshot_transactions R cfg [b] h) \<or>
      (\<exists>i < length bs. e \<in> set (r_parse_hotshot_transactions R cfg [bs ! i] (h + of_nat (Suc i))))"
    by (subst parse_Cons) (simp only: set_append Un_iff Cons.IH shift)
  also have "\<dots> \<longleftrightarrow> (\<exists>i < length (b # bs).
      e \<in> set (r_parse_hotshot_transactions R cfg [(b # bs) ! i] (h + of_nat i)))"
    by (auto simp: less_Suc_eq_0_disj)
  finally show ?case .
qed

end

end
