(* ===== verification/Nitro_Types.thy ===== *)
theory Nitro_Types
  imports Rollup
begin

text \<open>
  The data of the Nitro stack (\<open>src/rollups/nitro/types.rs\<close>, \<open>src/rollups/nitro/feed/message.rs\<close>,
  \<open>src/rollups/nitro/config.rs\<close>). Addresses, hashes and signatures are byte strings; a \<open>U256\<close> is a
  natural number. Fields of the configuration that only the transports read are left out.
\<close>

type_synonym address = bytes
type_synonym b256 = bytes

record batch_data_stats =
  stats_length :: u64
  non_zeros :: u64

record l1_incoming_message_header =
  header_kind :: u8
  poster :: address
  block_number :: u64
  timestamp :: u64
  request_id :: "b256 option"
  l1_base_fee :: "nat option"

record l1_incoming_message =
  header :: "l1_incoming_message_header option"
  l2msg :: bytes
  legacy_batch_gas_cost :: "u64 option"
  data_stats :: "batch_data_stats option"

record message_with_metadata =
  message :: "l1_incoming_message option"
  delayed_messages_read :: u64

record broadcast_feed_message =
  sequence_number :: u64
  feed_message_body :: message_with_metadata
  signature :: bytes
  block_metadata :: bytes
  cumulative_sum_msg_size :: u64
  block_hash :: "b256 option"

record nitro_rollup_queue_entry =
  feed_message :: broadcast_feed_message
  hotshot_height :: u64

datatype batch_message = L2Msg bytes | DelayedMsg

record batch_cursor =
  last_batch_delayed_messages_read :: u64
  next_batch_start_pos :: u64

definition batch_cursor_default :: batch_cursor where
  "batch_cursor_default = \<lparr>last_batch_delayed_messages_read = 1, next_batch_start_pos = 1\<rparr>"

datatype nitro_header = V1

text \<open>Durations of the configuration are in milliseconds.\<close>

record broadcaster_client_config =
  reconnect_initial_backoff :: nat
  reconnect_maximum_backoff :: nat
  client_io_timeout :: nat
  retry_connect_max_backoff :: nat
  retry_connect_backoff_step :: nat
  client_enable_compression :: bool
  require_feed_server_version :: bool
  require_chain_id :: bool
  trusted_sequencer_addresses :: "address list"

definition broadcaster_client_config_default :: broadcaster_client_config where
  "broadcaster_client_config_default =
     \<lparr>reconnect_initial_backoff = 1000, reconnect_maximum_backoff = 64000, client_io_timeout = 20000,
      retry_connect_max_backoff = 15000, retry_connect_backoff_step = 500, client_enable_compression = True,
      require_feed_server_version = False, require_chain_id = False, trusted_sequencer_addresses = []\<rparr>"

record ws_broadcast_server_config =
  ws_addr :: string
  ws_port :: nat
  ws_ping :: nat
  ws_client_timeout :: nat
  ws_write_timeout :: nat
  require_version :: bool
  server_enable_compression :: bool
  require_compression :: bool

definition ws_broadcast_server_config_default :: ws_broadcast_server_config where
  "ws_broadcast_server_config_default =
     \<lparr>ws_addr = ''0.0.0.0'', ws_port = 9642, ws_ping = 5000, ws_client_timeout = 15000, ws_write_timeout = 2000,
      require_version = False, server_enable_compression = True, require_compression = False\<rparr>"

record broadcaster_config =
  broadcast_channel_capacity :: nat
  ws_server_config :: ws_broadcast_server_config

definition broadcaster_config_default :: broadcaster_config where
  "broadcaster_config_default =
     \<lparr>broadcast_channel_capacity = 512, ws_server_config = ws_broadcast_server_config_default\<rparr>"

record feed_config =
  feed_client :: broadcaster_client_config
  feed_server :: broadcaster_config
  web_socket_url :: string
  current_message_count :: u64

definition feed_config_default :: feed_config where
  "feed_config_default =
     \<lparr>feed_client = broadcaster_client_config_default, feed_server = broadcaster_config_default,
      web_socket_url = [], current_message_count = 0\<rparr>"

record nitro_config =
  legacy_signer_addresses :: "address list"
  chain_id :: u64
  feed :: feed_config
  l1_http_url :: string
  l1_ws_url :: string
  sequencer_inbox_address :: address
  log_scan_step :: u64
  max_l1_blocks_to_scan_on_startup :: u64
  l1_finalized_poll_interval_ms :: u64

definition default_log_scan_step :: u64 where
  "default_log_scan_step = 10000"

definition default_l1_finalized_poll_interval_ms :: u64 where
  "default_l1_finalized_poll_interval_ms = 12000"

definition entry_sequence_number :: "nitro_rollup_queue_entry \<Rightarrow> u64" where
  "entry_sequence_number e = sequence_number (feed_message e)"

definition entry_delayed :: "nitro_rollup_queue_entry \<Rightarrow> u64" where
  "entry_delayed e = delayed_messages_read (feed_message_body (feed_message e))"

definition entry_message :: "nitro_rollup_queue_entry \<Rightarrow> l1_incoming_message option" where
  "entry_message e = message (feed_message_body (feed_message e))"

end
