(* ===== verification/Nitro_Batch.thy ===== *)
theory Nitro_Batch
  imports Nitro_Types
begin

text \<open>
  The parser of posted sequencer batches (\<open>src/rollups/nitro/batch_parsing.rs\<close>,
  \<open>src/rollups/nitro/decompress/brotli.rs\<close>). The Brotli reader and the RLP string decoder are arguments:
  \<open>brotli input n\<close> is what reading at most \<open>n\<close> bytes of the decompressed input gives, \<open>rlp buf\<close> decodes
  one byte string off the front of \<open>buf\<close>. Errors carry the code's message without the interpolated values.
\<close>

subsection \<open>Definitions\<close>

datatype rlp_error =
    InputTooShort
  | UnexpectedString
  | UnexpectedList
  | UnexpectedLength
  | ListLengthMismatch nat nat
  | OtherRlpError string

type_synonym brotli_reader = "bytes \<Rightarrow> nat \<Rightarrow> r_error + bytes"
type_synonym rlp_bytes_decoder = "bytes \<Rightarrow> rlp_error + bytes \<times> bytes"

definition MAX_DECOMPRESSED_LEN :: nat where
  "MAX_DECOMPRESSED_LEN = 1024 * 1024 * 16"

definition MAX_L2_MESSAGE_SIZE :: nat where
  "MAX_L2_MESSAGE_SIZE = 256 * 1024"

definition MAX_SEGMENTS :: nat where
  "MAX_SEGMENTS = 100 * 1024"

definition BROTLI_HEADER_BYTE :: u8 where
  "BROTLI_HEADER_BYTE = 0"

definition BATCH_SEGMENT_KIND_L2_MESSAGE :: u8 where
  "BATCH_SEGMENT_KIND_L2_MESSAGE = 0"

definition BATCH_SEGMENT_KIND_L2_MESSAGE_BROTLI :: u8 where
  "BATCH_SEGMENT_KIND_L2_MESSAGE_BROTLI = 1"

definition BATCH_SEGMENT_KIND_DELAYED_MESSAGES :: u8 where
  "BATCH_SEGMENT_KIND_DELAYED_MESSAGES = 2"

definition BATCH_SEGMENT_KIND_ADVANCE_TIMESTAMP :: u8 where
  "BATCH_SEGMENT_KIND_ADVANCE_TIMESTAMP = 3"

definition BATCH_SEGMENT_KIND_ADVANCE_L1_BLOCK_NUMBER :: u8 where
  "BATCH_SEGMENT_KIND_ADVANCE_L1_BLOCK_NUMBER = 4"

definition decompress :: "brotli_reader \<Rightarrow> bytes \<Rightarrow> nat \<Rightarrow> r_error + bytes" where
  "decompress brotli input max_size =
     and_then (map_err (\<lambda>e. ''brotli decompression failed'') (brotli input (max_size + 1)))
       (\<lambda>output. if length output > max_size then Inl ''decompression result too large'' else Inr output)"

text \<open>The loop ends because every iteration that continues adds a segment, up to \<open>MAX_SEGMENTS\<close>.\<close>

function decode_segments :: "rlp_bytes_decoder \<Rightarrow> bytes list \<Rightarrow> bytes \<Rightarrow> r_error + bytes list" where
  "decode_segments rlp segments buf =
     (if buf = [] then Inr segments
      else if length segments \<ge> MAX_SEGMENTS then Inl ''too many segments in sequence batch''
      else case rlp buf of
             Inr (segment, rest) \<Rightarrow> decode_segments rlp (segments @ [segment]) rest
           | Inl e \<Rightarrow> if e \<noteq> InputTooShort then Inl ''error parsing sequencer message segment''
                      else Inr segments)"
  by pat_completeness auto
termination
  by (relation "measure (\<lambda>(rlp, segments, buf). MAX_SEGMENTS - length segments)") auto

definition segment_messages :: "brotli_reader \<Rightarrow> bytes \<Rightarrow> r_error + batch_message list" where
  "segment_messages brotli segment =
     (case segment of
        [] \<Rightarrow> Inr []
      | kind # data \<Rightarrow>
          if kind = BATCH_SEGMENT_KIND_L2_MESSAGE then Inr [L2Msg data]
          else if kind = BATCH_SEGMENT_KIND_L2_MESSAGE_BROTLI then
            and_then
              (map_err (\<lambda>e. ''brotli-compressed L2 message segment would replay as a placeholder'')
                (decompress brotli data MAX_L2_MESSAGE_SIZE))
              (\<lambda>decompressed_msg. Inr [L2Msg decompressed_msg])
          else if kind = BATCH_SEGMENT_KIND_DELAYED_MESSAGES then Inr [DelayedMsg]
          else if kind = BATCH_SEGMENT_KIND_ADVANCE_TIMESTAMP
               \<or> kind = BATCH_SEGMENT_KIND_ADVANCE_L1_BLOCK_NUMBER then Inr []
          else Inl ''unknown batch segment kind'')"

fun convert_segments :: "brotli_reader \<Rightarrow> bytes list \<Rightarrow> r_error + batch_message list" where
  "convert_segments brotli [] = Inr []"
| "convert_segments brotli (segment # segments) =
     and_then (segment_messages brotli segment) (\<lambda>ms.
     and_then (convert_segments brotli segments) (\<lambda>ms'. Inr (ms @ ms')))"

definition parse_batch ::
  "brotli_reader \<Rightarrow> rlp_bytes_decoder \<Rightarrow> bytes \<Rightarrow> r_error + batch_message list" where
  "parse_batch brotli rlp payload =
     (case payload of
        [] \<Rightarrow> Inl ''empty sequencer message''
      | b # body \<Rightarrow>
          if b = BROTLI_HEADER_BYTE
          then and_then (decompress brotli body MAX_DECOMPRESSED_LEN) (\<lambda>segment_data.
               and_then (decode_segments rlp [] segment_data) (convert_segments brotli))
          else Inl ''unsupported batch header byte'')"

subsection \<open>Message slots\<close>

text \<open>
  The slots a replayer counts for a segment, as the module's documentation describes them: \<open>None\<close> is a slot
  for a segment that cannot be interpreted (a failed or oversize decompression, an unknown kind).
\<close>

definition segment_slots :: "brotli_reader \<Rightarrow> bytes \<Rightarrow> batch_message option list" where
  "segment_slots brotli segment =
     (case segment of
        [] \<Rightarrow> []
      | kind # data \<Rightarrow>
          if kind = 0 then [Some (L2Msg data)]
          else if kind = 1 then
            (case decompress brotli data MAX_L2_MESSAGE_SIZE of
               Inr m \<Rightarrow> [Some (L2Msg m)] | Inl e \<Rightarrow> [None])
          else if kind = 2 then [Some DelayedMsg]
          else if kind \<le> 4 then []
          else [None])"

text \<open>What the parser relies on of the two decoders, for the encoders of the batch poster.\<close>

definition rlp_decodes :: "rlp_bytes_decoder \<Rightarrow> (bytes \<Rightarrow> bytes) \<Rightarrow> bool" where
  "rlp_decodes rlp enc \<longleftrightarrow> (\<forall>s rest. length s < 2 ^ 64 \<longrightarrow> enc s \<noteq> [] \<and> rlp (enc s @ rest) = Inr (s, rest))"

definition brotli_inverts :: "brotli_reader \<Rightarrow> (bytes \<Rightarrow> bytes) \<Rightarrow> bool" where
  "brotli_inverts brotli compress \<longleftrightarrow> (\<forall>x n. brotli (compress x) n = Inr (take n x))"

text \<open>A poster's segment for a message, plain or compressed.\<close>

fun segment_of :: "(bytes \<Rightarrow> bytes) \<Rightarrow> bool \<times> batch_message \<Rightarrow> bytes" where
  "segment_of compress (packed, L2Msg content) = (if packed then 1 # compress content else 0 # content)"
| "segment_of compress (packed, DelayedMsg) = [2]"

lemmas segment_kinds = BATCH_SEGMENT_KIND_L2_MESSAGE_def BATCH_SEGMENT_KIND_L2_MESSAGE_BROTLI_def
  BATCH_SEGMENT_KIND_DELAYED_MESSAGES_def BATCH_SEGMENT_KIND_ADVANCE_TIMESTAMP_def
  BATCH_SEGMENT_KIND_ADVANCE_L1_BLOCK_NUMBER_def

subsection \<open>Lemmas\<close>

declare decode_segments.simps [simp del]

lemma kind_le_4: "(k::u8) \<le> 4 \<longleftrightarrow> k = 0 \<or> k = 1 \<or> k = 2 \<or> k = 3 \<or> k = 4"
  unfolding word_le_nat_alt word_unat_eq_iff by (simp, arith)

text \<open>The conversion of one segment is its slots, provided each of them can be interpreted.\<close>

lemma segment_messages_iff:
  "segment_messages brotli segment = Inr ms \<longleftrightarrow> segment_slots brotli segment = map Some ms"
  by (auto simp: segment_messages_def segment_slots_def segment_kinds kind_le_4 and_then_eq_Inr
      map_err_eq_Inr split: list.splits sum.splits)

lemma convert_segments_iff:
  "convert_segments brotli segments = Inr ms \<longleftrightarrow>
     concat (map (segment_slots brotli) segments) = map Some ms"
proof (induction segments arbitrary: ms)
  case (Cons s ss)
  have "convert_segments brotli (s # ss) = Inr ms \<longleftrightarrow>
      (\<exists>a b. segment_slots brotli s = map Some a \<and> concat (map (segment_slots brotli) ss) = map Some b \<and> ms = a @ b)"
    by (auto simp: and_then_eq_Inr segment_messages_iff Cons.IH)
  also have "\<dots> \<longleftrightarrow> segment_slots brotli s @ concat (map (segment_slots brotli) ss) = map Some ms"
    by (auto simp: append_eq_map_conv)
  finally show ?case by simp
qed auto

lemma decompress_iff:
  "decompress brotli input n = Inr out \<longleftrightarrow> brotli input (n + 1) = Inr out \<and> length out \<le> n"
  by (cases "brotli input (n + 1)") (auto simp: decompress_def)

lemma decode_segments_bound:
  "decode_segments rlp segments buf = Inr r \<Longrightarrow> length segments \<le> MAX_SEGMENTS \<Longrightarrow> length r \<le> MAX_SEGMENTS"
proof (induction rlp segments buf rule: decode_segments.induct)
  case (1 rlp segments buf)
  then show ?case
    by (subst (asm) (2) decode_segments.simps) (auto split: if_splits sum.splits)
qed

lemma segment_slots_length: "length (segment_slots brotli s) \<le> 1"
  by (auto simp: segment_slots_def split: list.split sum.split)

lemma concat_length_le: "(\<And>x. length (f x) \<le> 1) \<Longrightarrow> length (concat (map f xs)) \<le> length xs"
proof (induction xs)
  case (Cons x xs)
  then show ?case using add_mono [of "length (f x)" 1] by fastforce
qed simp

lemma decode_segments_encoded:
  assumes "rlp_decodes rlp enc" and "length acc + length segs \<le> MAX_SEGMENTS"
    and "\<forall>s \<in> set segs. length s < 2 ^ 64"
  shows "decode_segments rlp acc (concat (map enc segs)) = Inr (acc @ segs)"
  using assms(2,3)
proof (induction segs arbitrary: acc)
  case Nil
  then show ?case by (subst decode_segments.simps) simp
next
  case (Cons s segs)
  have "rlp (enc s @ concat (map enc segs)) = Inr (s, concat (map enc segs))" and "enc s \<noteq> []"
    using assms(1) Cons.prems(2) unfolding rlp_decodes_def by simp_all
  then show ?case using Cons.IH [of "acc @ [s]"] Cons.prems by (subst decode_segments.simps) simp
qed

lemma segment_slots_of:
  assumes "brotli_inverts brotli compress"
    and "\<forall>content. pm = (True, L2Msg content) \<longrightarrow> length content \<le> MAX_L2_MESSAGE_SIZE"
  shows "segment_slots brotli (segment_of compress pm) = [Some (snd pm)]"
proof (cases pm)
  case (Pair packed m)
  show ?thesis
  proof (cases m)
    case (L2Msg content)
    have "decompress brotli (compress content) MAX_L2_MESSAGE_SIZE = Inr content" if packed
      using assms Pair L2Msg that by (simp add: decompress_iff brotli_inverts_def)
    then show ?thesis using Pair L2Msg by (simp add: segment_slots_def)
  next
    case DelayedMsg
    then show ?thesis using Pair by (simp add: segment_slots_def)
  qed
qed

end
