(* ===== verification/Nitro_Rlp.thy ===== *)
theory Nitro_Rlp
  imports Nitro_Batch
begin

text \<open>
  The hand-written RLP codec of the feed's messages (\<open>src/rollups/nitro/types.rs\<close>). The primitives of
  \<open>alloy_rlp\<close> are the record \<open>rlp_lib\<close>: the encoders of the scalar types and of the derived
  \<open>BatchDataStats\<close>, the decoders (which return the rest of the buffer) and \<open>Header::decode_raw\<close>. The
  \<open>length\<close> of a value is the length of its encoding.
\<close>

subsection \<open>Definitions\<close>

datatype payload_view = PvString bytes | PvList "bytes list"

record rlp_lib =
  rl_header :: "bool \<Rightarrow> nat \<Rightarrow> bytes"
  rl_length_of_length :: "nat \<Rightarrow> nat"
  rl_u8 :: "u8 \<Rightarrow> bytes"
  rl_u64 :: "u64 \<Rightarrow> bytes"
  rl_u256 :: "nat \<Rightarrow> bytes"
  rl_address :: "address \<Rightarrow> bytes"
  rl_b256 :: "b256 \<Rightarrow> bytes"
  rl_bytes :: "bytes \<Rightarrow> bytes"
  rl_stats :: "batch_data_stats \<Rightarrow> bytes"
  rl_decode_raw :: "bytes \<Rightarrow> rlp_error + payload_view \<times> bytes"
  rl_d_u8 :: "bytes \<Rightarrow> rlp_error + u8 \<times> bytes"
  rl_d_u64 :: "bytes \<Rightarrow> rlp_error + u64 \<times> bytes"
  rl_d_u256 :: "bytes \<Rightarrow> rlp_error + nat \<times> bytes"
  rl_d_address :: "bytes \<Rightarrow> rlp_error + address \<times> bytes"
  rl_d_bytes :: "bytes \<Rightarrow> rlp_error + bytes \<times> bytes"
  rl_d_stats :: "bytes \<Rightarrow> rlp_error + batch_data_stats \<times> bytes"

definition decode_exact :: "(bytes \<Rightarrow> rlp_error + 'a \<times> bytes) \<Rightarrow> bytes \<Rightarrow> rlp_error + 'a" where
  "decode_exact dec buf =
     and_then (dec buf) (\<lambda>(x, rest). if rest = [] then Inr x else Inl UnexpectedLength)"

datatype nil_policy = EmptyStringOnly | EmptyListOnly

definition decode_optional_field ::
  "rlp_lib \<Rightarrow> (bytes \<Rightarrow> rlp_error + 'a \<times> bytes) \<Rightarrow> bytes \<Rightarrow> nil_policy \<Rightarrow> rlp_error + 'a option" where
  "decode_optional_field L dec buf policy =
     (let value = and_then (decode_exact dec buf) (\<lambda>x. Inr (Some x)) in
      and_then (rl_decode_raw L buf) (\<lambda>(view, rest).
        case view of
          PvString bs \<Rightarrow>
            (case policy of
               EmptyStringOnly \<Rightarrow> if bs = [] then Inr None else value
             | EmptyListOnly \<Rightarrow> Inl UnexpectedString)
        | PvList items \<Rightarrow>
            (case policy of
               EmptyListOnly \<Rightarrow> if items = [] then Inr None else value
             | EmptyStringOnly \<Rightarrow> Inl UnexpectedList)))"

definition decode_optional_b256_allow_nil_list :: "rlp_lib \<Rightarrow> bytes \<Rightarrow> rlp_error + b256 option" where
  "decode_optional_b256_allow_nil_list L buf =
     and_then (rl_decode_raw L buf) (\<lambda>(view, rest).
       case view of
         PvString bs \<Rightarrow>
           if bs = [] then Inr None
           else if length bs = 32 then Inr (Some bs)
           else Inl UnexpectedLength
       | PvList items \<Rightarrow> if items = [] then Inr None else Inl UnexpectedList)"

definition decode_list :: "rlp_lib \<Rightarrow> bytes \<Rightarrow> rlp_error + bytes list \<times> bytes" where
  "decode_list L buf =
     and_then (rl_decode_raw L buf) (\<lambda>(view, rest).
       case view of PvList fs \<Rightarrow> Inr (fs, rest) | PvString bs \<Rightarrow> Inl UnexpectedString)"

definition decode_header :: "rlp_lib \<Rightarrow> bytes \<Rightarrow> rlp_error + l1_incoming_message_header \<times> bytes" where
  "decode_header L buf =
     and_then (decode_list L buf) (\<lambda>(fs, rest).
     if length fs < 4 then Inl (ListLengthMismatch 4 (length fs)) else
     and_then (decode_exact (rl_d_u8 L) (fs ! 0)) (\<lambda>k.
     and_then (decode_exact (rl_d_address L) (fs ! 1)) (\<lambda>p.
     and_then (decode_exact (rl_d_u64 L) (fs ! 2)) (\<lambda>b.
     and_then (decode_exact (rl_d_u64 L) (fs ! 3)) (\<lambda>t.
     and_then (if length fs > 4 then decode_optional_b256_allow_nil_list L (fs ! 4) else Inr None) (\<lambda>rid.
     and_then (if length fs > 5 then decode_optional_field L (rl_d_u256 L) (fs ! 5) EmptyStringOnly
               else Inr None) (\<lambda>fee.
     Inr (\<lparr>header_kind = k, poster = p, block_number = b, timestamp = t, request_id = rid,
           l1_base_fee = fee\<rparr>, rest))))))))"

definition decode_l1_message :: "rlp_lib \<Rightarrow> bytes \<Rightarrow> rlp_error + l1_incoming_message \<times> bytes" where
  "decode_l1_message L buf =
     and_then (decode_list L buf) (\<lambda>(fs, rest).
     if length fs < 2 then Inl (ListLengthMismatch 2 (length fs)) else
     and_then (decode_optional_field L (decode_header L) (fs ! 0) EmptyListOnly) (\<lambda>h.
     and_then (decode_exact (rl_d_bytes L) (fs ! 1)) (\<lambda>m.
     and_then (if length fs > 2 then decode_optional_field L (rl_d_u64 L) (fs ! 2) EmptyStringOnly
               else Inr None) (\<lambda>cost.
     and_then (if length fs > 3 then decode_optional_field L (rl_d_stats L) (fs ! 3) EmptyListOnly
               else Inr None) (\<lambda>stats.
     Inr (\<lparr>header = h, l2msg = m, legacy_batch_gas_cost = cost, data_stats = stats\<rparr>, rest))))))"

definition decode_message_with_metadata ::
  "rlp_lib \<Rightarrow> bytes \<Rightarrow> rlp_error + message_with_metadata \<times> bytes" where
  "decode_message_with_metadata L buf =
     and_then (decode_list L buf) (\<lambda>(fs, rest).
     if fs = [] then Inl (ListLengthMismatch 1 0) else
     and_then (decode_optional_field L (decode_l1_message L) (fs ! 0) EmptyListOnly) (\<lambda>m.
     and_then (if length fs > 1 then decode_exact (rl_d_u64 L) (fs ! 1) else Inr 0) (\<lambda>d.
     Inr (\<lparr>message = m, delayed_messages_read = d\<rparr>, rest))))"

definition header_rlp_payload_length :: "rlp_lib \<Rightarrow> l1_incoming_message_header \<Rightarrow> nat" where
  "header_rlp_payload_length L h =
     length (rl_u8 L (header_kind h)) + length (rl_address L (poster h)) +
     length (rl_u64 L (block_number h)) + length (rl_u64 L (timestamp h)) +
     (case request_id h of Some rid \<Rightarrow> length (rl_b256 L rid) | None \<Rightarrow> 1) +
     (case l1_base_fee h of Some fee \<Rightarrow> length (rl_u256 L fee) | None \<Rightarrow> 1)"

definition encode_header :: "rlp_lib \<Rightarrow> l1_incoming_message_header \<Rightarrow> bytes" where
  "encode_header L h =
     rl_header L True (header_rlp_payload_length L h) @
     rl_u8 L (header_kind h) @ rl_address L (poster h) @
     rl_u64 L (block_number h) @ rl_u64 L (timestamp h) @
     (case request_id h of Some rid \<Rightarrow> rl_b256 L rid | None \<Rightarrow> rl_header L True 0) @
     (case l1_base_fee h of Some fee \<Rightarrow> rl_u256 L fee | None \<Rightarrow> [0x80])"

definition header_length :: "rlp_lib \<Rightarrow> l1_incoming_message_header \<Rightarrow> nat" where
  "header_length L h =
     (let pl = header_rlp_payload_length L h in rl_length_of_length L pl + pl)"

definition message_rlp_payload_length :: "rlp_lib \<Rightarrow> l1_incoming_message \<Rightarrow> nat" where
  "message_rlp_payload_length L m =
     (case header m of Some h \<Rightarrow> header_length L h | None \<Rightarrow> 1) +
     length (rl_bytes L (l2msg m)) +
     (if legacy_batch_gas_cost m \<noteq> None \<or> data_stats m \<noteq> None
      then (case legacy_batch_gas_cost m of Some cost \<Rightarrow> length (rl_u64 L cost) | None \<Rightarrow> 1) else 0) +
     (case data_stats m of Some stats \<Rightarrow> length (rl_stats L stats) | None \<Rightarrow> 0)"

definition encode_l1_message :: "rlp_lib \<Rightarrow> l1_incoming_message \<Rightarrow> bytes" where
  "encode_l1_message L m =
     rl_header L True (message_rlp_payload_length L m) @
     (case header m of Some h \<Rightarrow> encode_header L h | None \<Rightarrow> rl_header L True 0) @
     rl_bytes L (l2msg m) @
     (if legacy_batch_gas_cost m \<noteq> None \<or> data_stats m \<noteq> None
      then (case legacy_batch_gas_cost m of Some cost \<Rightarrow> rl_u64 L cost | None \<Rightarrow> [0x80]) else []) @
     (case data_stats m of Some stats \<Rightarrow> rl_stats L stats | None \<Rightarrow> [])"

subsection \<open>The contract of the primitives\<close>

text \<open>
  \<open>item bs\<close> says that \<open>bs\<close> is one complete RLP item. A list header followed by items decodes to
  these items; every encoder produces an item that its decoder reads back; an integer is the empty string
  exactly when it is zero.
\<close>

definition rlp_laws :: "rlp_lib \<Rightarrow> (bytes \<Rightarrow> bool) \<Rightarrow> bool" where
  "rlp_laws L item \<longleftrightarrow>
     (\<forall>items rest. list_all item items \<and> length (concat items) < 2 ^ 64 \<longrightarrow>
        item (rl_header L True (length (concat items)) @ concat items) \<and>
        rl_decode_raw L (rl_header L True (length (concat items)) @ concat items @ rest) =
          Inr (PvList items, rest)) \<and>
     (\<forall>n. length (rl_header L True n) = rl_length_of_length L n) \<and> length (rl_header L True 0) = 1 \<and>
     item [0x80] \<and> rl_decode_raw L [0x80] = Inr (PvString [], []) \<and>
     (\<forall>x. item (rl_u8 L x) \<and> rl_d_u8 L (rl_u8 L x) = Inr (x, [])) \<and>
     (\<forall>x. item (rl_u64 L x) \<and> rl_d_u64 L (rl_u64 L x) = Inr (x, []) \<and>
        (\<exists>s. rl_decode_raw L (rl_u64 L x) = Inr (PvString s, []) \<and> (s = [] \<longleftrightarrow> x = 0))) \<and>
     (\<forall>x < 2 ^ 256. item (rl_u256 L x) \<and> rl_d_u256 L (rl_u256 L x) = Inr (x, []) \<and>
        (\<exists>s. rl_decode_raw L (rl_u256 L x) = Inr (PvString s, []) \<and> (s = [] \<longleftrightarrow> x = 0))) \<and>
     (\<forall>a. length a = 20 \<longrightarrow> item (rl_address L a) \<and> rl_d_address L (rl_address L a) = Inr (a, [])) \<and>
     (\<forall>h. length h = 32 \<longrightarrow> item (rl_b256 L h) \<and> rl_decode_raw L (rl_b256 L h) = Inr (PvString h, [])) \<and>
     (\<forall>b. length b < 2 ^ 63 \<longrightarrow> item (rl_bytes L b) \<and> rl_d_bytes L (rl_bytes L b) = Inr (b, [])) \<and>
     (\<forall>st. item (rl_stats L st) \<and> rl_d_stats L (rl_stats L st) = Inr (st, []) \<and>
        (\<exists>i js. rl_decode_raw L (rl_stats L st) = Inr (PvList (i # js), [])))"

text \<open>
  A zero is encoded like an absent value, so decoding gives the message with zeros of optional fields
  dropped.
\<close>

definition drop_zero :: "'a::zero option \<Rightarrow> 'a option" where
  "drop_zero x = (case x of Some v \<Rightarrow> if v = 0 then None else Some v | None \<Rightarrow> None)"

definition normal_header :: "l1_incoming_message_header \<Rightarrow> l1_incoming_message_header" where
  "normal_header h = h\<lparr>l1_base_fee := drop_zero (l1_base_fee h)\<rparr>"

definition normal_message :: "l1_incoming_message \<Rightarrow> l1_incoming_message" where
  "normal_message m = m\<lparr>header := map_option normal_header (header m),
     legacy_batch_gas_cost := drop_zero (legacy_batch_gas_cost m)\<rparr>"

definition wf_header :: "l1_incoming_message_header \<Rightarrow> bool" where
  "wf_header h \<longleftrightarrow> length (poster h) = 20 \<and> (\<forall>r. request_id h = Some r \<longrightarrow> length r = 32) \<and>
     (\<forall>f. l1_base_fee h = Some f \<longrightarrow> f < 2 ^ 256)"

definition header_items :: "rlp_lib \<Rightarrow> l1_incoming_message_header \<Rightarrow> bytes list" where
  "header_items L h =
     [rl_u8 L (header_kind h), rl_address L (poster h), rl_u64 L (block_number h), rl_u64 L (timestamp h),
      (case request_id h of Some rid \<Rightarrow> rl_b256 L rid | None \<Rightarrow> rl_header L True 0),
      (case l1_base_fee h of Some fee \<Rightarrow> rl_u256 L fee | None \<Rightarrow> [0x80])]"

definition message_items :: "rlp_lib \<Rightarrow> l1_incoming_message \<Rightarrow> bytes list" where
  "message_items L m =
     [(case header m of Some h \<Rightarrow> encode_header L h | None \<Rightarrow> rl_header L True 0), rl_bytes L (l2msg m)] @
     (if legacy_batch_gas_cost m \<noteq> None \<or> data_stats m \<noteq> None
      then [case legacy_batch_gas_cost m of Some cost \<Rightarrow> rl_u64 L cost | None \<Rightarrow> [0x80]] else []) @
     (case data_stats m of Some stats \<Rightarrow> [rl_stats L stats] | None \<Rightarrow> [])"

subsection \<open>The round trip\<close>

lemma rlp_lawsD:
  assumes "rlp_laws L item"
  shows "list_all item items \<Longrightarrow> length (concat items) < 2 ^ 64 \<Longrightarrow>
      item (rl_header L True (length (concat items)) @ concat items)"
    and "list_all item items \<Longrightarrow> length (concat items) < 2 ^ 64 \<Longrightarrow>
      rl_decode_raw L (rl_header L True (length (concat items)) @ concat items @ rest) = Inr (PvList items, rest)"
    and "length (rl_header L True n) = rl_length_of_length L n" and "length (rl_header L True 0) = 1"
    and "item [0x80]" and "rl_decode_raw L [0x80] = Inr (PvString [], [])"
    and "item (rl_u8 L a)" and "rl_d_u8 L (rl_u8 L a) = Inr (a, [])"
    and "item (rl_u64 L b)" and "rl_d_u64 L (rl_u64 L b) = Inr (b, [])"
    and "\<exists>s. rl_decode_raw L (rl_u64 L b) = Inr (PvString s, []) \<and> (s = [] \<longleftrightarrow> b = 0)"
    and "c < 2 ^ 256 \<Longrightarrow> item (rl_u256 L c)" and "c < 2 ^ 256 \<Longrightarrow> rl_d_u256 L (rl_u256 L c) = Inr (c, [])"
    and "c < 2 ^ 256 \<Longrightarrow> \<exists>s. rl_decode_raw L (rl_u256 L c) = Inr (PvString s, []) \<and> (s = [] \<longleftrightarrow> c = 0)"
    and "length p = 20 \<Longrightarrow> item (rl_address L p)"
    and "length p = 20 \<Longrightarrow> rl_d_address L (rl_address L p) = Inr (p, [])"
    and "length h = 32 \<Longrightarrow> item (rl_b256 L h)"
    and "length h = 32 \<Longrightarrow> rl_decode_raw L (rl_b256 L h) = Inr (PvString h, [])"
    and "length m < 2 ^ 63 \<Longrightarrow> item (rl_bytes L m)"
    and "length m < 2 ^ 63 \<Longrightarrow> rl_d_bytes L (rl_bytes L m) = Inr (m, [])"
    and "item (rl_stats L st)" and "rl_d_stats L (rl_stats L st) = Inr (st, [])"
    and "\<exists>i js. rl_decode_raw L (rl_stats L st) = Inr (PvList (i # js), [])"
  using assms unfolding rlp_laws_def by blast+

lemma nil_list:
  assumes "rlp_laws L item"
  shows "item (rl_header L True 0)" and "rl_decode_raw L (rl_header L True 0) = Inr (PvList [], [])"
  using rlp_lawsD(1) [OF assms, of "[]"] rlp_lawsD(2) [OF assms, of "[]" "[]"] by simp_all

lemma header_payload:
  assumes "rlp_laws L item"
  shows "header_rlp_payload_length L h = length (concat (header_items L h))"
  using rlp_lawsD(4) [OF assms]
  by (simp add: header_rlp_payload_length_def header_items_def add.assoc split: option.split)

lemma encode_header_items:
  assumes "rlp_laws L item"
  shows "encode_header L h = rl_header L True (length (concat (header_items L h))) @ concat (header_items L h)"
  unfolding encode_header_def header_payload [OF assms] by (simp add: header_items_def)

lemma header_length_eq:
  assumes "rlp_laws L item"
  shows "header_length L h = length (encode_header L h)"
  unfolding header_length_def header_payload [OF assms] encode_header_items [OF assms]
  by (simp add: rlp_lawsD(3) [OF assms] Let_def)

lemma message_payload:
  assumes "rlp_laws L item"
  shows "message_rlp_payload_length L m = length (concat (message_items L m))"
  using rlp_lawsD(4) [OF assms] header_length_eq [OF assms]
  by (simp add: message_rlp_payload_length_def message_items_def add.assoc split: option.split)

lemma encode_message_items:
  assumes "rlp_laws L item"
  shows "encode_l1_message L m = rl_header L True (length (concat (message_items L m))) @ concat (message_items L m)"
  unfolding encode_l1_message_def message_payload [OF assms]
  by (simp add: message_items_def split: option.split)

lemma header_items_ok:
  assumes "rlp_laws L item" and "wf_header h"
  shows "list_all item (header_items L h)"
  using assms(2) nil_list(1) [OF assms(1)] rlp_lawsD [OF assms(1)]
  by (auto simp: header_items_def wf_header_def split: option.split)

lemma decode_header_encoded:
  assumes "rlp_laws L item" and "wf_header h" and "length (encode_header L h) < 2 ^ 64"
  shows "decode_header L (encode_header L h) = Inr (normal_header h, [])"
    and "\<exists>i js. rl_decode_raw L (encode_header L h) = Inr (PvList (i # js), [])"
    and "item (encode_header L h)"
proof -
  note law = rlp_lawsD [OF assms(1)]
  have len: "length (concat (header_items L h)) < 2 ^ 64"
    using assms(3) unfolding encode_header_items [OF assms(1)] by simp
  note items = header_items_ok [OF assms(1,2)]
  have raw: "rl_decode_raw L (encode_header L h) = Inr (PvList (header_items L h), [])"
    unfolding encode_header_items [OF assms(1)] using law(2) [OF items len, of "[]"] by simp
  show "item (encode_header L h)"
    unfolding encode_header_items [OF assms(1)] using law(1) [OF items len] by simp
  show "\<exists>i js. rl_decode_raw L (encode_header L h) = Inr (PvList (i # js), [])"
    unfolding raw by (simp add: header_items_def)
  have dl: "decode_list L (encode_header L h) = Inr (header_items L h, [])"
    by (simp add: decode_list_def raw)
  have rid: "decode_optional_b256_allow_nil_list L (header_items L h ! 4) = Inr (request_id h)"
    using assms(2) nil_list(2) [OF assms(1)] law(18)
    by (auto simp: decode_optional_b256_allow_nil_list_def header_items_def wf_header_def split: option.split)
  have fee: "decode_optional_field L (rl_d_u256 L) (header_items L h ! 5) EmptyStringOnly =
      Inr (drop_zero (l1_base_fee h))"
    using assms(2) law(6,13,14)
    by (fastforce simp: decode_optional_field_def decode_exact_def header_items_def wf_header_def drop_zero_def
        split: option.split)
  show "decode_header L (encode_header L h) = Inr (normal_header h, [])"
    using rid fee assms(2) law(8,10,16)
    by (simp add: decode_header_def dl header_items_def decode_exact_def wf_header_def normal_header_def)
qed

lemma message_items_ok:
  assumes "rlp_laws L item" and "\<forall>h. header m = Some h \<longrightarrow> wf_header h"
    and "length (encode_l1_message L m) < 2 ^ 64" and "length (l2msg m) < 2 ^ 63"
  shows "list_all item (message_items L m)"
    and "\<And>h. header m = Some h \<Longrightarrow> length (encode_header L h) < 2 ^ 64"
proof -
  note law = rlp_lawsD [OF assms(1)]
  show len: "length (encode_header L h) < 2 ^ 64" if "header m = Some h" for h
    using assms(3) that unfolding encode_message_items [OF assms(1)] by (simp add: message_items_def)
  show "list_all item (message_items L m)"
    using assms(2,4) nil_list(1) [OF assms(1)] law(5,9,19,21) decode_header_encoded(3) [OF assms(1) _ len]
    by (auto simp: message_items_def split: option.split)
qed

lemma decode_l1_message_encoded:
  assumes "rlp_laws L item" and "\<forall>h. header m = Some h \<longrightarrow> wf_header h"
    and "length (encode_l1_message L m) < 2 ^ 64" and "length (l2msg m) < 2 ^ 63"
  shows "decode_l1_message L (encode_l1_message L m) = Inr (normal_message m, [])"
proof -
  note law = rlp_lawsD [OF assms(1)]
  note ok = message_items_ok [OF assms]
  have "length (concat (message_items L m)) < 2 ^ 64"
    using assms(3) unfolding encode_message_items [OF assms(1)] by simp
  from law(2) [OF ok(1) this, of "[]"] have dl:
    "decode_list L (encode_l1_message L m) = Inr (message_items L m, [])"
    by (simp add: decode_list_def encode_message_items [OF assms(1)])
  have h: "decode_optional_field L (decode_header L) (message_items L m ! 0) EmptyListOnly =
      Inr (map_option normal_header (header m))"
  proof (cases "header m")
    case None
    then show ?thesis using nil_list(2) [OF assms(1)] by (simp add: message_items_def decode_optional_field_def)
  next
    case (Some h)
    with assms(2) have "wf_header h" by simp
    from decode_header_encoded(1,2) [OF assms(1) this ok(2) [OF Some]] Some show ?thesis
      by (auto simp: message_items_def decode_optional_field_def decode_exact_def)
  qed
  have cost: "decode_optional_field L (rl_d_u64 L) (message_items L m ! 2) EmptyStringOnly =
      Inr (drop_zero (legacy_batch_gas_cost m))" if "2 < length (message_items L m)"
    using that law(6,10) law(11) [of "the (legacy_batch_gas_cost m)"]
    by (auto simp: message_items_def decode_optional_field_def decode_exact_def drop_zero_def
        split: option.splits if_splits)
  have stats: "decode_optional_field L (rl_d_stats L) (message_items L m ! 3) EmptyListOnly = Inr (data_stats m)"
    if "3 < length (message_items L m)"
    using that law(22) law(23) [of "the (data_stats m)"]
    by (auto simp: message_items_def decode_optional_field_def decode_exact_def split: option.splits if_splits)
  have none: "2 \<ge> length (message_items L m) \<Longrightarrow> legacy_batch_gas_cost m = None"
    "3 \<ge> length (message_items L m) \<Longrightarrow> data_stats m = None"
    by (auto simp: message_items_def split: option.splits if_splits)
  have "length (message_items L m) \<ge> 2" "message_items L m ! 1 = rl_bytes L (l2msg m)"
    by (simp_all add: message_items_def)
  then show ?thesis
    using h cost stats none law(20) [OF assms(4)]
    by (simp add: decode_l1_message_def dl decode_exact_def normal_message_def drop_zero_def not_less)
qed

end
