(* ===== verification/Nitro_Signature.thy ===== *)
theory Nitro_Signature
  imports Nitro_Rlp
begin

text \<open>
  Feed signatures (\<open>src/rollups/nitro/utils.rs\<close> and the signature part of \<open>src/rollups/nitro/nitro.rs\<close>).
  Hashing and public-key recovery are the record \<open>crypto\<close>. Both builds of \<open>signature_hash\<close> are modelled
  through the bytes they hash.
\<close>

subsection \<open>Definitions\<close>

text \<open>
  \<open>cr_high_s\<close> says whether \<open>normalize_s\<close> would change the signature; \<open>cr_recover\<close> is
  \<open>recover_address_from_prehash\<close> on the 64 bytes of \<open>r\<close> and \<open>s\<close> and the parity.
\<close>

record crypto =
  cr_keccak256 :: "bytes \<Rightarrow> b256"
  cr_high_s :: "bytes \<Rightarrow> bool"
  cr_recover :: "bytes \<Rightarrow> bool \<Rightarrow> b256 \<Rightarrow> r_error + address"

definition signature_parity :: "u8 \<Rightarrow> bool option" where
  "signature_parity v =
     (if v = 0 \<or> v = 27 then Some False else if v = 1 \<or> v = 28 then Some True else None)"

definition recover_signer_address :: "crypto \<Rightarrow> b256 \<Rightarrow> bytes \<Rightarrow> r_error + address" where
  "recover_signer_address C message_hash sig =
     (if length sig \<noteq> 65 then Inl ''invalid signature length''
      else case signature_parity (sig ! 64) of
        None \<Rightarrow> Inl ''invalid signature value''
      | Some parity \<Rightarrow>
          let rs = take 64 sig in
          if nat_from_be (take 32 rs) = 0 \<or> nat_from_be (drop 32 rs) = 0 then Inl ''invalid signature''
          else if cr_high_s C rs then Inl ''non-canonical high-S signature''
          else map_err (\<lambda>e. ''failed to recover signer'') (cr_recover C rs parity message_hash))"

definition FEED_PREFIX :: bytes where
  "FEED_PREFIX = map (\<lambda>c. of_nat (of_char c)) ''Arbitrum Nitro Feed:''"

definition signature_preimage_v3_9_9 :: "rlp_lib \<Rightarrow> broadcast_feed_message \<Rightarrow> u64 \<Rightarrow> r_error + bytes" where
  "signature_preimage_v3_9_9 L msg chain =
     and_then (ok_or ''BroadcastFeedMessage missing L1IncomingMessage'' (message (feed_message_body msg))) (\<lambda>l1_msg.
     Inr (FEED_PREFIX @ to_be_bytes (sequence_number msg) @ to_be_bytes chain @
          to_be_bytes (delayed_messages_read (feed_message_body msg)) @ encode_l1_message L l1_msg))"

text \<open>\<open>to_be_bytes_trimmed_vec\<close>: the minimal big-endian representation, empty for zero.\<close>

fun be_trimmed :: "nat \<Rightarrow> bytes" where
  "be_trimmed n = (if n = 0 then [] else be_trimmed (n div 256) @ [of_nat (n mod 256)])"

definition signature_preimage :: "broadcast_feed_message \<Rightarrow> u64 \<Rightarrow> r_error + bytes" where
  "signature_preimage msg chain =
     and_then (ok_or ''BroadcastFeedMessage missing L1IncomingMessage'' (message (feed_message_body msg))) (\<lambda>l1_msg.
     and_then (ok_or ''BroadcastFeedMessage missing L1IncomingMessageHeader'' (header l1_msg)) (\<lambda>h.
     Inr (FEED_PREFIX @ to_be_bytes chain @ to_be_bytes (sequence_number msg) @
          (case block_hash msg of Some bh \<Rightarrow> bh | None \<Rightarrow> []) @ block_metadata msg @
          to_be_bytes (delayed_messages_read (feed_message_body msg)) @
          [header_kind h] @ poster h @ to_be_bytes (block_number h) @ to_be_bytes (timestamp h) @
          (case request_id h of Some rid \<Rightarrow> rid | None \<Rightarrow> []) @
          (case l1_base_fee h of Some fee \<Rightarrow> be_trimmed fee | None \<Rightarrow> []) @
          l2msg l1_msg)))"

definition signature_hash :: "crypto \<Rightarrow> rlp_lib \<Rightarrow> broadcast_feed_message \<Rightarrow> u64 \<Rightarrow> r_error + b256" where
  "signature_hash C L msg chain =
     and_then (signature_preimage_v3_9_9 L msg chain) (\<lambda>pre. Inr (cr_keccak256 C pre))"

definition verify_broadcast_feed_message_signature ::
  "crypto \<Rightarrow> rlp_lib \<Rightarrow> u64 \<Rightarrow> address list \<Rightarrow> broadcast_feed_message \<Rightarrow> r_error + unit" where
  "verify_broadcast_feed_message_signature C L chain sequencer_addresses msg =
     and_then (signature_hash C L msg chain) (\<lambda>hash.
     and_then (recover_signer_address C hash (signature msg)) (\<lambda>signer.
       if signer \<notin> set sequencer_addresses then Inl ''signer is not valid'' else Inr ()))"

definition verify_broadcast_feed_message ::
  "crypto \<Rightarrow> rlp_lib \<Rightarrow> nitro_config \<Rightarrow> broadcast_feed_message \<Rightarrow> bool" where
  "verify_broadcast_feed_message C L cfg msg =
     is_ok (verify_broadcast_feed_message_signature C L (chain_id cfg) (legacy_signer_addresses cfg) msg)"

subsection \<open>What the default build signs\<close>

text \<open>The hashed bytes determine the position, the chain, the delayed count and the encoded message.\<close>

lemma preimage_v3_9_9_inject:
  assumes "signature_preimage_v3_9_9 L m c = Inr p" and "signature_preimage_v3_9_9 L m' c' = Inr p"
  shows "sequence_number m = sequence_number m' \<and> c = c' \<and>
    delayed_messages_read (feed_message_body m) = delayed_messages_read (feed_message_body m') \<and>
    (\<exists>l l'. message (feed_message_body m) = Some l \<and> message (feed_message_body m') = Some l' \<and>
       encode_l1_message L l = encode_l1_message L l')"
  using assms by (auto simp: signature_preimage_v3_9_9_def and_then_eq_Inr ok_or_eq_Inr)

lemma recover_signer_iff:
  "recover_signer_address C h sig = Inr a \<longleftrightarrow>
     length sig = 65 \<and> (\<exists>parity. signature_parity (sig ! 64) = Some parity \<and>
       nat_from_be (take 32 sig) \<noteq> 0 \<and> nat_from_be (drop 32 (take 64 sig)) \<noteq> 0 \<and>
       \<not> cr_high_s C (take 64 sig) \<and> cr_recover C (take 64 sig) parity h = Inr a)"
  by (auto simp: recover_signer_address_def Let_def map_err_eq_Inr min_def split: option.splits)

lemma verify_signature_iff:
  "verify_broadcast_feed_message_signature C L chain addrs msg = Inr () \<longleftrightarrow>
     (\<exists>pre signer. signature_preimage_v3_9_9 L msg chain = Inr pre \<and>
        recover_signer_address C (cr_keccak256 C pre) (signature msg) = Inr signer \<and> signer \<in> set addrs)"
  by (auto simp: verify_broadcast_feed_message_signature_def signature_hash_def and_then_eq_Inr)

text \<open>The signature does not cover the size field that the payload leaves out.\<close>

lemma verify_ignores_size [simp]:
  "verify_broadcast_feed_message_signature C L chain addrs (msg\<lparr>cumulative_sum_msg_size := n\<rparr>) =
     verify_broadcast_feed_message_signature C L chain addrs msg"
  by (simp add: verify_broadcast_feed_message_signature_def signature_hash_def signature_preimage_v3_9_9_def)

end
