(* ===== verification/Nitro_Payload.thy ===== *)
theory Nitro_Payload
  imports Nitro_Signature
begin

text \<open>
  The payloads exchanged with Espresso (\<open>src/rollups/nitro/nitro.rs\<close>, and the transaction builder of
  \<open>src/main.rs\<close>): building the V1 format from pending feed messages, parsing it back with signature
  checks, and the legacy format. JSON is the record \<open>json\<close>.
\<close>

subsection \<open>Definitions\<close>

record json =
  js_header_to_vec :: "nitro_header \<Rightarrow> r_error + bytes"
  js_header_from_slice :: "bytes \<Rightarrow> r_error + nitro_header"
  js_msg_to_vec :: "broadcast_feed_message \<Rightarrow> r_error + bytes"
  js_msg_from_slice :: "bytes \<Rightarrow> r_error + broadcast_feed_message"

definition LEN_SIZE :: nat where
  "LEN_SIZE = 8"

definition INDEX_SIZE :: nat where
  "INDEX_SIZE = 8"

definition HOTSHOT_TX_PAYLOAD_MAX_SIZE :: nat where
  "HOTSHOT_TX_PAYLOAD_MAX_SIZE = 900 * 1024"

text \<open>
  The loop of the builder over the pending messages, with the payload so far; it returns the payload and
  how many messages to drain.
\<close>

fun append_messages :: "json \<Rightarrow> bytes \<Rightarrow> broadcast_feed_message list \<Rightarrow> bytes \<times> nat" where
  "append_messages J payload [] = (payload, 0)"
| "append_messages J payload (msg # msgs) =
     (case js_msg_to_vec J msg of
        Inr encoded_msg \<Rightarrow>
          if length payload + LEN_SIZE + length encoded_msg > HOTSHOT_TX_PAYLOAD_MAX_SIZE
          then if payload = []
               then (case append_messages J payload msgs of (p, n) \<Rightarrow> (p, n + 1))
               else (payload, 0)
          else (case append_messages J (payload @ to_be_bytes (of_nat (length encoded_msg)) @ encoded_msg) msgs
                of (p, n) \<Rightarrow> (p, n + 1))
      | Inl e \<Rightarrow> (case append_messages J payload msgs of (p, n) \<Rightarrow> (p, n + 1)))"

definition build_espresso_tx_payload ::
  "json \<Rightarrow> broadcast_feed_message list \<Rightarrow> bytes \<times> broadcast_feed_message list" where
  "build_espresso_tx_payload J messages =
     (case js_header_to_vec J V1 of
        Inl e \<Rightarrow> ([], messages)
      | Inr encoded_header \<Rightarrow>
          (case append_messages J (to_be_bytes (of_nat (length encoded_header)) @ encoded_header) messages of
             (payload, n) \<Rightarrow> (payload, drop n messages)))"

text \<open>The loop of \<open>build_tx_fn\<close>; \<open>None\<close> when it does not return.\<close>

partial_function (option) build_tx_loop ::
  "json \<Rightarrow> broadcast_feed_message list \<Rightarrow> bytes list \<Rightarrow> bytes list option" where
  "build_tx_loop J msgs txes =
     (if msgs = [] then Some txes
      else case build_espresso_tx_payload J msgs of
             (payload, rest) \<Rightarrow>
               if payload = [] then Some txes
               else build_tx_loop J rest (txes @ [payload]))"

definition build_tx_fn :: "json \<Rightarrow> broadcast_feed_message list \<Rightarrow> bytes list option" where
  "build_tx_fn J msgs = build_tx_loop J msgs []"

text \<open>
  The parser reads at a position of the payload; the model passes the remaining bytes. \<open>header_len as usize\<close>
  and \<open>message_size as usize\<close> keep the value.
\<close>

function parse_messages ::
  "json \<Rightarrow> (broadcast_feed_message \<Rightarrow> r_error + unit) \<Rightarrow> bytes \<Rightarrow> broadcast_feed_message list
     \<Rightarrow> r_error + broadcast_feed_message list" where
  "parse_messages J verify rest messages =
     (if rest = [] then Inr messages
      else if length rest < LEN_SIZE then Inl ''payload too short to parse message size''
      else
        let message_size = unat (from_be_bytes (take LEN_SIZE rest)); body = drop LEN_SIZE rest in
        if length body < message_size then Inl ''payload too short to parse message''
        else case js_msg_from_slice J (take message_size body) of
               Inl e \<Rightarrow> Inl ''failed to parse nitro hotshot message''
             | Inr msg \<Rightarrow>
                 parse_messages J verify (drop message_size body)
                   (case verify msg of Inr u \<Rightarrow> messages @ [msg] | Inl e \<Rightarrow> messages))"
  by pat_completeness auto
termination
  by (relation "measure (\<lambda>(J, verify, rest, messages). length rest)") (auto simp: LEN_SIZE_def)

definition parse_nitro_hotshot_payload ::
  "json \<Rightarrow> nitro_config \<Rightarrow> bytes \<Rightarrow> (u64 \<Rightarrow> address list \<Rightarrow> broadcast_feed_message \<Rightarrow> r_error + unit)
     \<Rightarrow> r_error + broadcast_feed_message list" where
  "parse_nitro_hotshot_payload J cfg tx_payload verify_signature =
     (if length tx_payload < LEN_SIZE then Inl ''payload too short to parse header size''
      else
        let header_len = unat (from_be_bytes (take LEN_SIZE tx_payload)); body = drop LEN_SIZE tx_payload in
        if length body < header_len then Inl ''payload too short to parse header''
        else case js_header_from_slice J (take header_len body) of
               Inl e \<Rightarrow> Inl ''failed to parse nitro hotshot header''
             | Inr hdr \<Rightarrow>
                 if hdr \<noteq> V1 then Inl ''unsupported nitro hotshot header version''
                 else parse_messages J
                        (verify_signature (chain_id cfg) (trusted_sequencer_addresses (feed_client (feed cfg))))
                        (drop header_len body) [])"

record legacy_parsed_nitro_espresso_transaction =
  legacy_signature :: bytes
  messages_hash :: b256
  indices :: "u64 list"
  legacy_messages :: "bytes list"

function parse_legacy_messages ::
  "bytes \<Rightarrow> u64 list \<Rightarrow> bytes list \<Rightarrow> r_error + u64 list \<times> bytes list" where
  "parse_legacy_messages rest idxs msgs =
     (if rest = [] then Inr (idxs, msgs)
      else if length rest < LEN_SIZE + INDEX_SIZE then Inl ''payload too short to index size''
      else
        let idx = from_be_bytes (take INDEX_SIZE rest);
            rest1 = drop INDEX_SIZE rest;
            message_size = unat (from_be_bytes (take LEN_SIZE rest1));
            rest2 = drop LEN_SIZE rest1
        in if length rest2 < message_size then Inl ''payload too short to message size''
           else let msg = take message_size rest2; rest3 = drop message_size rest2 in
                if msg = [] then parse_legacy_messages rest3 idxs msgs
                else parse_legacy_messages rest3 (idxs @ [idx]) (msgs @ [msg]))"
  by pat_completeness auto
termination
  by (relation "measure (\<lambda>(rest, idxs, msgs). length rest)") (auto simp: LEN_SIZE_def INDEX_SIZE_def)

definition parse_legacy_payload_bytes ::
  "crypto \<Rightarrow> bytes \<Rightarrow> r_error + legacy_parsed_nitro_espresso_transaction" where
  "parse_legacy_payload_bytes C tx_payload =
     (if length tx_payload < LEN_SIZE then Inl ''payload too short to parse signature size''
      else
        let signature_len = unat (from_be_bytes (take LEN_SIZE tx_payload)); body = drop LEN_SIZE tx_payload in
        if length body < signature_len then Inl ''payload too short to parse signature''
        else
          let sig = take signature_len body; rest = drop signature_len body in
          and_then (parse_legacy_messages rest [] []) (\<lambda>(idxs, msgs).
            Inr \<lparr>legacy_signature = sig, messages_hash = cr_keccak256 C rest,
                 indices = idxs, legacy_messages = msgs\<rparr>))"

definition legacy_entry :: "u64 \<Rightarrow> u64 \<Rightarrow> message_with_metadata \<Rightarrow> nitro_rollup_queue_entry" where
  "legacy_entry height idx m =
     \<lparr>feed_message = \<lparr>sequence_number = idx, feed_message_body = m, signature = [], block_metadata = [],
        cumulative_sum_msg_size = 0, block_hash = None\<rparr>,
      hotshot_height = height\<rparr>"

fun decode_legacy_messages ::
  "rlp_lib \<Rightarrow> u64 \<Rightarrow> (u64 \<times> bytes) list \<Rightarrow> nitro_rollup_queue_entry list" where
  "decode_legacy_messages L height [] = []"
| "decode_legacy_messages L height ((idx, msg) # rest) =
     (case decode_exact (decode_message_with_metadata L) msg of
        Inr m \<Rightarrow> legacy_entry height idx m # decode_legacy_messages L height rest
      | Inl e \<Rightarrow> decode_legacy_messages L height rest)"

definition legacy_parse_nitro_hotshot_payload ::
  "crypto \<Rightarrow> rlp_lib \<Rightarrow> nitro_config \<Rightarrow> bytes \<Rightarrow> u64 \<Rightarrow> nitro_rollup_queue_entry list" where
  "legacy_parse_nitro_hotshot_payload C L cfg tx_payload height =
     (case parse_legacy_payload_bytes C tx_payload of
        Inl e \<Rightarrow> []
      | Inr parsed \<Rightarrow>
          (case recover_signer_address C (messages_hash parsed) (legacy_signature parsed) of
             Inl e \<Rightarrow> []
           | Inr signer \<Rightarrow>
               if signer \<notin> set (legacy_signer_addresses cfg) then []
               else if length (indices parsed) \<noteq> length (legacy_messages parsed) then []
               else decode_legacy_messages L height (zip (indices parsed) (legacy_messages parsed))))"

subsection \<open>Framing\<close>

text \<open>
  The JSON library reads back what it writes, except for the field that is skipped. \<open>encoded\<close> are the
  encodings of the messages that have one, \<open>delivered\<close> the messages a reader of these encodings keeps.
\<close>

definition json_inverts :: "json \<Rightarrow> bool" where
  "json_inverts J \<longleftrightarrow>
     (\<forall>h bs. js_header_to_vec J h = Inr bs \<longrightarrow> js_header_from_slice J bs = Inr h) \<and>
     (\<forall>m bs. js_msg_to_vec J m = Inr bs \<longrightarrow>
        js_msg_from_slice J bs = Inr (m\<lparr>cumulative_sum_msg_size := 0\<rparr>))"

definition frame :: "bytes \<Rightarrow> bytes" where
  "frame bs = to_be_bytes (of_nat (length bs)) @ bs"

fun encoded :: "json \<Rightarrow> broadcast_feed_message list \<Rightarrow> bytes list" where
  "encoded J [] = []"
| "encoded J (m # ms) = (case js_msg_to_vec J m of Inr bs \<Rightarrow> bs # encoded J ms | Inl e \<Rightarrow> encoded J ms)"

definition delivered ::
  "json \<Rightarrow> (broadcast_feed_message \<Rightarrow> r_error + unit) \<Rightarrow> broadcast_feed_message list
     \<Rightarrow> broadcast_feed_message list" where
  "delivered J verify ms =
     filter (\<lambda>m. is_ok (verify m))
       (map (\<lambda>m. m\<lparr>cumulative_sum_msg_size := 0\<rparr>) (filter (\<lambda>m. is_ok (js_msg_to_vec J m)) ms))"

definition read_payload ::
  "json \<Rightarrow> nitro_config \<Rightarrow> (u64 \<Rightarrow> address list \<Rightarrow> broadcast_feed_message \<Rightarrow> r_error + unit) \<Rightarrow> bytes
     \<Rightarrow> broadcast_feed_message list" where
  "read_payload J cfg verify p =
     (case parse_nitro_hotshot_payload J cfg p verify of Inr ms \<Rightarrow> ms | Inl e \<Rightarrow> [])"

definition legacy_frame :: "u64 \<times> bytes \<Rightarrow> bytes" where
  "legacy_frame im = to_be_bytes (fst im) @ frame (snd im)"

definition fits :: "json \<Rightarrow> nat \<Rightarrow> broadcast_feed_message \<Rightarrow> bool" where
  "fits J used m = (case js_msg_to_vec J m of
      Inl e \<Rightarrow> True | Inr bs \<Rightarrow> used + LEN_SIZE + length bs \<le> HOTSHOT_TX_PAYLOAD_MAX_SIZE)"

declare parse_messages.simps [simp del] parse_legacy_messages.simps [simp del]

lemma length_frame [simp]: "length (frame bs) = LEN_SIZE + length bs"
  by (simp add: frame_def LEN_SIZE_def)

lemma frame_nonempty [simp]: "frame bs \<noteq> []"
  by (simp add: LEN_SIZE_def flip: length_0_conv)

lemma take_frame [simp]:
  "take LEN_SIZE (frame bs) = to_be_bytes (of_nat (length bs))"
  "drop LEN_SIZE (frame bs) = bs"
  by (simp_all add: frame_def LEN_SIZE_def)

lemma frame_size: "length bs < 2 ^ 64 \<Longrightarrow> unat (from_be_bytes (to_be_bytes (of_nat (length bs)))) = length bs"
  by (simp add: unat_of_nat_u64)

lemma encoded_append [simp]: "encoded J (ms @ ms') = encoded J ms @ encoded J ms'"
  by (induction ms) (auto split: sum.split)

lemma append_messages_spec:
  assumes "append_messages J payload ms = (payload', n)" and "payload \<noteq> []"
    and "length payload \<le> HOTSHOT_TX_PAYLOAD_MAX_SIZE"
  shows "n \<le> length ms" and "payload' = payload @ concat (map frame (encoded J (take n ms)))"
    and "length payload' \<le> HOTSHOT_TX_PAYLOAD_MAX_SIZE"
    and "n < length ms \<longrightarrow> \<not> fits J (length payload') (ms ! n)"
  using assms
proof (atomize (full), induction J payload ms arbitrary: payload' n rule: append_messages.induct)
  case (2 J payload m ms)
  show ?case
  proof (cases "js_msg_to_vec J m")
    case (Inl e)
    then obtain k where "append_messages J payload ms = (payload', k)" "n = k + 1"
      using "2.prems"(1) by (auto split: prod.splits)
    then show ?thesis using "2.IH"(1) [OF Inl, of payload' k] "2.prems"(2,3) Inl by auto
  next
    case (Inr bs)
    show ?thesis
    proof (cases "length payload + LEN_SIZE + length bs > HOTSHOT_TX_PAYLOAD_MAX_SIZE")
      case True
      then show ?thesis using "2.prems" Inr by (auto simp: fits_def)
    next
      case False
      then obtain k where
        k: "append_messages J (payload @ frame bs) ms = (payload', k)" "n = k + 1"
        using "2.prems"(1) Inr by (auto simp: frame_def split: prod.splits)
      then show ?thesis
        using "2.IH"(3) [OF Inr False, folded frame_def, of payload' k] False Inr by auto
    qed
  qed
qed simp

lemma parse_messages_frames:
  assumes "json_inverts J" and "\<forall>bs \<in> set (encoded J ms). length bs < 2 ^ 64"
  shows "parse_messages J verify (concat (map frame (encoded J ms))) acc = Inr (acc @ delivered J verify ms)"
  using assms(2)
proof (induction ms arbitrary: acc)
  case Nil
  then show ?case by (subst parse_messages.simps) (simp add: delivered_def)
next
  case (Cons m ms)
  show ?case
  proof (cases "js_msg_to_vec J m")
    case (Inl e)
    then show ?thesis using Cons by (simp add: delivered_def)
  next
    case (Inr bs)
    have len: "length bs < 2 ^ 64" and rest: "\<forall>bs \<in> set (encoded J ms). length bs < 2 ^ 64"
      using Cons.prems Inr by simp_all
    have m: "js_msg_from_slice J bs = Inr (m\<lparr>cumulative_sum_msg_size := 0\<rparr>)"
      using assms(1) Inr by (simp add: json_inverts_def)
    show ?thesis
      using Inr m frame_size [OF len] Cons.IH [OF rest]
      by (subst parse_messages.simps) (simp add: delivered_def Let_def split: sum.split)
  qed
qed

subsection \<open>Building and parsing\<close>

lemma encoded_bound:
  "length (concat (map frame bss)) \<le> n \<Longrightarrow> bs \<in> set bss \<Longrightarrow> length bs \<le> n"
  by (induction bss) auto

lemma build_payload_spec:
  assumes "js_header_to_vec J V1 = Inr hb" and "length (frame hb) \<le> HOTSHOT_TX_PAYLOAD_MAX_SIZE"
    and "build_espresso_tx_payload J ms = (payload, rest)"
  shows "\<exists>taken. ms = taken @ rest \<and> payload = frame hb @ concat (map frame (encoded J taken)) \<and>
    length payload \<le> HOTSHOT_TX_PAYLOAD_MAX_SIZE \<and>
    (rest \<noteq> [] \<longrightarrow> \<not> fits J (length payload) (hd rest))"
proof -
  obtain n where am: "append_messages J (frame hb) ms = (payload, n)" and rest: "rest = drop n ms"
    using assms(1,3) by (auto simp: build_espresso_tx_payload_def frame_def split: prod.splits)
  note sp = append_messages_spec [OF am frame_nonempty assms(2)]
  have "hd (drop n ms) = ms ! n" if "n < length ms" using that by (simp add: hd_drop_conv_nth)
  then show ?thesis using sp rest by (intro exI [of _ "take n ms"]) auto
qed

lemma parse_built_payload:
  assumes "json_inverts J" and "js_header_to_vec J V1 = Inr hb"
    and "length (frame hb @ concat (map frame (encoded J taken))) \<le> HOTSHOT_TX_PAYLOAD_MAX_SIZE"
  shows "parse_nitro_hotshot_payload J cfg (frame hb @ concat (map frame (encoded J taken))) verify =
    Inr (delivered J (verify (chain_id cfg) (trusted_sequencer_addresses (feed_client (feed cfg)))) taken)"
proof -
  have hb: "length hb < 2 ^ 64" and "\<forall>bs \<in> set (encoded J taken). length bs < 2 ^ 64"
    using assms(3) encoded_bound [of "encoded J taken" HOTSHOT_TX_PAYLOAD_MAX_SIZE]
    by (force simp: HOTSHOT_TX_PAYLOAD_MAX_SIZE_def)+
  from parse_messages_frames [OF assms(1) this(2)] frame_size [OF hb] assms(1,2)
  show ?thesis by (simp add: parse_nitro_hotshot_payload_def Let_def json_inverts_def)
qed

text \<open>A message that fits next to the header is always taken, so every round makes progress.\<close>

lemma build_progress:
  assumes "js_header_to_vec J V1 = Inr hb" and "length (frame hb) \<le> HOTSHOT_TX_PAYLOAD_MAX_SIZE"
    and "build_espresso_tx_payload J ms = (payload, rest)" and "ms \<noteq> []" and "fits J (length (frame hb)) (hd ms)"
  shows "length rest < length ms"
proof -
  obtain taken where t: "ms = taken @ rest" "payload = frame hb @ concat (map frame (encoded J taken))"
    "rest \<noteq> [] \<longrightarrow> \<not> fits J (length payload) (hd rest)"
    using build_payload_spec [OF assms(1-3)] by blast
  then have "taken \<noteq> []" using assms(4,5) by auto
  then show ?thesis using t(1) by simp
qed

lemma build_tx_loop_total:
  assumes "json_inverts J" and "js_header_to_vec J V1 = Inr hb"
    and "length (frame hb) \<le> HOTSHOT_TX_PAYLOAD_MAX_SIZE"
    and "\<forall>m \<in> set ms. fits J (length (frame hb)) m"
  shows "\<exists>out. build_tx_loop J ms txes = Some (txes @ out) \<and>
    (\<forall>p \<in> set out. length p \<le> HOTSHOT_TX_PAYLOAD_MAX_SIZE) \<and>
    concat (map (read_payload J cfg verify) out) = delivered J (verify (chain_id cfg) (trusted_sequencer_addresses (feed_client (feed cfg)))) ms"
  using assms(4)
proof (induction "length ms" arbitrary: ms txes rule: less_induct)
  case less
  show ?case
  proof (cases "ms = []")
    case True
    then show ?thesis by (subst build_tx_loop.simps) (simp add: delivered_def)
  next
    case False
    obtain payload rest where b: "build_espresso_tx_payload J ms = (payload, rest)" by fastforce
    obtain taken where t: "ms = taken @ rest" "payload = frame hb @ concat (map frame (encoded J taken))"
      "length payload \<le> HOTSHOT_TX_PAYLOAD_MAX_SIZE"
      using build_payload_spec [OF assms(2,3) b] by blast
    have "length rest < length ms"
      by (rule build_progress [OF assms(2,3) b False]) (use less.prems False in simp)
    moreover have "\<forall>m \<in> set rest. fits J (length (frame hb)) m" using less.prems t(1) by simp
    ultimately obtain out where out: "build_tx_loop J rest (txes @ [payload]) = Some ((txes @ [payload]) @ out)"
      "\<forall>p \<in> set out. length p \<le> HOTSHOT_TX_PAYLOAD_MAX_SIZE"
      "concat (map (read_payload J cfg verify) out) = delivered J (verify (chain_id cfg) (trusted_sequencer_addresses (feed_client (feed cfg)))) rest"
      using less.hyps by blast
    have "read_payload J cfg verify payload = delivered J (verify (chain_id cfg) (trusted_sequencer_addresses (feed_client (feed cfg)))) taken"
      using parse_built_payload [OF assms(1,2), of taken cfg verify] t(2,3) by (simp add: read_payload_def)
    moreover have "build_tx_loop J ms txes = build_tx_loop J rest (txes @ [payload])"
      by (subst build_tx_loop.simps) (simp add: False b t(2))
    ultimately show ?thesis
      using out t by (intro exI [of _ "payload # out"]) (simp add: delivered_def)
  qed
qed

lemma build_tx_loop_diverges:
  assumes "js_header_to_vec J V1 = Inr hb" and "\<not> fits J (length (frame hb)) m"
  shows "build_tx_loop J (m # ms) txes = None"
proof -
  have stuck: "build_espresso_tx_payload J (m # ms) = (frame hb, m # ms)"
    using assms
    by (auto simp: build_espresso_tx_payload_def fits_def simp flip: frame_def split: sum.splits)
  have "J = J \<longrightarrow> m # ms \<noteq> m # ms" if "build_tx_loop J (m # ms) txes = Some y" for y
    using _ that
  proof (rule build_tx_loop.raw_induct [where P = "\<lambda>J' msgs txes y. J' = J \<longrightarrow> msgs \<noteq> m # ms"])
    fix loop J' msgs and txes :: "bytes list" and y
    assume IH: "\<And>J' msgs txes y. loop J' msgs txes = Some y \<Longrightarrow> J' = J \<longrightarrow> msgs \<noteq> m # ms"
      and body: "(if msgs = [] then Some txes
        else case build_espresso_tx_payload J' msgs of
          (payload, rest) \<Rightarrow> if payload = [] then Some txes else loop J' rest (txes @ [payload])) = Some y"
    show "J' = J \<longrightarrow> msgs \<noteq> m # ms"
      using IH [of J "m # ms" "txes @ [frame hb]" y] body stuck by auto
  qed
  then show ?thesis by (cases "build_tx_loop J (m # ms) txes") auto
qed

subsection \<open>The legacy format\<close>

lemma legacy_frame_parts [simp]:
  "length (legacy_frame im) = INDEX_SIZE + LEN_SIZE + length (snd im)"
  "legacy_frame im \<noteq> []"
  "take INDEX_SIZE (legacy_frame im) = to_be_bytes (fst im)"
  "drop INDEX_SIZE (legacy_frame im) = frame (snd im)"
  by (simp_all add: legacy_frame_def INDEX_SIZE_def)

text \<open>One round of the legacy parser on a frame.\<close>

lemma parse_legacy_step:
  assumes "length m < 2 ^ 64"
  shows "parse_legacy_messages (legacy_frame (i, m) @ rest) idxs msgs =
    (if m = [] then parse_legacy_messages rest idxs msgs
     else parse_legacy_messages rest (idxs @ [i]) (msgs @ [m]))"
  using frame_size [OF assms] by (subst parse_legacy_messages.simps) (simp add: Let_def)

lemma parse_legacy_frames:
  assumes "\<forall>im \<in> set ims. length (snd im) < 2 ^ 64"
  shows "parse_legacy_messages (concat (map legacy_frame ims)) idxs msgs =
    Inr (idxs @ map fst (filter (\<lambda>im. snd im \<noteq> []) ims), msgs @ map snd (filter (\<lambda>im. snd im \<noteq> []) ims))"
  using assms
proof (induction ims arbitrary: idxs msgs)
  case Nil
  then show ?case by (subst parse_legacy_messages.simps) simp
next
  case (Cons im ims)
  then show ?case by (cases im) (simp add: parse_legacy_step)
qed

text \<open>Conversely the parser only accepts a sequence of frames.\<close>

lemma parse_legacy_unframe:
  assumes "bs \<noteq> []" and "parse_legacy_messages bs idxs msgs = Inr r"
  shows "\<exists>i m rest. bs = legacy_frame (i, m) @ rest \<and> length m < 2 ^ 64"
proof -
  define n where "n = unat (from_be_bytes (take 8 (drop 8 bs)))"
  have l: "16 \<le> length bs" and n: "n \<le> length (drop 16 bs)"
    using assms unfolding parse_legacy_messages.simps [of bs]
    by (auto simp: Let_def LEN_SIZE_def INDEX_SIZE_def n_def not_less split: if_splits)
  have "length (take n (drop 16 bs)) = n" using n by simp
  moreover have "of_nat n = from_be_bytes (take 8 (drop 8 bs))" by (simp add: n_def)
  ultimately have "legacy_frame (from_be_bytes (take 8 bs), take n (drop 16 bs)) =
      take 8 bs @ take 8 (drop 8 bs) @ take n (drop 16 bs)"
    using l unfolding legacy_frame_def frame_def by (simp add: to_be_from_be)
  moreover have "bs = take 8 bs @ take 8 (drop 8 bs) @ take n (drop 16 bs) @ drop n (drop 16 bs)"
    using append_take_drop_id [of 8 bs] append_take_drop_id [of 8 "drop 8 bs"]
      append_take_drop_id [of n "drop 16 bs"] by (metis drop_drop numeral_Bit0)
  moreover have "n < 2 ^ 64" unfolding n_def by (rule unat_u64_less)
  ultimately show ?thesis
    by (intro exI [of _ "from_be_bytes (take 8 bs)"] exI [of _ "take n (drop 16 bs)"]
        exI [of _ "drop n (drop 16 bs)"]) (simp add: min_def)
qed

lemma parse_legacy_sound:
  assumes "parse_legacy_messages bs idxs msgs = Inr (idxs', msgs')"
  shows "\<exists>ims. bs = concat (map legacy_frame ims) \<and> (\<forall>im \<in> set ims. length (snd im) < 2 ^ 64) \<and>
    idxs' = idxs @ map fst (filter (\<lambda>im. snd im \<noteq> []) ims) \<and>
    msgs' = msgs @ map snd (filter (\<lambda>im. snd im \<noteq> []) ims)"
  using assms
proof (induction "length bs" arbitrary: bs idxs msgs rule: less_induct)
  case less
  show ?case
  proof (cases "bs = []")
    case True
    then have "idxs' = idxs \<and> msgs' = msgs"
      using less.prems by (subst (asm) parse_legacy_messages.simps) simp
    then show ?thesis using True by (intro exI [of _ "[]"]) simp
  next
    case False
    obtain i m rest where bs: "bs = legacy_frame (i, m) @ rest" and m: "length m < 2 ^ 64"
      using parse_legacy_unframe [OF False less.prems] by blast
    have "length rest < length bs" by (simp add: bs INDEX_SIZE_def)
    note IH = less.hyps [OF this]
    have p: "(if m = [] then parse_legacy_messages rest idxs msgs
        else parse_legacy_messages rest (idxs @ [i]) (msgs @ [m])) = Inr (idxs', msgs')"
      using less.prems unfolding bs parse_legacy_step [OF m] .
    show ?thesis
    proof (cases "m = []")
      case True
      with p IH obtain ims where "rest = concat (map legacy_frame ims)"
        "\<forall>im \<in> set ims. length (snd im) < 2 ^ 64"
        "idxs' = idxs @ map fst (filter (\<lambda>im. snd im \<noteq> []) ims)"
        "msgs' = msgs @ map snd (filter (\<lambda>im. snd im \<noteq> []) ims)" by auto
      then show ?thesis using bs m True by (intro exI [of _ "(i, m) # ims"]) simp
    next
      case False
      with p IH [of "idxs @ [i]" "msgs @ [m]"] obtain ims where "rest = concat (map legacy_frame ims)"
        "\<forall>im \<in> set ims. length (snd im) < 2 ^ 64"
        "idxs' = (idxs @ [i]) @ map fst (filter (\<lambda>im. snd im \<noteq> []) ims)"
        "msgs' = (msgs @ [m]) @ map snd (filter (\<lambda>im. snd im \<noteq> []) ims)" by auto
      then show ?thesis using bs m False by (intro exI [of _ "(i, m) # ims"]) simp
    qed
  qed
qed

end
