(* ===== verification/Std_Slice.thy ===== *)
theory Std_Slice
  imports Prelude
begin

text \<open>
  The searches of \<open>std::slice\<close> the service uses: \<open>binary_search_by\<close> as the standard library
  computes it (the branch-free halving loop), \<open>binary_search_by_key\<close> and \<open>partition_point\<close> on top
  of it. On a strictly sorted slice they are shown equal to the reference definitions
  \<open>length (takeWhile P xs)\<close> and "the index of the key".
\<close>

datatype ordering = Less | Equal | Greater

definition cmp :: "'k::linorder \<Rightarrow> 'k \<Rightarrow> ordering" where
  "cmp a b = (if a < b then Less else if a = b then Equal else Greater)"

function bs_loop :: "('a \<Rightarrow> ordering) \<Rightarrow> 'a list \<Rightarrow> nat \<Rightarrow> nat \<Rightarrow> nat" where
  "bs_loop f xs base sz =
     (if sz > 1
      then let half = sz div 2; mid = base + half
           in bs_loop f xs (if f (xs ! mid) = Greater then base else mid) (sz - half)
      else base)"
  by pat_completeness auto
termination
  by (relation "measure (\<lambda>(f, xs, base, sz). sz)") auto

definition binary_search_by :: "('a \<Rightarrow> ordering) \<Rightarrow> 'a list \<Rightarrow> nat + nat" where
  "binary_search_by f xs =
     (if xs = [] then Inl 0
      else let base = bs_loop f xs 0 (length xs); c = f (xs ! base)
           in if c = Equal then Inr base
              else Inl (if c = Less then base + 1 else base))"

definition binary_search_by_key :: "'k::linorder \<Rightarrow> ('a \<Rightarrow> 'k) \<Rightarrow> 'a list \<Rightarrow> nat + nat" where
  "binary_search_by_key b key xs = binary_search_by (\<lambda>x. cmp (key x) b) xs"

definition partition_point :: "('a \<Rightarrow> bool) \<Rightarrow> 'a list \<Rightarrow> nat" where
  "partition_point P xs =
     (case binary_search_by (\<lambda>x. if P x then Less else Greater) xs of
        Inl i \<Rightarrow> i | Inr i \<Rightarrow> i)"

subsection \<open>The halving loop finds the last element that is not greater\<close>

declare bs_loop.simps [simp del]

definition monotone_cmp :: "('a \<Rightarrow> ordering) \<Rightarrow> 'a list \<Rightarrow> bool" where
  "monotone_cmp f xs \<longleftrightarrow>
     (\<forall>i j. i < j \<and> j < length xs \<and> f (xs ! i) = Greater \<longrightarrow> f (xs ! j) = Greater)"

lemma monotone_cmpD:
  "monotone_cmp f xs \<Longrightarrow> i < j \<Longrightarrow> j < length xs \<Longrightarrow> f (xs ! i) = Greater \<Longrightarrow> f (xs ! j) = Greater"
  by (auto simp: monotone_cmp_def)

lemma bs_loop_spec:
  assumes "monotone_cmp f xs" and "0 < sz" and "base + sz \<le> length xs"
    and "base = 0 \<or> f (xs ! base) \<noteq> Greater"
    and "\<forall>i. base + sz \<le> i \<and> i < length xs \<longrightarrow> f (xs ! i) = Greater"
  shows "let r = bs_loop f xs base sz in
           r < length xs \<and> (r = 0 \<or> f (xs ! r) \<noteq> Greater) \<and>
           (\<forall>i. r < i \<and> i < length xs \<longrightarrow> f (xs ! i) = Greater)"
  using assms
proof (induction f xs base sz rule: bs_loop.induct)
  case (1 f xs base sz)
  show ?case
  proof (cases "sz > 1")
    case True
    define half mid where "half = sz div 2" and "mid = base + half"
    have half: "0 < half" "half < sz" using True by (auto simp: half_def)
    let ?base = "if f (xs ! mid) = Greater then base else mid"
    have above: "\<forall>i. ?base + (sz - half) \<le> i \<and> i < length xs \<longrightarrow> f (xs ! i) = Greater"
    proof (cases "f (xs ! mid) = Greater")
      case G: True
      have "f (xs ! i) = Greater" if i: "base + (sz - half) \<le> i" "i < length xs" for i
      proof -
        have "mid \<le> i" using i half by (auto simp: mid_def half_def)
        then consider "mid = i" | "mid < i" by linarith
        then show ?thesis
          using G monotone_cmpD [OF "1.prems"(1) _ i(2)] by cases auto
      qed
      then show ?thesis using G by simp
    next
      case False
      then show ?thesis using "1.prems"(5) half by (auto simp: mid_def)
    qed
    have bound: "?base + (sz - half) \<le> length xs"
      using "1.prems"(3) half by (auto simp: mid_def)
    have low: "?base = 0 \<or> f (xs ! ?base) \<noteq> Greater"
      using "1.prems"(4) by (cases "f (xs ! mid) = Greater") simp_all
    have pos: "0 < sz - half" using half by simp
    have "let r = bs_loop f xs ?base (sz - half) in
           r < length xs \<and> (r = 0 \<or> f (xs ! r) \<noteq> Greater) \<and>
           (\<forall>i. r < i \<and> i < length xs \<longrightarrow> f (xs ! i) = Greater)"
      by (rule "1.IH" [OF True half_def mid_def "1.prems"(1) pos bound low above])
    moreover have "bs_loop f xs base sz = bs_loop f xs ?base (sz - half)"
      using True by (subst bs_loop.simps) (simp only: Let_def half_def mid_def if_True)
    ultimately show ?thesis by (simp only:)
  next
    case False
    then have sz: "sz = 1" using "1.prems"(2) by simp
    have "bs_loop f xs base sz = base" using False by (subst bs_loop.simps) simp
    then show ?thesis using "1.prems"(3,4,5) sz by (auto simp: Let_def)
  qed
qed

lemma bs_loop_full:
  assumes "monotone_cmp f xs" and "xs \<noteq> []"
  defines "r \<equiv> bs_loop f xs 0 (length xs)"
  shows "r < length xs" and "r = 0 \<or> f (xs ! r) \<noteq> Greater"
    and "\<And>i. r < i \<Longrightarrow> i < length xs \<Longrightarrow> f (xs ! i) = Greater"
proof -
  have "let r = bs_loop f xs 0 (length xs) in
           r < length xs \<and> (r = 0 \<or> f (xs ! r) \<noteq> Greater) \<and>
           (\<forall>i. r < i \<and> i < length xs \<longrightarrow> f (xs ! i) = Greater)"
    using assms(1,2) by (intro bs_loop_spec) auto
  then show "r < length xs" and "r = 0 \<or> f (xs ! r) \<noteq> Greater"
    and "\<And>i. r < i \<Longrightarrow> i < length xs \<Longrightarrow> f (xs ! i) = Greater"
    by (auto simp: Let_def r_def)
qed

subsection \<open>\<open>partition_point\<close>\<close>

definition partitioned :: "('a \<Rightarrow> bool) \<Rightarrow> 'a list \<Rightarrow> bool" where
  "partitioned P xs \<longleftrightarrow> (\<forall>i j. i < j \<and> j < length xs \<and> P (xs ! j) \<longrightarrow> P (xs ! i))"

lemma takeWhile_length_eqI:
  assumes "n \<le> length xs" and "\<And>i. i < n \<Longrightarrow> P (xs ! i)"
    and "n < length xs \<Longrightarrow> \<not> P (xs ! n)"
  shows "length (takeWhile P xs) = n"
proof -
  have "takeWhile P xs = take n xs"
    using assms by (intro takeWhile_eq_take_P_nth) auto
  then show ?thesis using assms(1) by simp
qed

lemma partition_point_eq:
  assumes "partitioned P xs"
  shows "partition_point P xs = length (takeWhile P xs)"
proof (cases "xs = []")
  case True
  then show ?thesis by (simp add: partition_point_def binary_search_by_def)
next
  case False
  let ?f = "\<lambda>x. if P x then Less else Greater"
  define r where "r = bs_loop ?f xs 0 (length xs)"
  have mono: "monotone_cmp ?f xs"
    using assms by (auto simp: monotone_cmp_def partitioned_def split: if_splits)
  note r = bs_loop_full [OF mono False, folded r_def]
  have "length (takeWhile P xs) = (if P (xs ! r) then r + 1 else r)"
  proof (rule takeWhile_length_eqI)
    show "(if P (xs ! r) then r + 1 else r) \<le> length xs" using r(1) by simp
    show "P (xs ! i)" if "i < (if P (xs ! r) then r + 1 else r)" for i
      using that r(1,2) assms by (auto simp: partitioned_def less_Suc_eq split: if_splits)
    show "\<not> P (xs ! (if P (xs ! r) then r + 1 else r))"
      if "(if P (xs ! r) then r + 1 else r) < length xs"
      using that r(3) [of "r + 1"] by (auto split: if_splits)
  qed
  then show ?thesis
    using False by (simp add: partition_point_def binary_search_by_def Let_def r_def [symmetric])
qed

lemma partitioned_sorted:
  assumes "strictly_sorted key xs" and "\<And>a b. key a < key b \<Longrightarrow> P b \<Longrightarrow> P a"
  shows "partitioned P xs"
  unfolding partitioned_def
proof (intro allI impI)
  fix i j assume ij: "i < j \<and> j < length xs \<and> P (xs ! j)"
  then have "key (xs ! i) < key (xs ! j)"
    using assms(1) by (simp add: sorted_wrt_iff_nth_less)
  then show "P (xs ! i)" using ij assms(2) by blast
qed

lemma partition_point_less:
  "strictly_sorted key xs \<Longrightarrow>
     partition_point (\<lambda>x. key x < b) xs = length (takeWhile (\<lambda>x. key x < b) xs)"
  by (rule partition_point_eq, rule partitioned_sorted) auto

lemma partition_point_le:
  "strictly_sorted key xs \<Longrightarrow>
     partition_point (\<lambda>x. key x \<le> b) xs = length (takeWhile (\<lambda>x. key x \<le> b) xs)"
  by (rule partition_point_eq, rule partitioned_sorted) auto

subsection \<open>\<open>binary_search_by_key\<close>\<close>

lemma strictly_sorted_nth_less:
  "strictly_sorted key xs \<Longrightarrow> i < j \<Longrightarrow> j < length xs \<Longrightarrow> key (xs ! i) < key (xs ! j)"
  by (simp add: sorted_wrt_iff_nth_less)

lemma strictly_sorted_nth_inj:
  "strictly_sorted key xs \<Longrightarrow> i < length xs \<Longrightarrow> j < length xs \<Longrightarrow> key (xs ! i) = key (xs ! j)
     \<Longrightarrow> i = j"
  using strictly_sorted_nth_less by (metis less_irrefl linorder_neqE_nat)

lemma monotone_cmp_key:
  assumes "strictly_sorted key xs"
  shows "monotone_cmp (\<lambda>x. cmp (key x) b) xs"
  unfolding monotone_cmp_def
proof (intro allI impI)
  fix i j
  assume a: "i < j \<and> j < length xs \<and> cmp (key (xs ! i)) b = Greater"
  then have "key (xs ! i) < key (xs ! j)" using assms by (simp add: sorted_wrt_iff_nth_less)
  moreover have "b < key (xs ! i)" using a by (auto simp: cmp_def split: if_splits)
  ultimately show "cmp (key (xs ! j)) b = Greater" by (auto simp: cmp_def)
qed

lemma binary_search_by_key_Inr:
  assumes "binary_search_by_key b key xs = Inr i" and "strictly_sorted key xs"
  shows "i < length xs \<and> key (xs ! i) = b"
  using assms bs_loop_full(1) [OF monotone_cmp_key [OF assms(2)]]
  by (auto simp: binary_search_by_key_def binary_search_by_def Let_def cmp_def split: if_splits)

lemma binary_search_by_key_found:
  assumes "strictly_sorted key xs" and "i < length xs" and "key (xs ! i) = b"
  shows "binary_search_by_key b key xs = Inr i"
proof -
  let ?f = "\<lambda>x. cmp (key x) b"
  have ne: "xs \<noteq> []" using assms(2) by auto
  define r where "r = bs_loop ?f xs 0 (length xs)"
  note r = bs_loop_full [OF monotone_cmp_key [OF assms(1), of b] ne, folded r_def]
  have fi: "?f (xs ! i) = Equal" using assms(3) by (simp add: cmp_def)
  have "i \<le> r" using r(3) [of i] assms(2) fi by (cases "i \<le> r") auto
  moreover have "\<not> i < r"
  proof
    assume "i < r"
    then have "b < key (xs ! r)"
      using strictly_sorted_nth_less [OF assms(1) _ r(1)] assms(3) by auto
    then have "?f (xs ! r) = Greater" by (auto simp: cmp_def)
    with r(2) \<open>i < r\<close> show False by simp
  qed
  ultimately have "r = i" by simp
  with fi ne show ?thesis
    by (simp add: binary_search_by_key_def binary_search_by_def Let_def r_def [symmetric])
qed

lemma binary_search_by_key_iff:
  assumes "strictly_sorted key xs"
  shows "binary_search_by_key b key xs = Inr i \<longleftrightarrow> i < length xs \<and> key (xs ! i) = b"
  using binary_search_by_key_Inr binary_search_by_key_found assms by blast

lemma binary_search_by_key_Inl:
  assumes "strictly_sorted key xs"
  shows "(\<exists>i. binary_search_by_key b key xs = Inl i) \<longleftrightarrow> b \<notin> key ` set xs"
proof -
  have "b \<in> key ` set xs \<longleftrightarrow> (\<exists>i. binary_search_by_key b key xs = Inr i)"
    by (auto simp: binary_search_by_key_iff [OF assms] image_iff Bex_def in_set_conv_nth)
  then show ?thesis by (cases "binary_search_by_key b key xs") auto
qed

subsection \<open>Splitting and inserting at the partition point\<close>

lemma takeWhile_sorted [sorted_simps]:
  "strictly_sorted key xs \<Longrightarrow> takeWhile (\<lambda>y. key y < b) xs = filter (\<lambda>y. key y < b) xs"
  "strictly_sorted key xs \<Longrightarrow> takeWhile (\<lambda>y. key y \<le> b) xs = filter (\<lambda>y. key y \<le> b) xs"
  by (induction xs) (force intro!: filter_False [symmetric])+

lemma dropWhile_sorted [sorted_simps]:
  "strictly_sorted key xs \<Longrightarrow> dropWhile (\<lambda>y. key y < b) xs = filter (\<lambda>y. b \<le> key y) xs"
  "strictly_sorted key xs \<Longrightarrow> dropWhile (\<lambda>y. key y \<le> b) xs = filter (\<lambda>y. b < key y) xs"
  by (induction xs) (auto intro!: filter_True [symmetric])

lemma drop_partition_point_le [sorted_simps]:
  "strictly_sorted key xs \<Longrightarrow>
     drop (partition_point (\<lambda>x. key x \<le> b) xs) xs = filter (\<lambda>x. b < key x) xs"
  by (simp add: partition_point_le dropWhile_eq_drop [symmetric] dropWhile_sorted)

lemma vec_insert_partition_point [sorted_simps]:
  "strictly_sorted key xs \<Longrightarrow>
     vec_insert (partition_point (\<lambda>y. key y < b) xs) x xs =
       filter (\<lambda>y. key y < b) xs @ x # filter (\<lambda>y. b \<le> key y) xs"
  unfolding vec_insert_def
  by (simp only: partition_point_less flip: takeWhile_eq_take dropWhile_eq_drop)
     (simp only: takeWhile_sorted dropWhile_sorted)

lemma set_vec_insert [simp]: "set (vec_insert i x xs) = insert x (set xs)"
  using set_append [of "take i xs" "drop i xs"] by (auto simp: vec_insert_def)

lemma length_vec_insert [simp]: "length (vec_insert i x xs) = Suc (length xs)"
  by (simp add: vec_insert_def)

lemma strictly_sorted_filter: "strictly_sorted key xs \<Longrightarrow> strictly_sorted key (filter P xs)"
  by (induction xs) auto

lemma strictly_sorted_distinct: "strictly_sorted key xs \<Longrightarrow> distinct (map key xs)"
  by (simp add: strict_sorted_iff)

lemma strictly_sorted_vec_insert:
  assumes "strictly_sorted key xs" and "key x \<notin> key ` set xs"
  shows "strictly_sorted key (vec_insert (partition_point (\<lambda>y. key y < key x) xs) x xs)"
proof -
  have "key x < key y" if "y \<in> set xs" "key x \<le> key y" for y
    using that assms(2) by (metis image_eqI order_le_imp_less_or_eq)
  then show ?thesis
    using assms strictly_sorted_filter [OF assms(1)]
    by (auto simp: vec_insert_partition_point sorted_wrt_append)
qed

lemma takeWhile_at_key:
  assumes "strictly_sorted key xs" and "i < length xs" and "key (xs ! i) = b"
  shows "length (takeWhile (\<lambda>y. key y < b) xs) = i"
proof (rule takeWhile_length_eqI)
  show "key (xs ! j) < b" if "j < i" for j
    using strictly_sorted_nth_less [OF assms(1) that assms(2)] assms(3) by simp
qed (use assms in simp_all)

lemma filter_from_key:
  assumes "strictly_sorted key xs" and "i < length xs" and "key (xs ! i) = b"
  shows "filter (\<lambda>y. b \<le> key y) xs = drop i xs"
  using dropWhile_sorted(1) [OF assms(1), of b] takeWhile_at_key [OF assms]
  by (simp only: dropWhile_eq_drop)

lemma partition_point_present:
  fixes b :: "'k::linorder"
  assumes "strictly_sorted key xs"
  defines "p \<equiv> partition_point (\<lambda>y. key y < b) xs"
  shows "p < length xs \<and> key (xs ! p) = b \<longleftrightarrow> b \<in> key ` set xs"
proof (rule iffI)
  assume "b \<in> key ` set xs"
  then obtain i where i: "i < length xs" "key (xs ! i) = b" by (auto simp: in_set_conv_nth)
  have "p = i"
    unfolding p_def partition_point_less [OF assms(1)] using i by (rule takeWhile_at_key [OF assms(1)])
  with i show "p < length xs \<and> key (xs ! p) = b" by blast
next
  assume "p < length xs \<and> key (xs ! p) = b"
  then show "b \<in> key ` set xs" using nth_mem by blast
qed

lemma length_partition_point_le: "strictly_sorted key xs \<Longrightarrow>
    partition_point (\<lambda>y. key y < b) xs \<le> length xs"
  by (simp add: partition_point_less length_takeWhile_le)

end
