(* ===== verification/Nitro_Verify.thy ===== *)
theory Nitro_Verify
  imports Nitro_Types Std_Slice
begin

text \<open>
  \<open>verify_batch_messages\<close> of \<open>src/rollups/nitro/nitro.rs\<close>: the comparison of a posted batch with the
  Espresso-finalized queue, and what a positive reply says about the batch.
\<close>

subsection \<open>The check\<close>

text \<open>
  The loop over the batch: \<open>None\<close> is an early \<open>return VerificationResult::failure()\<close>, \<open>Some d\<close> the final
  count of delayed messages. The last equation is the out-of-range index the length check rules out.
\<close>

fun check_messages :: "batch_message list \<Rightarrow> nitro_rollup_queue_entry list \<Rightarrow> u64 \<Rightarrow> u64 option" where
  "check_messages [] q expected = Some expected"
| "check_messages (L2Msg content # ms) (e # q) expected =
     (case entry_message e of
        None \<Rightarrow> None
      | Some msg_bytes \<Rightarrow>
          if content \<noteq> l2msg msg_bytes then None
          else if entry_delayed e \<noteq> expected then None
          else check_messages ms q expected)"
| "check_messages (DelayedMsg # ms) (e # q) expected =
     (let expected = expected + 1 in
      if entry_delayed e \<noteq> expected then None
      else check_messages ms q expected)"
| "check_messages (m # ms) [] expected = None"

definition min_or_0 :: "u64 list \<Rightarrow> u64" where
  "min_or_0 xs = (if xs = [] then 0 else min_list xs)"

definition verify_batch_messages ::
  "batch_message list \<Rightarrow> nitro_rollup_queue_entry list \<Rightarrow> batch_cursor \<Rightarrow> verification_result" where
  "verify_batch_messages batch_messages streamer_queue context =
     (case binary_search_by_key (next_batch_start_pos context) entry_sequence_number streamer_queue of
        Inl i \<Rightarrow> vr_failure
      | Inr pos \<Rightarrow>
          let q = drop pos streamer_queue; n = length batch_messages in
          if n > length q then vr_failure
          else case check_messages batch_messages q (last_batch_delayed_messages_read context) of
                 None \<Rightarrow> vr_failure
               | Some after_delayed \<Rightarrow>
                   if batch_messages = [] then vr_failure
                   else vr_success (next_batch_start_pos context)
                          (next_batch_start_pos context + of_nat n - 1)
                          (min_or_0 (map hotshot_height (take n q)))
                          after_delayed
                          (min_or_0 (map hotshot_height (drop n q))))"

subsection \<open>What a match is\<close>

text \<open>
  The specification: message \<open>i\<close> of the batch agrees with entry \<open>i\<close> after the cursor, where the delayed
  counter is the cursor's plus the delayed messages of the batch up to and including \<open>i\<close>.
\<close>

definition delayed_count :: "batch_message list \<Rightarrow> nat" where
  "delayed_count ms = length (filter (\<lambda>m. m = DelayedMsg) ms)"

definition slot_matches :: "batch_message \<Rightarrow> nitro_rollup_queue_entry \<Rightarrow> bool" where
  "slot_matches m e = (case m of
       DelayedMsg \<Rightarrow> True
     | L2Msg content \<Rightarrow> (case entry_message e of None \<Rightarrow> False | Some l1 \<Rightarrow> l2msg l1 = content))"

definition batch_matches :: "batch_message list \<Rightarrow> nitro_rollup_queue_entry list \<Rightarrow> u64 \<Rightarrow> bool" where
  "batch_matches ms q d \<longleftrightarrow> length ms \<le> length q \<and>
     (\<forall>i < length ms. slot_matches (ms ! i) (q ! i) \<and>
        entry_delayed (q ! i) = d + of_nat (delayed_count (take (Suc i) ms)))"

definition consecutive :: "nitro_rollup_queue_entry list \<Rightarrow> bool" where
  "consecutive q \<longleftrightarrow>
     (\<forall>i < length q. entry_sequence_number (q ! i) = entry_sequence_number (hd q) + of_nat i)"

subsection \<open>Lemmas\<close>

lemma batch_matches_Nil [simp]: "batch_matches [] q d"
  by (simp add: batch_matches_def)

lemma delayed_count_simps [simp]:
  "delayed_count [] = 0" "delayed_count (DelayedMsg # ms) = Suc (delayed_count ms)"
  "delayed_count (L2Msg c # ms) = delayed_count ms"
  by (simp_all add: delayed_count_def)

lemma batch_matches_Cons:
  "batch_matches (m # ms) (e # q) d \<longleftrightarrow>
     slot_matches m e \<and> entry_delayed e = d + of_nat (delayed_count [m]) \<and>
     batch_matches ms q (d + of_nat (delayed_count [m]))"
proof -
  have "d + of_nat (delayed_count (m # ms')) =
      d + of_nat (delayed_count [m]) + of_nat (delayed_count ms')" for ms'
    by (cases m) (simp_all add: add.assoc)
  note shift = this [of "take (Suc i) ms" for i]
  show ?thesis
    unfolding batch_matches_def length_Cons All_less_Suc2 nth_Cons_Suc nth_Cons_0 take_Suc_Cons take_0 shift
    by auto
qed

lemma check_messages_iff:
  "length ms \<le> length q \<Longrightarrow>
     check_messages ms q d = Some d' \<longleftrightarrow>
       batch_matches ms q d \<and> d' = d + of_nat (delayed_count ms)"
proof (induction ms q d rule: check_messages.induct)
  case (2 content ms e q d)
  then show ?case
    by (auto simp: batch_matches_Cons slot_matches_def split: option.split)
next
  case (3 ms e q d)
  then show ?case
    by (auto simp: batch_matches_Cons slot_matches_def Let_def add.assoc)
qed auto

text \<open>The reply in terms of the specification.\<close>

lemma verify_batch_messages_cases:
  assumes "strictly_sorted entry_sequence_number queue"
  shows "verify_batch_messages ms queue ctx =
    (if ms \<noteq> [] \<and> (\<exists>pos < length queue. entry_sequence_number (queue ! pos) = next_batch_start_pos ctx \<and>
          batch_matches ms (drop pos queue) (last_batch_delayed_messages_read ctx))
     then let q = filter (\<lambda>e. next_batch_start_pos ctx \<le> entry_sequence_number e) queue in
       vr_success (next_batch_start_pos ctx) (next_batch_start_pos ctx + of_nat (length ms) - 1)
         (min_or_0 (map hotshot_height (take (length ms) q)))
         (last_batch_delayed_messages_read ctx + of_nat (delayed_count ms))
         (min_or_0 (map hotshot_height (drop (length ms) q)))
     else vr_failure)"
proof (cases "binary_search_by_key (next_batch_start_pos ctx) entry_sequence_number queue")
  case (Inl i)
  then have "next_batch_start_pos ctx \<notin> entry_sequence_number ` set queue"
    using binary_search_by_key_Inl [OF assms] by blast
  then have "entry_sequence_number (queue ! p) \<noteq> next_batch_start_pos ctx" if "p < length queue" for p
    using nth_mem [OF that] by (metis image_eqI)
  then have no: "\<not> (\<exists>pos < length queue. entry_sequence_number (queue ! pos) = next_batch_start_pos ctx \<and>
      batch_matches ms (drop pos queue) (last_batch_delayed_messages_read ctx))" by blast
  show ?thesis
    by (subst if_not_P) (rule notI, use no in blast, simp add: verify_batch_messages_def Inl)
next
  case (Inr pos)
  let ?d = "last_batch_delayed_messages_read ctx"
  from Inr have pos: "pos < length queue" "entry_sequence_number (queue ! pos) = next_batch_start_pos ctx"
    using binary_search_by_key_iff [OF assms] by blast+
  have uniq: "p = pos" if "p < length queue" "entry_sequence_number (queue ! p) = next_batch_start_pos ctx" for p
    using strictly_sorted_nth_inj [OF assms] that pos by metis
  have q: "filter (\<lambda>e. next_batch_start_pos ctx \<le> entry_sequence_number e) queue = drop pos queue"
    using pos by (rule filter_from_key [OF assms])
  have ex: "(\<exists>p < length queue. entry_sequence_number (queue ! p) = next_batch_start_pos ctx \<and>
      batch_matches ms (drop p queue) ?d) \<longleftrightarrow> batch_matches ms (drop pos queue) ?d"
    using uniq pos by blast
  have len: "batch_matches ms (drop pos queue) ?d \<Longrightarrow> length ms \<le> length (drop pos queue)"
    by (simp add: batch_matches_def)
  have cm: "check_messages ms (drop pos queue) ?d =
      (if batch_matches ms (drop pos queue) ?d then Some (?d + of_nat (delayed_count ms)) else None)"
    if "length ms \<le> length (drop pos queue)"
    using check_messages_iff [OF that, of ?d] by (cases "check_messages ms (drop pos queue) ?d") auto
  show ?thesis
  proof (cases "length ms \<le> length (drop pos queue)")
    case True
    then show ?thesis
      unfolding verify_batch_messages_def Inr ex q Let_def using cm [OF True] by simp
  next
    case False
    then have "\<not> batch_matches ms (drop pos queue) ?d" using len by blast
    then show ?thesis
      unfolding verify_batch_messages_def Inr ex q Let_def using False by simp
  qed
qed

lemma verify_success_iff:
  assumes "strictly_sorted entry_sequence_number queue"
  shows "success (verify_batch_messages ms queue ctx) \<longleftrightarrow>
    ms \<noteq> [] \<and> (\<exists>pos < length queue. entry_sequence_number (queue ! pos) = next_batch_start_pos ctx \<and>
      batch_matches ms (drop pos queue) (last_batch_delayed_messages_read ctx))"
  unfolding verify_batch_messages_cases [OF assms] by (simp add: Let_def)

text \<open>
  A message is determined by its entry and the counter before it: a delayed message moves the counter,
  any other message carries the entry's content.
\<close>

lemma batch_matches_determined:
  "batch_matches ms q d \<Longrightarrow> batch_matches ms' q d \<Longrightarrow> length ms = length ms' \<Longrightarrow> ms = ms'"
proof (induction ms arbitrary: ms' q d)
  case (Cons m ms)
  then obtain m' ms1 where ms': "ms' = m' # ms1" by (cases ms') auto
  obtain e q1 where q: "q = e # q1" using Cons.prems(1) by (cases q) (auto simp: batch_matches_def)
  have m: "m = m'"
    using Cons.prems(1,2) unfolding q ms' batch_matches_Cons
    by (cases m; cases m') (auto simp: slot_matches_def split: option.splits)
  then show ?case using Cons.IH [of q1 _ ms1] Cons.prems unfolding q ms' batch_matches_Cons by auto
qed simp

lemma batch_matches_take: "batch_matches ms q d \<Longrightarrow> batch_matches (take n ms) q d"
  by (auto simp: batch_matches_def min_def)

lemma min_or_0_spec:
  "xs \<noteq> [] \<Longrightarrow> min_or_0 xs \<in> set xs \<and> (\<forall>x \<in> set xs. min_or_0 xs \<le> x)"
  by (simp add: min_or_0_def min_list_Min)

end
