(* ===== verification/Std_BTreeMap.thy ===== *)
theory Std_BTreeMap
  imports Prelude
begin

text \<open>
  \<open>std::collections::BTreeMap\<close> as the association list its iterator yields, with the operations the
  streamer calls. The locale \<open>ordered_map\<close> is the contract of the collection; its lemmas are what the
  streamer proofs use, through the interpretation \<open>bt\<close> at the end of the theory.
\<close>

type_synonym ('k, 'v) btree_map = "('k \<times> 'v) list"

fun bt_insert :: "'k::linorder \<Rightarrow> 'v \<Rightarrow> ('k, 'v) btree_map \<Rightarrow> ('k, 'v) btree_map" where
  "bt_insert k v [] = [(k, v)]"
| "bt_insert k v ((a, b) # m) =
     (if k < a then (k, v) # (a, b) # m
      else if k = a then (k, v) # m
      else (a, b) # bt_insert k v m)"

fun bt_remove :: "'k::linorder \<Rightarrow> ('k, 'v) btree_map \<Rightarrow> ('k, 'v) btree_map" where
  "bt_remove k [] = []"
| "bt_remove k ((a, b) # m) = (if k = a then m else (a, b) # bt_remove k m)"

fun bt_split_off :: "'k::linorder \<Rightarrow> ('k, 'v) btree_map \<Rightarrow> ('k, 'v) btree_map" where
  "bt_split_off k [] = []"
| "bt_split_off k ((a, b) # m) = (if a < k then bt_split_off k m else (a, b) # m)"

definition bt_get :: "('k, 'v) btree_map \<Rightarrow> 'k \<Rightarrow> 'v option" where
  "bt_get m = map_of m"

definition bt_contains_key :: "('k, 'v) btree_map \<Rightarrow> 'k \<Rightarrow> bool" where
  "bt_contains_key m k = (k \<in> fst ` set m)"

definition bt_iter :: "('k, 'v) btree_map \<Rightarrow> ('k \<times> 'v) list" where
  "bt_iter m = m"

definition bt_invar :: "('k::linorder, 'v) btree_map \<Rightarrow> bool" where
  "bt_invar m \<longleftrightarrow> strictly_sorted fst m"

subsection \<open>The contract\<close>

locale ordered_map =
  fixes empty :: 'm
    and get :: "'m \<Rightarrow> 'k::linorder \<Rightarrow> 'v option"
    and insert_key :: "'k \<Rightarrow> 'v \<Rightarrow> 'm \<Rightarrow> 'm"
    and remove_key :: "'k \<Rightarrow> 'm \<Rightarrow> 'm"
    and split_off :: "'k \<Rightarrow> 'm \<Rightarrow> 'm"
    and iter :: "'m \<Rightarrow> ('k \<times> 'v) list"
    and invar :: "'m \<Rightarrow> bool"
  assumes get_empty: "get empty k = None"
    and get_insert: "invar m \<Longrightarrow> get (insert_key k v m) = (get m)(k := Some v)"
    and get_remove: "invar m \<Longrightarrow> get (remove_key k m) = (get m)(k := None)"
    and get_split_off:
      "invar m \<Longrightarrow> get (split_off k m) k' = (if k \<le> k' then get m k' else None)"
    and iter_sorted: "invar m \<Longrightarrow> strictly_sorted fst (iter m)"
    and iter_get: "invar m \<Longrightarrow> map_of (iter m) = get m"
    and invar_empty: "invar empty"
    and invar_insert: "invar m \<Longrightarrow> invar (insert_key k v m)"
    and invar_remove: "invar m \<Longrightarrow> invar (remove_key k m)"
    and invar_split_off: "invar m \<Longrightarrow> invar (split_off k m)"
begin

lemmas invars = invar_empty invar_insert invar_remove invar_split_off

lemma dom_insert: "invar m \<Longrightarrow> dom (get (insert_key k v m)) = insert k (dom (get m))"
  by (simp add: get_insert)

lemma dom_remove: "invar m \<Longrightarrow> dom (get (remove_key k m)) = dom (get m) - {k}"
  by (simp add: get_remove)

lemma dom_split_off: "invar m \<Longrightarrow> dom (get (split_off k m)) = {k' \<in> dom (get m). k \<le> k'}"
  by (auto simp: get_split_off dom_def split: if_splits)

lemma distinct_iter: "invar m \<Longrightarrow> distinct (map fst (iter m))"
  using iter_sorted strict_sorted_iff by blast

lemma iter_mem: "invar m \<Longrightarrow> (k, v) \<in> set (iter m) \<longleftrightarrow> get m k = Some v"
  using iter_get [of m] map_of_eq_Some_iff [OF distinct_iter] by metis

lemma iter_keys: "invar m \<Longrightarrow> fst ` set (iter m) = dom (get m)"
  using iter_get [of m] by (metis dom_map_of_conv_image_fst)

text \<open>Taking a prefix of the iteration takes the least keys.\<close>

lemma take_oldest:
  assumes "invar m" and "k \<in> fst ` set (take n (iter m))" and "k' \<in> fst ` set (drop n (iter m))"
  shows "k < k'"
proof -
  have "sorted_wrt (<) (map fst (take n (iter m)) @ map fst (drop n (iter m)))"
    using iter_sorted [OF assms(1)] by (simp flip: map_append)
  then show ?thesis using assms(2,3) by (auto simp: sorted_wrt_append)
qed

end

subsection \<open>The association list satisfies it\<close>

lemma bt_invar_Nil [simp]: "bt_invar []"
  by (simp add: bt_invar_def)

lemma bt_invar_Cons [simp]:
  "bt_invar ((a, b) # m) \<longleftrightarrow> (\<forall>k \<in> fst ` set m. a < k) \<and> bt_invar m"
  by (auto simp: bt_invar_def)

lemma fst_bt_insert: "fst ` set (bt_insert k v m) = insert k (fst ` set m)"
  by (induction k v m rule: bt_insert.induct) auto

lemma set_bt_remove: "set (bt_remove k m) \<subseteq> set m"
  by (induction k m rule: bt_remove.induct) auto

lemma bt_invar_insert: "bt_invar m \<Longrightarrow> bt_invar (bt_insert k v m)"
proof (induction k v m rule: bt_insert.induct)
  case (2 k v a b m)
  then show ?case
    by (cases k a rule: linorder_cases) (auto simp: fst_bt_insert dest: less_trans)
qed simp

lemma bt_invar_remove: "bt_invar m \<Longrightarrow> bt_invar (bt_remove k m)"
proof (induction k m rule: bt_remove.induct)
  case (2 k a b m)
  then show ?case using set_bt_remove [of k m] by auto
qed simp

lemma bt_split_off_eq: "bt_invar m \<Longrightarrow> bt_split_off k m = filter (\<lambda>(a, b). k \<le> a) m"
proof (induction k m rule: bt_split_off.induct)
  case (2 k a b m)
  show ?case
  proof (cases "a < k")
    case False
    with "2.prems" have "\<forall>(c, d) \<in> set m. k \<le> c" by force
    then have "filter (\<lambda>(a, b). k \<le> a) m = m" by (simp add: filter_id_conv split_beta)
    then show ?thesis using False by simp
  qed (use 2 in auto)
qed simp

lemma bt_get_None: "bt_get m k = None \<longleftrightarrow> k \<notin> fst ` set m"
  by (simp add: bt_get_def map_of_eq_None_iff)

lemma bt_contains_key_iff: "bt_contains_key m k \<longleftrightarrow> bt_get m k \<noteq> None"
  by (auto simp: bt_contains_key_def bt_get_None)

lemma bt_get_insert: "bt_get (bt_insert k v m) = (bt_get m)(k := Some v)"
  by (induction k v m rule: bt_insert.induct) (auto simp: bt_get_def fun_eq_iff)

lemma bt_get_remove: "bt_invar m \<Longrightarrow> bt_get (bt_remove k m) = (bt_get m)(k := None)"
proof (induction k m rule: bt_remove.induct)
  case (2 k a b m)
  show ?case
  proof (cases "k = a")
    case True
    with "2.prems" have "k \<notin> fst ` set m" by auto
    then have "bt_get m k = None" by (simp add: bt_get_None)
    then show ?thesis using True by (auto simp: bt_get_def fun_eq_iff)
  next
    case False
    then show ?thesis using 2 by (auto simp: bt_get_def fun_eq_iff)
  qed
qed (simp add: bt_get_def fun_eq_iff)

lemma bt_get_split_off:
  "bt_invar m \<Longrightarrow> bt_get (bt_split_off k m) k' = (if k \<le> k' then bt_get m k' else None)"
  by (induction m) (auto simp: bt_split_off_eq bt_get_def)

lemma bt_invar_split_off: "bt_invar m \<Longrightarrow> bt_invar (bt_split_off k m)"
  by (induction k m rule: bt_split_off.induct) auto

interpretation bt: ordered_map "[]" bt_get bt_insert bt_remove bt_split_off bt_iter bt_invar
proof (unfold_locales, goal_cases)
  case (2 m k v)
  then show ?case by (rule_tac bt_get_insert)
qed (auto simp: bt_get_def [of "[]"] bt_get_remove bt_get_split_off bt_invar_insert
       bt_invar_remove bt_invar_split_off bt_iter_def bt_invar_def [symmetric],
     simp_all add: bt_get_def bt_invar_def)

lemma bt_length_remove:
  "bt_get m k \<noteq> None \<Longrightarrow> length (bt_remove k m) = length m - 1"
proof (induction k m rule: bt_remove.induct)
  case (2 k a b m)
  show ?case
  proof (cases "k = a")
    case False
    then have "bt_get m k \<noteq> None" using "2.prems" by (auto simp: bt_get_def)
    moreover from this have "m \<noteq> []" by (auto simp: bt_get_def)
    ultimately show ?thesis using 2(1) False by (cases m) auto
  qed simp
qed (simp add: bt_get_def)

end
