(* ===== verification/Streamer.thy ===== *)
theory Streamer
  imports Rollup Std_Slice Std_BTreeMap
begin

text \<open>
  The streamer (\<open>src/streamer/streamer.rs\<close>): the bounded queue of full entries, the stubs the overflow
  spills into, the finalization handler with stub promotion, and the in-order broadcast. The client
  (\<open>EspressoReader\<close>) and the finalization channel are arguments of the operations that use them.
\<close>

subsection \<open>State\<close>

record streamer_config =
  initial_backoff_ms :: u64
  max_backoff_ms :: u64
  retry_broadcast_delay_ms :: u64
  starting_pos :: u64
  starting_hotshot_height :: u64
  max_full_queue_entries :: nat
  hotshot_stall_warn_ms :: u64
  progress_log_interval_ms :: u64

definition streamer_config_default :: streamer_config where
  "streamer_config_default =
     \<lparr>initial_backoff_ms = 1000, max_backoff_ms = 30000, retry_broadcast_delay_ms = 300, starting_pos = 0,
      starting_hotshot_height = 0, max_full_queue_entries = 1000, hotshot_stall_warn_ms = 30000,
      progress_log_interval_ms = 15000\<rparr>"

record 'cfg rollup_config =
  namespace_id :: u64
  stack :: 'cfg

record ('e, 'cfg) streamer =
  queue :: "'e list"
  stubs :: "(u64, u64) btree_map"
  config :: streamer_config
  rollup_config :: "'cfg rollup_config"
  finalized_idx :: u64
  last_broadcast_position :: u64

definition HOTSHOT_RANGE_LIMIT :: u64 where
  "HOTSHOT_RANGE_LIMIT = 100"

definition streamer_new :: "streamer_config \<Rightarrow> 'cfg rollup_config \<Rightarrow> ('e, 'cfg) streamer" where
  "streamer_new cfg rcfg =
     \<lparr>queue = [], stubs = [], config = cfg, rollup_config = rcfg,
      finalized_idx = 0, last_broadcast_position = 0\<rparr>"

subsection \<open>Admission of parsed entries\<close>

definition filter_message ::
  "('cfg, 'tx, 'e, 'bm, 'f, 'c) rollup \<Rightarrow> 'e \<Rightarrow> ('e, 'cfg) streamer \<Rightarrow> ('e, 'cfg) streamer" where
  "filter_message R e s =
     (let sq = r_sequence_number R e in
      if sq < starting_pos (config s) then s
      else
        let pos = partition_point (\<lambda>x. r_sequence_number R x < sq) (queue s);
            present = (pos < length (queue s) \<and> r_sequence_number R (queue s ! pos) = sq)
        in if present \<or> bt_contains_key (stubs s) sq then s
           else
             let q = vec_insert pos e (queue s) in
             if length q > max_full_queue_entries (config s)
             then let evicted = last q in
                  s\<lparr>queue := butlast q,
                    stubs := bt_insert (r_sequence_number R evicted) (r_hotshot_height R evicted) (stubs s)\<rparr>
             else s\<lparr>queue := q\<rparr>)"

definition filter_messages ::
  "('cfg, 'tx, 'e, 'bm, 'f, 'c) rollup \<Rightarrow> 'e list \<Rightarrow> ('e, 'cfg) streamer \<Rightarrow> ('e, 'cfg) streamer" where
  "filter_messages R es s = fold (filter_message R) es s"

subsection \<open>Promotion of stubs\<close>

definition btree_set :: "'a::linorder list \<Rightarrow> 'a list" where
  "btree_set xs = sort (remdups xs)"

text \<open>
  One window of the fetch loop: from \<open>start\<close>, the following heights within \<open>HOTSHOT_RANGE_LIMIT\<close>;
  the window ends one past the last of them.
\<close>

definition in_window :: "u64 \<Rightarrow> u64 \<Rightarrow> bool" where
  "in_window start h \<longleftrightarrow> h - start < HOTSHOT_RANGE_LIMIT"

definition fetch_insert ::
  "('cfg, 'tx, 'e, 'bm, 'f, 'c) rollup \<Rightarrow> u64 list \<Rightarrow> 'e \<Rightarrow> (u64, 'e) btree_map \<Rightarrow> (u64, 'e) btree_map" where
  "fetch_insert R expected e m =
     (let sq = r_sequence_number R e in if sq \<in> set expected then bt_insert sq e m else m)"

function fetch_windows ::
  "('cfg, 'tx, 'e, 'bm, 'f, 'c) rollup \<Rightarrow> 'tx espresso_reader \<Rightarrow> 'cfg rollup_config \<Rightarrow> u64 list
     \<Rightarrow> u64 list \<Rightarrow> (u64, 'e) btree_map \<Rightarrow> (u64, 'e) btree_map option" where
  "fetch_windows R client rcfg expected [] fetched = Some fetched"
| "fetch_windows R client rcfg expected (start # hs) fetched =
     (let window = start # takeWhile (in_window start) hs;
          stop = last window + 1
      in case namespace_transactions_in_range client (namespace_id rcfg) start stop of
           Inl err \<Rightarrow> None
         | Inr txns \<Rightarrow>
             let entries = r_parse_hotshot_transactions R (stack rcfg) txns start
             in fetch_windows R client rcfg expected (dropWhile (in_window start) hs)
                  (fold (fetch_insert R expected) entries fetched))"
  by pat_completeness auto
termination
  by (relation "measure (\<lambda>(R, client, rcfg, expected, hs, fetched). length hs)")
     (auto simp: le_imp_less_Suc length_dropWhile_le)

fun insert_promoted ::
  "('cfg, 'tx, 'e, 'bm, 'f, 'c) rollup \<Rightarrow> (u64 \<times> u64) list \<Rightarrow> (u64, 'e) btree_map
     \<Rightarrow> ('e, 'cfg) streamer \<Rightarrow> ('e, 'cfg) streamer" where
  "insert_promoted R [] fetched s = s"
| "insert_promoted R ((sq, expected_height) # todo) fetched s =
     (case bt_get fetched sq of
        Some entry \<Rightarrow>
          if r_hotshot_height R entry \<noteq> expected_height then s
          else
            let pos = partition_point (\<lambda>x. r_sequence_number R x < sq) (queue s)
            in insert_promoted R todo (bt_remove sq fetched)
                 (s\<lparr>queue := vec_insert pos entry (queue s), stubs := bt_remove sq (stubs s)\<rparr>)
      | None \<Rightarrow> insert_promoted R todo fetched s)"

definition promote_stubs ::
  "('cfg, 'tx, 'e, 'bm, 'f, 'c) rollup \<Rightarrow> 'tx espresso_reader \<Rightarrow> ('e, 'cfg) streamer
     \<Rightarrow> ('e, 'cfg) streamer" where
  "promote_stubs R client s =
     (let room = max_full_queue_entries (config s) - length (queue s) in
      if room = 0 \<or> stubs s = [] then s
      else
        let to_promote = min room (length (stubs s));
            stubs_to_promote = take to_promote (bt_iter (stubs s));
            heights = btree_set (map snd stubs_to_promote);
            expected = btree_set (map fst stubs_to_promote)
        in case fetch_windows R client (rollup_config s) expected heights [] of
             None \<Rightarrow> s
           | Some fetched \<Rightarrow> insert_promoted R stubs_to_promote fetched s)"

subsection \<open>Finalization\<close>

definition handle_finalization ::
  "('cfg, 'tx, 'e, 'bm, 'f, 'c) rollup \<Rightarrow> 'tx espresso_reader \<Rightarrow> u64 \<Rightarrow> ('e, 'cfg) streamer
     \<Rightarrow> ('e, 'cfg) streamer" where
  "handle_finalization R client new_idx s0 =
     (let s = (if new_idx > last_broadcast_position s0
               then s0\<lparr>last_broadcast_position := new_idx\<rparr> else s0)
      in if new_idx \<le> finalized_idx s then s
         else
           let split_at = partition_point (\<lambda>x. r_sequence_number R x \<le> new_idx) (queue s);
               kept = (case checked_add new_idx 1 of
                         Some split_key \<Rightarrow> bt_split_off split_key (stubs s)
                       | None \<Rightarrow> [])
           in promote_stubs R client
                (s\<lparr>finalized_idx := new_idx, queue := drop split_at (queue s), stubs := kept\<rparr>))"

subsection \<open>Broadcast\<close>

fun take_contiguous :: "('e \<Rightarrow> u64) \<Rightarrow> u64 \<Rightarrow> u64 \<Rightarrow> 'e list \<Rightarrow> 'e list" where
  "take_contiguous sn last_pos idx [] = []"
| "take_contiguous sn last_pos idx (e # es) =
     (if sn e = last_pos + idx + 1 then e # take_contiguous sn last_pos (idx + 1) es else [])"

definition find_contiguous_entries_after :: "('e \<Rightarrow> u64) \<Rightarrow> 'e list \<Rightarrow> u64 \<Rightarrow> 'e list" where
  "find_contiguous_entries_after sn q last_pos =
     take_contiguous sn last_pos 0 (drop (partition_point (\<lambda>e. sn e \<le> last_pos) q) q)"

datatype try_send_error = Full | Closed

text \<open>\<open>sleepers\<close> are the delays of the spawned tasks that will send the retry signal.\<close>

record broadcast_retry =
  scheduled :: bool
  sleepers :: "u64 list"

definition retry_new :: broadcast_retry where
  "retry_new = \<lparr>scheduled = False, sleepers = []\<rparr>"

definition schedule :: "u64 \<Rightarrow> broadcast_retry \<Rightarrow> broadcast_retry" where
  "schedule delay r =
     (if scheduled r then r else r\<lparr>scheduled := True, sleepers := sleepers r @ [delay]\<rparr>)"

text \<open>
  \<open>try_send ch m\<close> is the bounded channel's non-blocking send; the loop returns the state, the retry
  record, the channel and the messages it accepted.
\<close>

fun broadcast_entries ::
  "('cfg, 'tx, 'e, 'bm, 'f, 'c) rollup \<Rightarrow> ('ch \<Rightarrow> 'f \<Rightarrow> try_send_error + 'ch) \<Rightarrow> 'e list
     \<Rightarrow> ('e, 'cfg) streamer \<Rightarrow> broadcast_retry \<Rightarrow> 'ch
     \<Rightarrow> ('e, 'cfg) streamer \<times> broadcast_retry \<times> 'ch \<times> 'e list" where
  "broadcast_entries R try_send [] s retry ch = (s, retry, ch, [])"
| "broadcast_entries R try_send (e # es) s retry ch =
     (case try_send ch (r_convert_entry_to_feed_message R e) of
        Inr ch' \<Rightarrow>
          let (s', retry', ch'', sent) =
                broadcast_entries R try_send es
                  (s\<lparr>last_broadcast_position := r_sequence_number R e\<rparr>) retry ch'
          in (s', retry', ch'', e # sent)
      | Inl Full \<Rightarrow> (s, schedule (retry_broadcast_delay_ms (config s)) retry, ch, [])
      | Inl Closed \<Rightarrow> (s, retry, ch, []))"

definition try_broadcast_feed_message ::
  "('cfg, 'tx, 'e, 'bm, 'f, 'c) rollup \<Rightarrow> ('ch \<Rightarrow> 'f \<Rightarrow> try_send_error + 'ch)
     \<Rightarrow> ('e, 'cfg) streamer \<Rightarrow> broadcast_retry \<Rightarrow> 'ch
     \<Rightarrow> ('e, 'cfg) streamer \<times> broadcast_retry \<times> 'ch \<times> 'e list" where
  "try_broadcast_feed_message R try_send s retry ch =
     broadcast_entries R try_send
       (find_contiguous_entries_after (r_sequence_number R) (queue s) (last_broadcast_position s))
       s retry ch"

definition handle_hotshot_transactions ::
  "('cfg, 'tx, 'e, 'bm, 'f, 'c) rollup \<Rightarrow> ('ch \<Rightarrow> 'f \<Rightarrow> try_send_error + 'ch)
     \<Rightarrow> 'tx list list \<Rightarrow> u64 \<Rightarrow> ('e, 'cfg) streamer \<Rightarrow> broadcast_retry \<Rightarrow> 'ch
     \<Rightarrow> ('e, 'cfg) streamer \<times> broadcast_retry \<times> 'ch \<times> 'e list" where
  "handle_hotshot_transactions R try_send transactions height s retry ch =
     (let parsed = r_parse_hotshot_transactions R (stack (rollup_config s)) transactions height
      in try_broadcast_feed_message R try_send (filter_messages R parsed s) retry ch)"

subsection \<open>Verification requests\<close>

text \<open>
  The verification branch of the event loop: the request's bytes are parsed, the cursor is fetched
  (a failed fetch, or no fetcher, falls back to the default cursor) and the batch is compared with the
  queue. The streamer's state does not change.
\<close>

definition batch_context :: "('cfg, 'tx, 'e, 'bm, 'f, 'c) rollup \<Rightarrow> (r_error + 'c) option \<Rightarrow> 'c" where
  "batch_context R fetched_cursor =
     (case fetched_cursor of
        Some (Inr cursor) \<Rightarrow> cursor
      | Some (Inl e) \<Rightarrow> r_batch_cursor_default R
      | None \<Rightarrow> r_batch_cursor_default R)"

definition handle_verification ::
  "('cfg, 'tx, 'e, 'bm, 'f, 'c) rollup \<Rightarrow> (r_error + 'c) option \<Rightarrow> bytes \<Rightarrow> ('e, 'cfg) streamer
     \<Rightarrow> verification_result" where
  "handle_verification R fetched_cursor batch_data s =
     (case r_parse_batch_data R batch_data of
        Inl err \<Rightarrow> vr_failure
      | Inr entries \<Rightarrow> r_verify_batch_messages R entries (queue s) (batch_context R fetched_cursor))"

subsection \<open>Abstraction and invariants\<close>

text \<open>
  What a client of the streamer may rely on is the map from the sequence numbers it holds, as full
  entries or as stubs, to the heights they were first seen at. The split into queue and stubs is an
  implementation matter.
\<close>

definition queue_map :: "('cfg, 'tx, 'e, 'bm, 'f, 'c) rollup \<Rightarrow> 'e list \<Rightarrow> u64 \<rightharpoonup> u64" where
  "queue_map R q = map_of (map (\<lambda>e. (r_sequence_number R e, r_hotshot_height R e)) q)"

definition seen :: "('cfg, 'tx, 'e, 'bm, 'f, 'c) rollup \<Rightarrow> ('e, 'cfg) streamer \<Rightarrow> u64 \<rightharpoonup> u64" where
  "seen R s = bt_get (stubs s) ++ queue_map R (queue s)"

definition streamer_inv :: "('cfg, 'tx, 'e, 'bm, 'f, 'c) rollup \<Rightarrow> ('e, 'cfg) streamer \<Rightarrow> bool" where
  "streamer_inv R s \<longleftrightarrow>
     strictly_sorted (r_sequence_number R) (queue s) \<and> bt_invar (stubs s) \<and>
     (\<forall>e \<in> set (queue s). bt_get (stubs s) (r_sequence_number R e) = None) \<and>
     length (queue s) \<le> max_full_queue_entries (config s) \<and>
     (\<forall>k \<in> dom (seen R s). starting_pos (config s) \<le> k)"

text \<open>No stub is older than a full entry, and there are stubs only when the queue is full.\<close>

definition oldest_full :: "('cfg, 'tx, 'e, 'bm, 'f, 'c) rollup \<Rightarrow> ('e, 'cfg) streamer \<Rightarrow> bool" where
  "oldest_full R s \<longleftrightarrow>
     (stubs s \<noteq> [] \<longrightarrow>
        length (queue s) = max_full_queue_entries (config s) \<and>
        (\<forall>e \<in> set (queue s). \<forall>k \<in> fst ` set (stubs s). r_sequence_number R e < k))"

text \<open>The abstract operations: the first height of a sequence number wins; finalization forgets.\<close>

definition admit :: "('cfg, 'tx, 'e, 'bm, 'f, 'c) rollup \<Rightarrow> u64 \<Rightarrow> 'e \<Rightarrow> (u64 \<rightharpoonup> u64) \<Rightarrow> u64 \<rightharpoonup> u64" where
  "admit R start e m =
     (if r_sequence_number R e < start \<or> m (r_sequence_number R e) \<noteq> None then m
      else m(r_sequence_number R e \<mapsto> r_hotshot_height R e))"

definition forget_upto :: "u64 \<Rightarrow> (u64 \<rightharpoonup> u64) \<Rightarrow> u64 \<rightharpoonup> u64" where
  "forget_upto idx m = m |` {k. idx < k}"

definition insert_entry :: "('cfg, 'tx, 'e, 'bm, 'f, 'c) rollup \<Rightarrow> 'e \<Rightarrow> 'e list \<Rightarrow> 'e list" where
  "insert_entry R e q =
     vec_insert (partition_point (\<lambda>x. r_sequence_number R x < r_sequence_number R e) q) e q"

text \<open>A fetched map is keyed by the sequence numbers of its entries.\<close>

definition keyed :: "('cfg, 'tx, 'e, 'bm, 'f, 'c) rollup \<Rightarrow> (u64, 'e) btree_map \<Rightarrow> bool" where
  "keyed R fetched \<longleftrightarrow> bt_invar fetched \<and> (\<forall>k e. bt_get fetched k = Some e \<longrightarrow> r_sequence_number R e = k)"

text \<open>The state between pruning and promotion.\<close>

definition pruned :: "('cfg, 'tx, 'e, 'bm, 'f, 'c) rollup \<Rightarrow> u64 \<Rightarrow> ('e, 'cfg) streamer \<Rightarrow> ('e, 'cfg) streamer" where
  "pruned R idx s =
     s\<lparr>last_broadcast_position := max idx (last_broadcast_position s), finalized_idx := idx,
       queue := filter (\<lambda>e. idx < r_sequence_number R e) (queue s),
       stubs := filter (\<lambda>(k, h). idx < k) (stubs s)\<rparr>"

text \<open>
  A reader that serves one chain of blocks: the answer to a range request has the range's blocks in
  order. \<open>chain_entries\<close> are the entries the chain holds; \<open>unique_heights\<close> says that no sequence
  number occurs at two heights.
\<close>

definition chain_reader :: "(u64 \<Rightarrow> 'tx list) \<Rightarrow> u64 \<Rightarrow> 'tx espresso_reader \<Rightarrow> bool" where
  "chain_reader chain ns client \<longleftrightarrow>
     (\<forall>start stop. start < stop \<and> stop - start \<le> HOTSHOT_RANGE_LIMIT \<longrightarrow>
        namespace_transactions_in_range client ns start stop =
          Inr (map (\<lambda>i. chain (start + of_nat i)) [0..<unat (stop - start)]))"

definition chain_entries ::
  "('cfg, 'tx, 'e, 'bm, 'f, 'c) rollup \<Rightarrow> 'cfg \<Rightarrow> (u64 \<Rightarrow> 'tx list) \<Rightarrow> 'e set" where
  "chain_entries R cfg chain =
     {e. e \<in> set (r_parse_hotshot_transactions R cfg [chain (r_hotshot_height R e)] (r_hotshot_height R e))}"

definition unique_heights ::
  "('cfg, 'tx, 'e, 'bm, 'f, 'c) rollup \<Rightarrow> 'cfg \<Rightarrow> (u64 \<Rightarrow> 'tx list) \<Rightarrow> bool" where
  "unique_heights R cfg chain \<longleftrightarrow>
     (\<forall>e \<in> chain_entries R cfg chain. \<forall>e' \<in> chain_entries R cfg chain.
        r_sequence_number R e = r_sequence_number R e' \<longrightarrow> r_hotshot_height R e = r_hotshot_height R e')"

text \<open>Every stub records the height of a block that holds its sequence number.\<close>

definition stubs_on_chain ::
  "('cfg, 'tx, 'e, 'bm, 'f, 'c) rollup \<Rightarrow> (u64 \<Rightarrow> 'tx list) \<Rightarrow> ('e, 'cfg) streamer \<Rightarrow> bool" where
  "stubs_on_chain R chain s \<longleftrightarrow>
     (\<forall>k h. bt_get (stubs s) k = Some h \<longrightarrow> h \<noteq> u64_max \<and>
        (\<exists>e \<in> chain_entries R (stack (rollup_config s)) chain.
           r_sequence_number R e = k \<and> r_hotshot_height R e = h))"

subsection \<open>The queue as a map\<close>

lemma queue_map_cong:
  assumes "strictly_sorted (r_sequence_number R) q" and "strictly_sorted (r_sequence_number R) q'"
    and "set q = set q'"
  shows "queue_map R q = queue_map R q'"
  unfolding queue_map_def
  using assms strictly_sorted_distinct [OF assms(1)] strictly_sorted_distinct [OF assms(2)]
  by (subst map_of_inject_set) (auto simp: comp_def)

lemma dom_queue_map: "dom (queue_map R q) = r_sequence_number R ` set q"
  by (simp add: queue_map_def dom_map_of_conv_image_fst image_image)

lemma dom_seen: "dom (seen R s) = dom (bt_get (stubs s)) \<union> r_sequence_number R ` set (queue s)"
  by (auto simp: seen_def dom_queue_map)

lemma queue_map_perm:
  assumes "strictly_sorted (r_sequence_number R) q" and "set q = insert e (set q')"
    and "strictly_sorted (r_sequence_number R) q'" and "r_sequence_number R e \<notin> r_sequence_number R ` set q'"
  shows "queue_map R q = (queue_map R q')(r_sequence_number R e \<mapsto> r_hotshot_height R e)"
proof -
  have "queue_map R q = map_of (map (\<lambda>e. (r_sequence_number R e, r_hotshot_height R e)) (e # q'))"
    unfolding queue_map_def
    using assms strictly_sorted_distinct [OF assms(1)] strictly_sorted_distinct [OF assms(3)]
    by (subst map_of_inject_set) (auto simp: comp_def)
  then show ?thesis by (simp add: queue_map_def)
qed

lemma queue_map_filter:
  assumes "strictly_sorted (r_sequence_number R) q"
  shows "queue_map R (filter (\<lambda>e. P (r_sequence_number R e)) q) = queue_map R q |` {k. P k}"
  unfolding queue_map_def
  by (induction q) (auto simp: restrict_map_def fun_eq_iff)

subsection \<open>Admission\<close>

text \<open>The guard of \<open>filter_messages\<close> in abstract terms.\<close>

lemma filter_message_guard:
  fixes sq :: u64
  assumes "streamer_inv R s"
  defines "pos \<equiv> partition_point (\<lambda>x. r_sequence_number R x < sq) (queue s)"
  shows "(pos < length (queue s) \<and> r_sequence_number R (queue s ! pos) = sq) \<or>
         bt_contains_key (stubs s) sq \<longleftrightarrow> seen R s sq \<noteq> None"
proof -
  have "strictly_sorted (r_sequence_number R) (queue s)" using assms by (simp add: streamer_inv_def)
  from partition_point_present [OF this, of sq] have
    "(pos < length (queue s) \<and> r_sequence_number R (queue s ! pos) = sq) \<longleftrightarrow>
       sq \<in> r_sequence_number R ` set (queue s)"
    by (simp add: pos_def)
  moreover have "seen R s sq \<noteq> None \<longleftrightarrow> sq \<in> dom (seen R s)" by auto
  ultimately show ?thesis by (auto simp: dom_seen bt_contains_key_iff)
qed

lemma insert_entry_props:
  assumes "strictly_sorted (r_sequence_number R) q" and "r_sequence_number R e \<notin> r_sequence_number R ` set q"
  shows "strictly_sorted (r_sequence_number R) (insert_entry R e q)"
    and "set (insert_entry R e q) = insert e (set q)"
    and "length (insert_entry R e q) = Suc (length q)"
    and "queue_map R (insert_entry R e q) =
           (queue_map R q)(r_sequence_number R e \<mapsto> r_hotshot_height R e)"
proof -
  show s: "strictly_sorted (r_sequence_number R) (insert_entry R e q)"
    unfolding insert_entry_def by (rule strictly_sorted_vec_insert) fact+
  show "queue_map R (insert_entry R e q) =
           (queue_map R q)(r_sequence_number R e \<mapsto> r_hotshot_height R e)"
    using s by (rule queue_map_perm) (use assms in \<open>simp_all add: insert_entry_def\<close>)
qed (simp_all add: insert_entry_def)

text \<open>The three outcomes of admitting an entry.\<close>

lemma filter_message_cases:
  assumes "streamer_inv R s"
  shows "filter_message R e s =
    (if r_sequence_number R e < starting_pos (config s) \<or> seen R s (r_sequence_number R e) \<noteq> None then s
     else if Suc (length (queue s)) \<le> max_full_queue_entries (config s)
     then s\<lparr>queue := insert_entry R e (queue s)\<rparr>
     else let q = insert_entry R e (queue s) in
       s\<lparr>queue := butlast q,
         stubs := bt_insert (r_sequence_number R (last q)) (r_hotshot_height R (last q)) (stubs s)\<rparr>)"
  using filter_message_guard [OF assms, of "r_sequence_number R e"]
  by (auto simp: filter_message_def Let_def insert_entry_def not_le less_Suc_eq_le)

lemma streamer_invD:
  assumes "streamer_inv R s"
  shows "strictly_sorted (r_sequence_number R) (queue s)" and "bt_invar (stubs s)"
    and "\<And>e. e \<in> set (queue s) \<Longrightarrow> bt_get (stubs s) (r_sequence_number R e) = None"
    and "length (queue s) \<le> max_full_queue_entries (config s)"
    and "\<And>k. k \<in> dom (seen R s) \<Longrightarrow> starting_pos (config s) \<le> k"
  using assms by (auto simp: streamer_inv_def)

text \<open>Splitting the tail off a sorted queue moves one key from the queue to the stubs.\<close>

lemma strictly_sorted_snoc:
  assumes "strictly_sorted key q" and "q \<noteq> []"
  shows "strictly_sorted key (butlast q)" and "set q = insert (last q) (set (butlast q))"
    and "\<And>e. e \<in> set (butlast q) \<Longrightarrow> key e < key (last q)"
proof -
  obtain q' x where q: "q = q' @ [x]" using assms(2) rev_exhaust by blast
  then show "strictly_sorted key (butlast q)" and "set q = insert (last q) (set (butlast q))"
    and "\<And>e. e \<in> set (butlast q) \<Longrightarrow> key e < key (last q)"
    using assms(1) by (auto simp: sorted_wrt_append)
qed

lemma evict_seen:
  assumes "strictly_sorted (r_sequence_number R) q" and "q \<noteq> []"
  shows "bt_get (bt_insert (r_sequence_number R (last q)) (r_hotshot_height R (last q)) m) ++
           queue_map R (butlast q) = bt_get m ++ queue_map R q"
proof -
  note snoc = strictly_sorted_snoc [OF assms]
  have fresh: "r_sequence_number R (last q) \<notin> r_sequence_number R ` set (butlast q)"
    using snoc(3) by fastforce
  have "queue_map R q =
      (queue_map R (butlast q))(r_sequence_number R (last q) \<mapsto> r_hotshot_height R (last q))"
    by (rule queue_map_perm) (use assms snoc fresh in auto)
  moreover have "r_sequence_number R (last q) \<notin> dom (queue_map R (butlast q))"
    using fresh by (simp add: dom_queue_map)
  from map_add_upd_left [OF this]
  have "(bt_get m)(r_sequence_number R (last q) \<mapsto> r_hotshot_height R (last q)) ++ queue_map R (butlast q) =
      (bt_get m ++ queue_map R (butlast q))(r_sequence_number R (last q) \<mapsto> r_hotshot_height R (last q))" .
  ultimately show ?thesis by (simp only: bt_get_insert map_add_upd)
qed

lemma seen_filter_message:
  assumes "streamer_inv R s"
  shows "seen R (filter_message R e s) = admit R (starting_pos (config s)) e (seen R s)"
proof -
  note inv = streamer_invD [OF assms]
  show ?thesis
  proof (cases "r_sequence_number R e < starting_pos (config s) \<or> seen R s (r_sequence_number R e) \<noteq> None")
    case True
    then show ?thesis by (simp add: filter_message_cases [OF assms] admit_def)
  next
    case False
    then have fresh: "r_sequence_number R e \<notin> r_sequence_number R ` set (queue s)"
      using dom_seen [of R s] by auto
    note ie = insert_entry_props [OF inv(1) fresh]
    have ne: "insert_entry R e (queue s) \<noteq> []" using ie(3) by auto
    show ?thesis
      using False evict_seen [OF ie(1) ne, of "stubs s"] ie(4)
      by (simp add: filter_message_cases [OF assms] admit_def seen_def Let_def)
  qed
qed

lemma config_filter_message [simp]: "config (filter_message R e s) = config s"
  by (simp add: filter_message_def Let_def)

lemma filter_message_frame [simp]:
  "rollup_config (filter_message R e s) = rollup_config s"
  "finalized_idx (filter_message R e s) = finalized_idx s"
  "last_broadcast_position (filter_message R e s) = last_broadcast_position s"
  by (simp_all add: filter_message_def Let_def)

lemma streamer_inv_filter_message:
  assumes "streamer_inv R s"
  shows "streamer_inv R (filter_message R e s)"
proof (cases "r_sequence_number R e < starting_pos (config s) \<or> seen R s (r_sequence_number R e) \<noteq> None")
  case True
  then show ?thesis using assms by (simp add: filter_message_cases [OF assms])
next
  case False
  note inv = streamer_invD [OF assms]
  let ?q = "insert_entry R e (queue s)" and ?s' = "filter_message R e s"
  from False have fresh: "r_sequence_number R e \<notin> r_sequence_number R ` set (queue s)"
      "bt_get (stubs s) (r_sequence_number R e) = None"
    using dom_seen [of R s] by auto
  note ie = insert_entry_props [OF inv(1) fresh(1)]
  have ne: "?q \<noteq> []" using ie(3) by auto
  note snoc = strictly_sorted_snoc [OF ie(1) ne]
  have free: "bt_get (stubs s) (r_sequence_number R x) = None" if "x \<in> set ?q" for x
    using that inv(3) fresh(2) ie(2) by auto
  have dom: "\<forall>k \<in> dom (seen R ?s'). starting_pos (config s) \<le> k"
    using inv(5) False by (auto simp: seen_filter_message [OF assms] admit_def)
  show ?thesis
  proof (cases "Suc (length (queue s)) \<le> max_full_queue_entries (config s)")
    case True
    then show ?thesis
      using False ie free inv dom by (simp add: streamer_inv_def filter_message_cases [OF assms])
  next
    case over: False
    have "bt_get (bt_insert (r_sequence_number R (last ?q)) h (stubs s)) (r_sequence_number R x) = None"
      if "x \<in> set (butlast ?q)" for x h
      using snoc(3) [OF that] free [of x] in_set_butlastD [OF that] by (simp add: bt_get_insert)
    then show ?thesis
      using False over snoc(1) ie(3) inv dom bt_invar_insert [OF inv(2)]
      by (simp add: streamer_inv_def filter_message_cases [OF assms] Let_def)
  qed
qed

lemma oldest_full_filter_message:
  assumes "streamer_inv R s" and "oldest_full R s"
  shows "oldest_full R (filter_message R e s)"
proof (cases "r_sequence_number R e < starting_pos (config s) \<or> seen R s (r_sequence_number R e) \<noteq> None")
  case True
  then show ?thesis using assms(2) by (simp add: filter_message_cases [OF assms(1)])
next
  case False
  note inv = streamer_invD [OF assms(1)]
  let ?q = "insert_entry R e (queue s)"
  from False have fresh: "r_sequence_number R e \<notin> r_sequence_number R ` set (queue s)"
    using dom_seen [of R s] by auto
  note ie = insert_entry_props [OF inv(1) fresh]
  have ne: "?q \<noteq> []" using ie(3) by auto
  note snoc = strictly_sorted_snoc [OF ie(1) ne]
  show ?thesis
  proof (cases "Suc (length (queue s)) \<le> max_full_queue_entries (config s)")
    case True
    then have "stubs s = []" using assms(2) by (auto simp: oldest_full_def)
    with True False show ?thesis by (simp add: oldest_full_def filter_message_cases [OF assms(1)])
  next
    case over: False
    have below: "r_sequence_number R x < k" if x: "x \<in> set (butlast ?q)" and k: "k \<in> fst ` set (stubs s)" for x k
    proof -
      have old: "r_sequence_number R y < k" if "y \<in> set (queue s)" for y
        using assms(2) k that by (auto simp: oldest_full_def)
      have "last ?q \<in> insert e (set (queue s))" using ie(2) last_in_set [OF ne] by simp
      then show ?thesis
        using x snoc(3) [OF x] old in_set_butlastD [OF x] ie(2) by (auto dest: less_trans)
    qed
    show ?thesis
      using False over inv(4) ie(3) below snoc(3)
      by (auto simp: oldest_full_def filter_message_cases [OF assms(1)] Let_def fst_bt_insert)
  qed
qed

subsection \<open>Promotion\<close>

lemma insert_promoted_frame [simp]:
  "config (insert_promoted R todo fetched s) = config s"
  "rollup_config (insert_promoted R todo fetched s) = rollup_config s"
  "finalized_idx (insert_promoted R todo fetched s) = finalized_idx s"
  "last_broadcast_position (insert_promoted R todo fetched s) = last_broadcast_position s"
  by (induction R todo fetched s rule: insert_promoted.induct)
     (auto simp: Let_def split: option.split)

lemma keyed_insert: "keyed R m \<Longrightarrow> keyed R (bt_insert (r_sequence_number R e) e m)"
  by (simp add: keyed_def bt_invar_insert bt_get_insert)

lemma keyed_remove: "keyed R m \<Longrightarrow> keyed R (bt_remove k m)"
  by (simp add: keyed_def bt_invar_remove bt_get_remove)

lemma keyed_fold:
  "keyed R m \<Longrightarrow> keyed R (fold (fetch_insert R expected) es m)"
  by (induction es arbitrary: m) (auto simp: keyed_insert fetch_insert_def Let_def)

lemma keyed_fetch_windows:
  "fetch_windows R client rcfg expected hs m = Some m' \<Longrightarrow> keyed R m \<Longrightarrow> keyed R m'"
  by (induction R client rcfg expected hs m arbitrary: m' rule: fetch_windows.induct)
     (auto simp: Let_def keyed_fold split: sum.splits)

text \<open>
  One promotion keeps the abstraction: the entry has the key and, by the height check, the height of
  the stub it replaces.
\<close>

lemma promote_one:
  assumes "streamer_inv R s" and "bt_get (stubs s) (r_sequence_number R e) = Some (r_hotshot_height R e)"
    and "Suc (length (queue s)) \<le> max_full_queue_entries (config s)"
  defines "s' \<equiv> s\<lparr>queue := insert_entry R e (queue s), stubs := bt_remove (r_sequence_number R e) (stubs s)\<rparr>"
  shows "seen R s' = seen R s" and "streamer_inv R s'"
proof -
  note inv = streamer_invD [OF assms(1)]
  have fresh: "r_sequence_number R e \<notin> r_sequence_number R ` set (queue s)"
    using inv(3) assms(2) by force
  note ie = insert_entry_props [OF inv(1) fresh]
  have q: "queue_map R (queue s) (r_sequence_number R e) = None"
    using fresh dom_queue_map [of R "queue s"] by auto
  show seen': "seen R s' = seen R s"
    using assms(2) q
    by (auto simp: seen_def s'_def ie(4) bt_get_remove [OF inv(2)] map_add_def fun_eq_iff
        split: option.split)
  show "streamer_inv R s'"
    using inv ie assms(3) seen'
    by (auto simp: streamer_inv_def s'_def bt_get_remove bt_invar_remove)
qed

lemma insert_promoted_inv:
  assumes "streamer_inv R s" and "keyed R fetched" and "distinct (map fst todo)"
    and "\<forall>(k, h) \<in> set todo. bt_get (stubs s) k = Some h"
    and "length (queue s) + length todo \<le> max_full_queue_entries (config s)"
  shows "seen R (insert_promoted R todo fetched s) = seen R s \<and>
         streamer_inv R (insert_promoted R todo fetched s)"
  using assms
proof (induction R todo fetched s rule: insert_promoted.induct)
  case (2 R sq h todo fetched s)
  note prems = "2.prems"
  show ?case
  proof (cases "bt_get fetched sq")
    case None
    then show ?thesis using "2.IH"(1) [OF None] prems by simp
  next
    case (Some e)
    have sn: "r_sequence_number R e = sq" using prems(2) Some by (simp add: keyed_def)
    show ?thesis
    proof (cases "r_hotshot_height R e = h")
      case True
      let ?s = "s\<lparr>queue := insert_entry R e (queue s), stubs := bt_remove sq (stubs s)\<rparr>"
      have one: "seen R ?s = seen R s" "streamer_inv R ?s"
        using promote_one [OF prems(1), of e] sn True prems(4,5) by auto
      have "\<forall>(k, h) \<in> set todo. bt_get (stubs ?s) k = Some h"
        using prems(3,4) streamer_invD(2) [OF prems(1)] by (force simp: bt_get_remove)
      moreover have "length (queue ?s) + length todo \<le> max_full_queue_entries (config ?s)"
        using prems(5) by (simp add: insert_entry_def)
      ultimately show ?thesis
        using "2.IH"(2) [OF Some, of "partition_point (\<lambda>x. r_sequence_number R x < sq) (queue s)"]
          one True Some prems(2,3) sn keyed_remove [of R fetched sq]
        by (simp add: insert_entry_def)
    next
      case False
      then show ?thesis using Some prems(1) by simp
    qed
  qed
qed simp

lemma take_stubs:
  assumes "bt_invar m"
  shows "distinct (map fst (take n (bt_iter m)))"
    and "\<forall>(k, h) \<in> set (take n (bt_iter m)). bt_get m k = Some h"
  using bt.distinct_iter [OF assms] bt.iter_mem [OF assms]
  by (auto simp: take_map [symmetric] dest: in_set_takeD)

lemma promote_stubs_inv:
  assumes "streamer_inv R s"
  shows "seen R (promote_stubs R client s) = seen R s"
    and "streamer_inv R (promote_stubs R client s)"
proof -
  note inv = streamer_invD [OF assms]
  have *: "seen R (insert_promoted R (take n (bt_iter (stubs s))) fetched s) = seen R s \<and>
      streamer_inv R (insert_promoted R (take n (bt_iter (stubs s))) fetched s)"
    if "keyed R fetched" "n \<le> max_full_queue_entries (config s) - length (queue s)" for n fetched
    by (rule insert_promoted_inv)
       (use assms that take_stubs [OF inv(2)] inv(4) in \<open>auto simp: min_def\<close>)
  have kN: "keyed R []" by (simp add: keyed_def bt_get_def)
  show "seen R (promote_stubs R client s) = seen R s"
    using * keyed_fetch_windows [OF _ kN] assms
    by (auto simp: promote_stubs_def Let_def split: option.split)
  show "streamer_inv R (promote_stubs R client s)"
    using * keyed_fetch_windows [OF _ kN] assms
    by (auto simp: promote_stubs_def Let_def split: option.split)
qed

subsection \<open>Promotion from a reader that serves the chain\<close>

lemma bt_get_fetch_insert:
  "bt_get (fetch_insert R expected e m) =
     (if r_sequence_number R e \<in> set expected then (bt_get m)(r_sequence_number R e \<mapsto> e) else bt_get m)"
  by (simp add: fetch_insert_def Let_def bt_get_insert)

lemma fold_fetched_mono:
  "bt_get m k \<noteq> None \<Longrightarrow> bt_get (fold (fetch_insert R expected) es m) k \<noteq> None"
proof (induction es arbitrary: m)
  case (Cons x es)
  have "bt_get (fetch_insert R expected x m) k \<noteq> None"
    using Cons.prems by (simp add: bt_get_fetch_insert)
  from Cons.IH [OF this] show ?case by simp
qed simp

lemma fold_fetched_from:
  "bt_get (fold (fetch_insert R expected) es m) k = Some e \<Longrightarrow>
     bt_get m k = Some e \<or> e \<in> set es \<and> r_sequence_number R e = k"
proof (induction es arbitrary: m)
  case (Cons x es)
  from Cons.IH [of "fetch_insert R expected x m"] Cons.prems
  show ?case by (auto simp: bt_get_fetch_insert split: if_splits)
qed simp

lemma fold_fetched_has:
  "e \<in> set es \<Longrightarrow> r_sequence_number R e \<in> set expected \<Longrightarrow>
     bt_get (fold (fetch_insert R expected) es m) (r_sequence_number R e) \<noteq> None"
proof (induction es arbitrary: m)
  case (Cons x es)
  show ?case
  proof (cases "e \<in> set es")
    case False
    then have "bt_get (fetch_insert R expected x m) (r_sequence_number R e) \<noteq> None"
      using Cons.prems by (simp add: bt_get_fetch_insert)
    from fold_fetched_mono [OF this] show ?thesis by simp
  next
    case True
    with Cons.IH [OF this] Cons.prems show ?thesis by simp
  qed
qed simp

text \<open>The bounds of one window over strictly increasing heights.\<close>

lemma window_bounds:
  assumes "sorted_wrt (<) (start # hs)" and "\<forall>h \<in> set (start # hs). h \<noteq> u64_max"
  defines "w \<equiv> start # takeWhile (in_window start) hs"
  shows "start < last w + 1" and "last w + 1 - start \<le> HOTSHOT_RANGE_LIMIT"
    and "h \<in> set w \<Longrightarrow> start \<le> h \<and> unat (h - start) < unat (last w + 1 - start)"
proof -
  have mem: "set w \<subseteq> set (start # hs)" by (auto simp: w_def dest: set_takeWhileD)
  have l: "last w \<in> set w" by (simp add: w_def)
  have ge: "start \<le> h" if "h \<in> set w" for h
    using that mem assms(1) by (auto intro: less_imp_le)
  have near: "unat (last w - start) < 100"
    using l by (auto simp: w_def in_window_def HOTSHOT_RANGE_LIMIT_def word_less_nat_alt dest: set_takeWhileD)
  have lm: "last w \<noteq> u64_max" using l mem assms(2) by blast
  have u: "unat (last w + 1) = unat (last w) + 1" by (rule unat_inc) fact
  have sl: "unat start \<le> unat (last w)" using ge [OF l] by (simp add: word_le_nat_alt)
  show st: "start < last w + 1" using u sl by (simp add: word_less_nat_alt)
  have d: "unat (last w + 1 - start) = unat (last w) + 1 - unat start"
    using u st by (simp add: unat_sub less_imp_le)
  show "last w + 1 - start \<le> HOTSHOT_RANGE_LIMIT"
    using d near sl ge [OF l] by (simp add: HOTSHOT_RANGE_LIMIT_def word_le_nat_alt unat_sub)
  have sorted: "sorted_wrt (<) w"
    using assms(1) by (auto simp: w_def sorted_wrt_takeWhile dest: set_takeWhileD)
  show "h \<in> set w \<Longrightarrow> start \<le> h \<and> unat (h - start) < unat (last w + 1 - start)"
  proof -
    assume h: "h \<in> set w"
    have "h \<le> last w"
      using h sorted strictly_sorted_snoc(2,3) [of "\<lambda>x. x" w] by (cases "w = []") (auto simp: less_imp_le)
    then show ?thesis using ge [OF h] d sl by (simp add: unat_sub word_le_nat_alt)
  qed
qed

context rollup_contract
begin

lemma parsed_on_chain:
  "e \<in> set (r_parse_hotshot_transactions R cfg
         (map (\<lambda>i. chain (start + of_nat i)) [0..<n]) start) \<longleftrightarrow>
     e \<in> chain_entries R cfg chain \<and> (\<exists>i < n. r_hotshot_height R e = start + of_nat i)"
  (is "?L \<longleftrightarrow> ?R")
proof -
  have "?L \<longleftrightarrow> (\<exists>i < n. e \<in> set (r_parse_hotshot_transactions R cfg [chain (start + of_nat i)] (start + of_nat i)))"
    by (rule trans [OF parse_range_mem]) auto
  moreover have "e \<in> set (r_parse_hotshot_transactions R cfg [chain h] h) \<longleftrightarrow>
      e \<in> chain_entries R cfg chain \<and> r_hotshot_height R e = h" for h
    using parse_block_height [of e cfg "chain h" h] by (auto simp: chain_entries_def)
  ultimately show ?thesis by blast
qed

lemma fetch_windows_complete:
  assumes "chain_reader chain (namespace_id rcfg) client"
    and "sorted_wrt (<) hs" and "\<forall>h \<in> set hs. h \<noteq> u64_max"
  shows "\<exists>m'. fetch_windows R client rcfg expected hs m = Some m' \<and>
    (\<forall>k e. bt_get m' k = Some e \<longrightarrow> bt_get m k = Some e \<or>
        e \<in> chain_entries R (stack rcfg) chain \<and> r_sequence_number R e = k) \<and>
    (\<forall>k. bt_get m k \<noteq> None \<longrightarrow> bt_get m' k \<noteq> None) \<and>
    (\<forall>e \<in> chain_entries R (stack rcfg) chain.
        r_hotshot_height R e \<in> set hs \<and> r_sequence_number R e \<in> set expected \<longrightarrow>
        bt_get m' (r_sequence_number R e) \<noteq> None)"
  using assms(2,3)
proof (induction "length hs" arbitrary: hs m rule: less_induct)
  case less
  show ?case
  proof (cases hs)
    case Nil
    then show ?thesis by simp
  next
    case (Cons start hs')
    let ?w = "start # takeWhile (in_window start) hs'" and ?rest = "dropWhile (in_window start) hs'"
    let ?n = "unat (last ?w + 1 - start)"
    note wb = window_bounds [OF less.prems [unfolded Cons]]
    have read: "namespace_transactions_in_range client (namespace_id rcfg) start (last ?w + 1) =
        Inr (map (\<lambda>i. chain (start + of_nat i)) [0..<?n])"
      using assms(1) wb(1,2) unfolding chain_reader_def by blast
    define es where "es = r_parse_hotshot_transactions R (stack rcfg)
        (map (\<lambda>i. chain (start + of_nat i)) [0..<?n]) start"
    define m1 where "m1 = fold (fetch_insert R expected) es m"
    have step: "fetch_windows R client rcfg expected hs m = fetch_windows R client rcfg expected ?rest m1"
      unfolding Cons fetch_windows.simps Let_def read m1_def es_def by simp
    have es: "e \<in> set es" if "e \<in> chain_entries R (stack rcfg) chain" "r_hotshot_height R e \<in> set ?w" for e
    proof -
      have "unat (r_hotshot_height R e - start) < ?n" using wb(3) [OF that(2)] by blast
      moreover have "r_hotshot_height R e = start + of_nat (unat (r_hotshot_height R e - start))" by simp
      ultimately show ?thesis using that(1) unfolding es_def parsed_on_chain by blast
    qed
    have rest: "sorted_wrt (<) ?rest" "\<forall>h \<in> set ?rest. h \<noteq> u64_max" "length ?rest < length hs"
      using less.prems Cons
      by (auto simp: sorted_wrt_dropWhile length_dropWhile_le less_Suc_eq_le dest: set_dropWhileD)
    have split: "set hs = set ?w \<union> set ?rest"
      using Cons set_append [of "takeWhile (in_window start) hs'" ?rest] by auto
    obtain m' where m': "fetch_windows R client rcfg expected ?rest m1 = Some m'"
      "\<forall>k e. bt_get m' k = Some e \<longrightarrow> bt_get m1 k = Some e \<or>
         e \<in> chain_entries R (stack rcfg) chain \<and> r_sequence_number R e = k"
      "\<forall>k. bt_get m1 k \<noteq> None \<longrightarrow> bt_get m' k \<noteq> None"
      "\<forall>e \<in> chain_entries R (stack rcfg) chain.
         r_hotshot_height R e \<in> set ?rest \<and> r_sequence_number R e \<in> set expected \<longrightarrow>
         bt_get m' (r_sequence_number R e) \<noteq> None"
      using less.hyps [OF rest(3,1,2), of m1] by blast
    have on: "e \<in> chain_entries R (stack rcfg) chain" if "e \<in> set es" for e
      using that by (simp add: es_def parsed_on_chain)
    show ?thesis
    proof (intro exI [of _ m'] conjI allI ballI impI)
      show "fetch_windows R client rcfg expected hs m = Some m'" using step m'(1) by simp
    next
      fix k e assume "bt_get m' k = Some e"
      then show "bt_get m k = Some e \<or>
          e \<in> chain_entries R (stack rcfg) chain \<and> r_sequence_number R e = k"
        using m'(2) fold_fetched_from [of R expected es m k e] on unfolding m1_def by blast
    next
      fix k assume "bt_get m k \<noteq> None"
      then show "bt_get m' k \<noteq> None"
        using m'(3) fold_fetched_mono [of m k R expected es] unfolding m1_def by blast
    next
      fix e assume e: "e \<in> chain_entries R (stack rcfg) chain"
        "r_hotshot_height R e \<in> set hs \<and> r_sequence_number R e \<in> set expected"
      show "bt_get m' (r_sequence_number R e) \<noteq> None"
      proof (cases "r_hotshot_height R e \<in> set ?w")
        case True
        then show ?thesis
          using es [OF e(1)] e(2) m'(3) fold_fetched_has [of e es R expected m] unfolding m1_def by blast
      next
        case False
        then show ?thesis using e m'(4) split by blast
      qed
    qed
  qed
qed

end

lemma insert_promoted_complete:
  assumes "distinct (map fst todo)" and "keyed R fetched"
    and "\<forall>(k, h) \<in> set todo. \<exists>e. bt_get fetched k = Some e \<and> r_hotshot_height R e = h"
  shows "stubs (insert_promoted R todo fetched s) = fold (\<lambda>(k, h). bt_remove k) todo (stubs s) \<and>
         length (queue (insert_promoted R todo fetched s)) = length (queue s) + length todo"
  using assms
proof (induction R todo fetched s rule: insert_promoted.induct)
  case (2 R sq h todo fetched s)
  obtain e where e: "bt_get fetched sq = Some e" "r_hotshot_height R e = h"
    using "2.prems"(3) by auto
  have k: "keyed R (bt_remove sq fetched)" using "2.prems"(2) by (rule keyed_remove)
  have "bt_invar fetched" using "2.prems"(2) by (simp add: keyed_def)
  then have "\<forall>(k, h) \<in> set todo. \<exists>e. bt_get (bt_remove sq fetched) k = Some e \<and> r_hotshot_height R e = h"
    using "2.prems"(1,3) by (force simp: bt_get_remove)
  with "2.IH"(2) [OF e(1), of "partition_point (\<lambda>x. r_sequence_number R x < sq) (queue s)"] k
    "2.prems"(1) e
  show ?case by simp
qed simp

lemma bt_remove_prefix:
  assumes "bt_invar m"
  shows "fold (\<lambda>(k, h). bt_remove k) (take n m) m = drop n m"
proof (induction n arbitrary: m)
  case (Suc n)
  then show ?case by (cases m) auto
qed simp

lemma sorted_btree_set [simp]:
  "sorted_wrt (<) (btree_set xs)" "set (btree_set xs) = set xs"
  by (simp_all add: btree_set_def strict_sorted_iff)

context rollup_contract
begin

text \<open>The fetch for a list of stubs on the chain finds each of them, at its height.\<close>

lemma fetch_todo:
  assumes "\<And>k h. (k, h) \<in> set todo \<Longrightarrow> h \<noteq> u64_max \<and>
      (\<exists>e \<in> chain_entries R (stack rc) chain. r_sequence_number R e = k \<and> r_hotshot_height R e = h)"
    and "chain_reader chain (namespace_id rc) client" and "unique_heights R (stack rc) chain"
  shows "\<exists>m. fetch_windows R client rc (btree_set (map fst todo)) (btree_set (map snd todo)) [] = Some m \<and>
    keyed R m \<and> (\<forall>(k, h) \<in> set todo. \<exists>e. bt_get m k = Some e \<and> r_hotshot_height R e = h)"
proof -
  let ?hs = "btree_set (map snd todo)" and ?ex = "btree_set (map fst todo)"
  have ne: "\<forall>h \<in> set ?hs. h \<noteq> u64_max" using assms(1) by fastforce
  obtain m where m: "fetch_windows R client rc ?ex ?hs [] = Some m"
    and m2: "\<forall>k e. bt_get m k = Some e \<longrightarrow> bt_get ([] :: (u64, 'e) btree_map) k = Some e \<or>
        e \<in> chain_entries R (stack rc) chain \<and> r_sequence_number R e = k"
    and m3: "\<forall>e \<in> chain_entries R (stack rc) chain.
        r_hotshot_height R e \<in> set ?hs \<and> r_sequence_number R e \<in> set ?ex \<longrightarrow>
        bt_get m (r_sequence_number R e) \<noteq> None"
    using fetch_windows_complete [OF assms(2) sorted_btree_set(1) ne, of ?ex "[]"] by blast
  have "\<exists>e. bt_get m k = Some e \<and> r_hotshot_height R e = h" if kh: "(k, h) \<in> set todo" for k h
  proof -
    obtain e where e: "e \<in> chain_entries R (stack rc) chain" "r_sequence_number R e = k" "r_hotshot_height R e = h"
      using assms(1) [OF kh] by blast
    have "h \<in> set ?hs" "k \<in> set ?ex" using kh by force+
    then obtain e' where e': "bt_get m k = Some e'" using m3 e by blast
    with m2 have "e' \<in> chain_entries R (stack rc) chain" "r_sequence_number R e' = k"
      by (auto simp: bt.get_empty)
    with e assms(3) have "r_hotshot_height R e' = h" unfolding unique_heights_def by metis
    with e' show ?thesis by blast
  qed
  moreover have "keyed R ([] :: (u64, 'e) btree_map)" by (simp add: keyed_def bt.get_empty)
  ultimately show ?thesis using m keyed_fetch_windows [OF m] by blast
qed

lemma promote_stubs_complete:
  assumes "streamer_inv R s" and "stubs_on_chain R chain s"
    and "chain_reader chain (namespace_id (rollup_config s)) client"
    and "unique_heights R (stack (rollup_config s)) chain"
  defines "n \<equiv> min (max_full_queue_entries (config s) - length (queue s)) (length (stubs s))"
  shows "stubs (promote_stubs R client s) = drop n (stubs s) \<and>
         length (queue (promote_stubs R client s)) = length (queue s) + n"
proof (cases "max_full_queue_entries (config s) - length (queue s) = 0 \<or> stubs s = []")
  case True
  then show ?thesis by (auto simp: promote_stubs_def n_def)
next
  case False
  let ?todo = "take n (bt_iter (stubs s))"
  note inv = streamer_invD [OF assms(1)]
  note todo = take_stubs [OF inv(2), of n]
  have "h \<noteq> u64_max \<and> (\<exists>e \<in> chain_entries R (stack (rollup_config s)) chain.
      r_sequence_number R e = k \<and> r_hotshot_height R e = h)" if "(k, h) \<in> set ?todo" for k h
  proof -
    have "bt_get (stubs s) k = Some h" using todo(2) that by blast
    then show ?thesis using assms(2) unfolding stubs_on_chain_def by blast
  qed
  from fetch_todo [OF this assms(3,4)] obtain m where
    m: "fetch_windows R client (rollup_config s) (btree_set (map fst ?todo)) (btree_set (map snd ?todo)) [] = Some m"
    "keyed R m" "\<forall>(k, h) \<in> set ?todo. \<exists>e. bt_get m k = Some e \<and> r_hotshot_height R e = h"
    by blast
  have p: "promote_stubs R client s = insert_promoted R ?todo m s"
    using False m(1) by (simp add: promote_stubs_def Let_def n_def)
  have "length ?todo = n" by (simp add: n_def bt_iter_def)
  then show ?thesis
    using insert_promoted_complete [OF todo(1) m(2,3), of s] bt_remove_prefix [OF inv(2), of n]
    by (simp add: p bt_iter_def)
qed

end

subsection \<open>Finalization\<close>

lemma promote_stubs_frame [simp]:
  "config (promote_stubs R client s) = config s"
  "rollup_config (promote_stubs R client s) = rollup_config s"
  "finalized_idx (promote_stubs R client s) = finalized_idx s"
  "last_broadcast_position (promote_stubs R client s) = last_broadcast_position s"
  by (simp_all add: promote_stubs_def Let_def split: option.split)

lemma handle_finalization_eq:
  assumes "streamer_inv R s"
  shows "handle_finalization R client idx s =
    (if idx \<le> finalized_idx s
     then s\<lparr>last_broadcast_position := max idx (last_broadcast_position s)\<rparr>
     else promote_stubs R client (pruned R idx s))"
proof -
  note inv = streamer_invD [OF assms]
  have "(case checked_add idx 1 of Some k \<Rightarrow> bt_split_off k (stubs s) | None \<Rightarrow> []) =
      filter (\<lambda>(k, h). idx < k) (stubs s)"
    by (auto simp: checked_add_1 bt_split_off_eq [OF inv(2)] inc_le_iff filter_empty_conv
        empty_filter_conv not_less)
  then show ?thesis
    using drop_partition_point_le [OF inv(1), of idx]
    by (auto simp: handle_finalization_def pruned_def Let_def max_def cong: option.case_cong)
qed

lemma seen_pruned:
  assumes "streamer_inv R s"
  shows "seen R (pruned R idx s) = forget_upto idx (seen R s)"
proof -
  note inv = streamer_invD [OF assms]
  have "bt_get (filter (\<lambda>(k, h). idx < k) m) = bt_get m |` {k. idx < k}" for m :: "(u64, u64) btree_map"
    by (induction m) (auto simp: bt_get_def restrict_map_def fun_eq_iff)
  from this [of "stubs s"] show ?thesis
    using queue_map_filter [OF inv(1), of "\<lambda>k. idx < k"]
    by (auto simp: seen_def pruned_def forget_upto_def map_add_def restrict_map_def fun_eq_iff
        cong: option.case_cong)
qed

lemma streamer_inv_pruned:
  assumes "streamer_inv R s"
  shows "streamer_inv R (pruned R idx s)"
proof -
  note inv = streamer_invD [OF assms]
  have sub: "bt_get (filter (\<lambda>(k, h). idx < k) (stubs s)) k = None" if "bt_get (stubs s) k = None" for k
    using that by (auto simp: bt_get_None)
  have "\<forall>k \<in> dom (seen R (pruned R idx s)). starting_pos (config s) \<le> k"
    using inv(5) by (auto simp: seen_pruned [OF assms] forget_upto_def)
  then show ?thesis
    using inv sub strictly_sorted_filter [OF inv(1)] le_trans [OF length_filter_le inv(4)]
      strictly_sorted_filter [OF inv(2) [unfolded bt_invar_def]]
    by (auto simp: streamer_inv_def pruned_def bt_invar_def)
qed

lemma broadcast_position_frame [simp]:
  "seen R (s\<lparr>last_broadcast_position := p\<rparr>) = seen R s"
  "streamer_inv R (s\<lparr>last_broadcast_position := p\<rparr>) = streamer_inv R s"
  "oldest_full R (s\<lparr>last_broadcast_position := p\<rparr>) = oldest_full R s"
  by (simp_all add: seen_def streamer_inv_def oldest_full_def)

text \<open>The refinement of finalization.\<close>

lemma handle_finalization_refines:
  assumes "streamer_inv R s"
  shows "seen R (handle_finalization R client idx s) =
      (if idx \<le> finalized_idx s then seen R s else forget_upto idx (seen R s))"
    and "streamer_inv R (handle_finalization R client idx s)"
  using promote_stubs_inv [OF streamer_inv_pruned [OF assms]] seen_pruned [OF assms] assms
  by (simp_all add: handle_finalization_eq [OF assms])

lemma handle_finalization_fields:
  assumes "streamer_inv R s"
  shows "finalized_idx (handle_finalization R client idx s) = max idx (finalized_idx s)"
    and "last_broadcast_position (handle_finalization R client idx s) = max idx (last_broadcast_position s)"
    and "config (handle_finalization R client idx s) = config s"
    and "rollup_config (handle_finalization R client idx s) = rollup_config s"
  by (auto simp: handle_finalization_eq [OF assms] pruned_def max_def)

lemma stubs_on_chain_pruned:
  "stubs_on_chain R chain s \<Longrightarrow> streamer_inv R s \<Longrightarrow> stubs_on_chain R chain (pruned R idx s)"
proof -
  assume a: "stubs_on_chain R chain s" "streamer_inv R s"
  have "bt_get (stubs (pruned R idx s)) k = Some h \<Longrightarrow> bt_get (stubs s) k = Some h" for k h
    using streamer_invD(2) [OF streamer_inv_pruned [OF a(2)]] streamer_invD(2) [OF a(2)]
    by (auto simp: bt.iter_mem [symmetric] bt_iter_def pruned_def)
  with a(1) show ?thesis by (fastforce simp: stubs_on_chain_def pruned_def)
qed

lemma oldest_full_take:
  assumes "streamer_inv R s" and "streamer_inv R s'" and "seen R s' = seen R s"
    and "\<forall>e \<in> set (queue s). \<forall>k \<in> fst ` set (stubs s). r_sequence_number R e < k"
    and "stubs s' = drop n (stubs s)"
  shows "\<forall>e \<in> set (queue s'). \<forall>k \<in> fst ` set (stubs s'). r_sequence_number R e < k"
proof (intro ballI)
  fix e k assume e: "e \<in> set (queue s')" and k: "k \<in> fst ` set (stubs s')"
  have bi: "bt_invar (stubs s)" using streamer_invD(2) [OF assms(1)] .
  let ?q = "r_sequence_number R e"
  have "?q \<in> dom (seen R s')" using e by (simp add: dom_seen)
  then have "?q \<in> fst ` set (stubs s) \<or> ?q \<in> r_sequence_number R ` set (queue s)"
    using assms(3) dom_seen [of R s] bt.iter_keys [OF bi] by (simp add: bt_iter_def)
  moreover have "?q \<notin> fst ` set (drop n (stubs s))"
    using streamer_invD(3) [OF assms(2) e] assms(5) by (simp add: bt_get_None)
  ultimately have "?q \<in> fst ` set (take n (stubs s)) \<or> ?q \<in> r_sequence_number R ` set (queue s)"
    using set_append [of "take n (stubs s)" "drop n (stubs s)"] by auto
  moreover have "k \<in> fst ` set (stubs s)" using k assms(5) by (auto dest: in_set_dropD)
  ultimately show "?q < k"
    using assms(4) k bt.take_oldest [OF bi, of ?q n k] unfolding assms(5) bt_iter_def
    by (metis imageE)
qed

context rollup_contract
begin

lemma oldest_full_promote:
  assumes "streamer_inv R s" and "stubs_on_chain R chain s"
    and "chain_reader chain (namespace_id (rollup_config s)) client"
    and "unique_heights R (stack (rollup_config s)) chain"
    and "\<forall>e \<in> set (queue s). \<forall>k \<in> fst ` set (stubs s). r_sequence_number R e < k"
  shows "oldest_full R (promote_stubs R client s)"
proof -
  note pc = promote_stubs_complete [OF assms(1-4)]
  note pi = promote_stubs_inv [OF assms(1), of client]
  show ?thesis
    using pc oldest_full_take [OF assms(1) pi(2,1) assms(5) conjunct1 [OF pc]]
      streamer_invD(4) [OF assms(1)]
    by (auto simp: oldest_full_def min_def split: if_splits)
qed

lemma oldest_full_finalization:
  assumes "streamer_inv R s" and "oldest_full R s" and "stubs_on_chain R chain s"
    and "chain_reader chain (namespace_id (rollup_config s)) client"
    and "unique_heights R (stack (rollup_config s)) chain"
  shows "oldest_full R (handle_finalization R client idx s)"
proof (cases "idx \<le> finalized_idx s")
  case True
  then show ?thesis using assms(2) by (simp add: handle_finalization_eq [OF assms(1)])
next
  case False
  have "\<forall>e \<in> set (queue (pruned R idx s)). \<forall>k \<in> fst ` set (stubs (pruned R idx s)).
      r_sequence_number R e < k"
    using assms(2) by (fastforce simp: oldest_full_def pruned_def)
  moreover have "rollup_config (pruned R idx s) = rollup_config s" by (simp add: pruned_def)
  ultimately show ?thesis
    using False oldest_full_promote [OF streamer_inv_pruned stubs_on_chain_pruned] assms
    by (simp add: handle_finalization_eq [OF assms(1)])
qed

end

subsection \<open>Broadcast\<close>

lemma take_contiguous_spec:
  fixes p :: u64 and n :: nat
  assumes "strictly_sorted sn es" and "\<forall>e \<in> set es. unat p + n < unat (sn e)"
    and "r = take_contiguous sn p (of_nat n) es"
  shows "map (\<lambda>e. unat (sn e)) r = [unat p + n + 1..<unat p + n + 1 + length r] \<and>
    (\<exists>rest. es = r @ rest) \<and>
    (\<forall>e \<in> set es. unat (sn e) \<noteq> unat p + n + 1 + length r)"
  using assms
proof (induction es arbitrary: n r)
  case (Cons e es)
  have lim: "unat p + n + 1 < 2 ^ 64"
    using Cons.prems(2) unat_u64_less [of "sn e"] by auto
  have w: "p + of_nat n + 1 = of_nat (unat p + n + 1)" by simp
  have u: "unat (of_nat (unat p + n + 1) :: u64) = unat p + n + 1"
    by (rule unat_of_nat_u64) (use lim in simp)
  have eq: "sn e = p + of_nat n + 1 \<longleftrightarrow> unat (sn e) = unat p + n + 1"
    unfolding w word_unat_eq_iff u ..
  show ?case
  proof (cases "sn e = p + of_nat n + 1")
    case True
    have "\<forall>x \<in> set es. unat p + Suc n < unat (sn x)"
      using Cons.prems(1) True eq by (auto simp: word_less_nat_alt)
    from Cons.IH [OF _ this refl] Cons.prems(1,3) True eq show ?thesis
      by (auto simp: upt_conv_Cons add.commute [of 1])
  next
    case False
    then have "unat p + n + 1 < unat (sn e)" using Cons.prems(2) eq by fastforce
    moreover have "unat (sn e) < unat (sn x)" if "x \<in> set es" for x
      using Cons.prems(1) that by (auto simp: word_less_nat_alt)
    ultimately show ?thesis using False Cons.prems(3) by force
  qed
qed simp

lemma find_contiguous_spec:
  fixes p :: u64
  assumes "strictly_sorted sn q"
  defines "r \<equiv> find_contiguous_entries_after sn q p"
  shows "map (\<lambda>e. unat (sn e)) r = [unat p + 1..<unat p + 1 + length r]"
    and "\<exists>rest. filter (\<lambda>e. p < sn e) q = r @ rest"
    and "\<forall>e \<in> set q. unat (sn e) \<noteq> unat p + 1 + length r"
proof -
  let ?f = "filter (\<lambda>e. p < sn e) q"
  have r: "r = take_contiguous sn p (of_nat 0) ?f"
    using drop_partition_point_le [OF assms(1), of p]
    by (simp add: r_def find_contiguous_entries_after_def)
  have "\<forall>e \<in> set ?f. unat p + 0 < unat (sn e)" by (simp add: word_less_nat_alt)
  note spec = take_contiguous_spec [OF strictly_sorted_filter [OF assms(1)] this r]
  show "map (\<lambda>e. unat (sn e)) r = [unat p + 1..<unat p + 1 + length r]"
    and "\<exists>rest. ?f = r @ rest" using spec by simp_all
  show "\<forall>e \<in> set q. unat (sn e) \<noteq> unat p + 1 + length r"
    using spec by (auto simp: word_less_nat_alt)
qed

lemma broadcast_entries_spec:
  assumes "broadcast_entries R try_send es s retry ch = (s', retry', ch', sent)"
  shows "(\<exists>rest. es = sent @ rest) \<and>
    s' = s\<lparr>last_broadcast_position :=
            (if sent = [] then last_broadcast_position s else r_sequence_number R (last sent))\<rparr> \<and>
    (sent = es \<and> retry' = retry \<or>
     sent \<noteq> es \<and> (\<exists>e. try_send ch' (r_convert_entry_to_feed_message R e) = Inl Full \<and>
       retry' = schedule (retry_broadcast_delay_ms (config s)) retry) \<or>
     sent \<noteq> es \<and> (\<exists>e. try_send ch' (r_convert_entry_to_feed_message R e) = Inl Closed) \<and> retry' = retry)"
  using assms
proof (induction es arbitrary: s ch s' sent)
  case (Cons e es)
  show ?case
  proof (cases "try_send ch (r_convert_entry_to_feed_message R e)")
    case (Inl err)
    then show ?thesis using Cons.prems by (cases err) auto
  next
    case (Inr ch1)
    then obtain sent1 where "broadcast_entries R try_send es
        (s\<lparr>last_broadcast_position := r_sequence_number R e\<rparr>) retry ch1 = (s', retry', ch', sent1)"
      and "sent = e # sent1"
      using Cons.prems by (auto split: prod.splits)
    with Cons.IH [OF this(1)] show ?thesis by auto
  qed
qed simp

text \<open>
  A broadcast attempt accepts a run of successors of the last position and moves the position to its end.
\<close>

lemma try_broadcast_spec:
  assumes "streamer_inv R s"
    and "try_broadcast_feed_message R try_send s retry ch = (s', retry', ch', sent)"
  shows "map (\<lambda>e. unat (r_sequence_number R e)) sent =
      [unat (last_broadcast_position s) + 1..<unat (last_broadcast_position s) + 1 + length sent]"
    and "set sent \<subseteq> set (queue s)"
    and "unat (last_broadcast_position s') = unat (last_broadcast_position s) + length sent"
    and "\<exists>p. s' = s\<lparr>last_broadcast_position := p\<rparr>"
proof -
  let ?sn = "r_sequence_number R" and ?p = "last_broadcast_position s"
  let ?r = "find_contiguous_entries_after ?sn (queue s) ?p"
  note fc = find_contiguous_spec [OF streamer_invD(1) [OF assms(1)], of ?p]
  note be = broadcast_entries_spec [OF assms(2) [unfolded try_broadcast_feed_message_def]]
  obtain rest where rest: "?r = sent @ rest" using be by blast
  have "map (\<lambda>e. unat (?sn e)) sent = take (length sent) (map (\<lambda>e. unat (?sn e)) ?r)"
    by (simp add: rest)
  also have "\<dots> = [unat ?p + 1..<unat ?p + 1 + length sent]"
    unfolding fc(1) by (rule take_upt) (simp add: rest)
  finally show m: "map (\<lambda>e. unat (?sn e)) sent = [unat ?p + 1..<unat ?p + 1 + length sent]" .
  show "set sent \<subseteq> set (queue s)" using fc(2) rest by (metis Un_subset_iff filter_is_subset order.trans set_append sup.cobounded1)
  show "\<exists>p. s' = s\<lparr>last_broadcast_position := p\<rparr>" using be by blast
  have "unat (?sn (last sent)) = unat ?p + length sent" if "sent \<noteq> []"
    using arg_cong [OF m, of last] that by (simp add: last_map last_upt Suc_le_eq)
  then show "unat (last_broadcast_position s') = unat ?p + length sent"
    using be by auto
qed

end
