(* ===== verification/Streamer_Loop.thy ===== *)
theory Streamer_Loop
  imports Streamer
begin

text \<open>
  The two loops around the streamer's operations: the event loop \<open>Streamer::run\<close>, as a step relation
  with one rule per branch of its \<open>select!\<close>, and the block poller \<open>poll_hotshot_blocks\<close>, as a function
  of one iteration composed over the answers of the reader. Log-only state (the stall and progress
  timestamps) is left out.
\<close>

subsection \<open>The event loop\<close>

text \<open>
  \<open>rs_signals\<close> is the content of the retry channel (capacity one). The last three fields record what
  the loop did: the entries sent to the feed relay, the finalized indices handled, the replies sent.
\<close>

record ('e, 'cfg, 'ch) run_state =
  rs_streamer :: "('e, 'cfg) streamer"
  rs_retry :: broadcast_retry
  rs_signals :: nat
  rs_chan :: 'ch
  rs_sent :: "'e list"
  rs_finals :: "u64 list"
  rs_replies :: "verification_result list"

definition run_init :: "streamer_config \<Rightarrow> 'cfg rollup_config \<Rightarrow> u64 \<Rightarrow> 'ch \<Rightarrow> ('e, 'cfg, 'ch) run_state" where
  "run_init cfg rcfg idx ch =
     \<lparr>rs_streamer = (streamer_new cfg rcfg)\<lparr>finalized_idx := idx\<rparr>, rs_retry = retry_new,
      rs_signals = 0, rs_chan = ch, rs_sent = [], rs_finals = [], rs_replies = []\<rparr>"

definition on_finalized ::
  "('cfg, 'tx, 'e, 'bm, 'f, 'c) rollup \<Rightarrow> 'tx espresso_reader \<Rightarrow> u64 \<Rightarrow> ('e, 'cfg, 'ch) run_state
     \<Rightarrow> ('e, 'cfg, 'ch) run_state" where
  "on_finalized R client idx s =
     s\<lparr>rs_streamer := handle_finalization R client idx (rs_streamer s),
       rs_finals := rs_finals s @ [idx]\<rparr>"

definition on_verification ::
  "('cfg, 'tx, 'e, 'bm, 'f, 'c) rollup \<Rightarrow> (r_error + 'c) option \<Rightarrow> bytes \<Rightarrow> ('e, 'cfg, 'ch) run_state
     \<Rightarrow> ('e, 'cfg, 'ch) run_state" where
  "on_verification R cursor batch_data s =
     s\<lparr>rs_replies := rs_replies s @ [handle_verification R cursor batch_data (rs_streamer s)]\<rparr>"

definition on_transactions ::
  "('cfg, 'tx, 'e, 'bm, 'f, 'c) rollup \<Rightarrow> ('ch \<Rightarrow> 'f \<Rightarrow> try_send_error + 'ch) \<Rightarrow> 'tx list list \<Rightarrow> u64
     \<Rightarrow> ('e, 'cfg, 'ch) run_state \<Rightarrow> ('e, 'cfg, 'ch) run_state" where
  "on_transactions R try_send txns height s =
     (let (st, rt, ch, sent) =
            handle_hotshot_transactions R try_send txns height (rs_streamer s) (rs_retry s) (rs_chan s)
      in s\<lparr>rs_streamer := st, rs_retry := rt, rs_chan := ch, rs_sent := rs_sent s @ sent\<rparr>)"

definition on_retry_signal ::
  "('cfg, 'tx, 'e, 'bm, 'f, 'c) rollup \<Rightarrow> ('ch \<Rightarrow> 'f \<Rightarrow> try_send_error + 'ch)
     \<Rightarrow> ('e, 'cfg, 'ch) run_state \<Rightarrow> ('e, 'cfg, 'ch) run_state" where
  "on_retry_signal R try_send s =
     (let (st, rt, ch, sent) =
            try_broadcast_feed_message R try_send (rs_streamer s)
              ((rs_retry s)\<lparr>scheduled := False\<rparr>) (rs_chan s)
      in s\<lparr>rs_streamer := st, rs_retry := rt, rs_chan := ch, rs_sent := rs_sent s @ sent,
           rs_signals := rs_signals s - 1\<rparr>)"

inductive run_step ::
  "('cfg, 'tx, 'e, 'bm, 'f, 'c) rollup \<Rightarrow> ('ch \<Rightarrow> 'f \<Rightarrow> try_send_error + 'ch)
     \<Rightarrow> ('e, 'cfg, 'ch) run_state \<Rightarrow> ('e, 'cfg, 'ch) run_state \<Rightarrow> bool"
  for R :: "('cfg, 'tx, 'e, 'bm, 'f, 'c) rollup" and try_send where
  finalized: "run_step R try_send s (on_finalized R client idx s)"
| verification: "run_step R try_send s (on_verification R cursor batch_data s)"
| transactions: "run_step R try_send s (on_transactions R try_send txns height s)"
| timer: "sleepers (rs_retry s) = xs @ d # ys \<Longrightarrow> rs_signals s = 0 \<Longrightarrow>
    run_step R try_send s (s\<lparr>rs_retry := (rs_retry s)\<lparr>sleepers := xs @ ys\<rparr>, rs_signals := 1\<rparr>)"
| retry_signal: "0 < rs_signals s \<Longrightarrow> run_step R try_send s (on_retry_signal R try_send s)"
| relay_recv: "run_step R try_send s (s\<lparr>rs_chan := ch\<rparr>)"

inductive_cases run_stepE: "run_step R try_send s s'"

datatype poller_result = PollerOk | PollerErr string | PollerPanic string

definition run_exit :: "poller_result \<Rightarrow> string + unit" where
  "run_exit r = (case r of
       PollerOk \<Rightarrow> Inl ''hotshot poller exited unexpectedly''
     | PollerErr err \<Rightarrow> Inl (''hotshot poller failed: '' @ err)
     | PollerPanic err \<Rightarrow> Inl (''hotshot poller task panicked: '' @ err))"

subsection \<open>The poller\<close>

text \<open>Durations are counted in milliseconds; doubling one never reaches the limit of \<open>Duration\<close>.\<close>

definition exponential_backoff :: "nat \<Rightarrow> nat \<Rightarrow> nat" where
  "exponential_backoff current mx = min (current * 2) mx"

record poll_state =
  from_block :: u64
  backoff :: nat

datatype 'tx poll_action =
    PollSleep nat
  | PollSend "'tx list list" u64
  | PollExit

record 'tx poll_input =
  pi_reader :: "'tx espresso_reader"
  pi_channel_open :: bool

fun availability_lag :: "light_client_error \<Rightarrow> bool" where
  "availability_lag (LcVerification AnyNotFound) = True"
| "availability_lag (LcVerification (AnyMsg m)) = str_contains ''error 404'' m"
| "availability_lag err = False"

definition poll_init :: "streamer_config \<Rightarrow> u64 \<Rightarrow> poll_state" where
  "poll_init cfg start = \<lparr>from_block = start, backoff = unat (initial_backoff_ms cfg)\<rparr>"

definition poll_iteration ::
  "streamer_config \<Rightarrow> u64 \<Rightarrow> 'tx poll_input \<Rightarrow> poll_state \<Rightarrow> poll_state \<times> 'tx poll_action" where
  "poll_iteration cfg ns inp st =
     (let retry = (st\<lparr>backoff := exponential_backoff (backoff st) (unat (max_backoff_ms cfg))\<rparr>,
                   PollSleep (backoff st))
      in case block_height (pi_reader inp) of
           Inl err \<Rightarrow> retry
         | Inr latest_block_height \<Rightarrow>
             if from_block st \<ge> latest_block_height
             then (st, PollSleep (unat (initial_backoff_ms cfg)))
             else
               let to_block = min (saturating_add (from_block st) HOTSHOT_RANGE_LIMIT) latest_block_height
               in case namespace_transactions_in_range (pi_reader inp) ns (from_block st) to_block of
                    Inl err \<Rightarrow>
                      if availability_lag err then (st, PollSleep (unat (initial_backoff_ms cfg)))
                      else retry
                  | Inr txns \<Rightarrow>
                      let st' = st\<lparr>backoff := unat (initial_backoff_ms cfg)\<rparr>
                      in if pi_channel_open inp
                         then (st'\<lparr>from_block := to_block\<rparr>, PollSend txns (from_block st))
                         else (st', PollExit))"

fun poll_hotshot_blocks ::
  "streamer_config \<Rightarrow> u64 \<Rightarrow> 'tx poll_input list \<Rightarrow> poll_state
     \<Rightarrow> poll_state \<times> ('tx list list \<times> u64) list" where
  "poll_hotshot_blocks cfg ns [] st = (st, [])"
| "poll_hotshot_blocks cfg ns (inp # inps) st =
     (case poll_iteration cfg ns inp st of
        (st', PollExit) \<Rightarrow> (st', [])
      | (st', PollSleep d) \<Rightarrow> poll_hotshot_blocks cfg ns inps st'
      | (st', PollSend txns height) \<Rightarrow>
          let (st'', sent) = poll_hotshot_blocks cfg ns inps st'
          in (st'', (txns, height) # sent))"

subsection \<open>Invariants of the event loop\<close>

text \<open>
  The feed as the relay sees it: each position is the successor of the one before, or of an index that
  L1 had finalized at or past it. \<open>feed_at\<close> ties the broadcast position to the end of such a feed.
\<close>

fun feed_chain :: "nat set \<Rightarrow> nat \<Rightarrow> nat list \<Rightarrow> bool" where
  "feed_chain F p [] = True"
| "feed_chain F p (x # xs) = ((x = p + 1 \<or> (\<exists>f \<in> F. p \<le> f \<and> x = f + 1)) \<and> feed_chain F x xs)"

definition positions :: "('cfg, 'tx, 'e, 'bm, 'f, 'c) rollup \<Rightarrow> 'e list \<Rightarrow> nat list" where
  "positions R es = map (\<lambda>e. unat (r_sequence_number R e)) es"

definition feed_at :: "nat set \<Rightarrow> nat list \<Rightarrow> nat \<Rightarrow> bool" where
  "feed_at F xs p \<longleftrightarrow>
     feed_chain F 0 xs \<and> (\<forall>f \<in> F. f \<le> p) \<and> last (0 # xs) \<le> p \<and> (p = last (0 # xs) \<or> p \<in> F)"

definition retry_inv :: "broadcast_retry \<Rightarrow> nat \<Rightarrow> bool" where
  "retry_inv r n \<longleftrightarrow> length (sleepers r) + n = (if scheduled r then 1 else 0)"

definition run_inv :: "('cfg, 'tx, 'e, 'bm, 'f, 'c) rollup \<Rightarrow> ('e, 'cfg, 'ch) run_state \<Rightarrow> bool" where
  "run_inv R s \<longleftrightarrow>
     streamer_inv R (rs_streamer s) \<and> retry_inv (rs_retry s) (rs_signals s) \<and>
     feed_at (unat ` set (rs_finals s)) (positions R (rs_sent s))
       (unat (last_broadcast_position (rs_streamer s)))"

text \<open>
  \<open>tiled\<close> says that the deliveries of the poller, in order, are the chain's blocks from \<open>start\<close> to
  \<open>stop\<close>: each starts where the one before ended, is not empty and stays within the range limit.
\<close>

fun tiled :: "(u64 \<Rightarrow> 'tx list) \<Rightarrow> u64 \<Rightarrow> ('tx list list \<times> u64) list \<Rightarrow> u64 \<Rightarrow> bool" where
  "tiled chain start [] stop = (start = stop)"
| "tiled chain start ((txns, height) # sent) stop =
     (height = start \<and> 0 < length txns \<and> length txns \<le> unat HOTSHOT_RANGE_LIMIT \<and>
      unat start + length txns < 2 ^ 64 \<and>
      txns = map (\<lambda>i. chain (start + of_nat i)) [0..<length txns] \<and>
      tiled chain (start + of_nat (length txns)) sent stop)"

lemma feed_chain_append:
  "feed_chain F p (xs @ ys) \<longleftrightarrow> feed_chain F p xs \<and> feed_chain F (last (p # xs)) ys"
  by (induction xs arbitrary: p) auto

lemma feed_chain_mono: "feed_chain F p xs \<Longrightarrow> F \<subseteq> G \<Longrightarrow> feed_chain G p xs"
  by (induction xs arbitrary: p) auto

lemma feed_chain_upt: "p = q \<or> q \<in> F \<and> p \<le> q \<Longrightarrow> feed_chain F p [q + 1..<q + 1 + n]"
proof (induction n arbitrary: p q)
  case (Suc n)
  have "[q + 1..<q + 1 + Suc n] = (q + 1) # [q + 1 + 1..<q + 1 + 1 + n]"
    by (simp add: upt_conv_Cons del: upt_Suc)
  then show ?case using Suc.IH [of "q + 1" "q + 1"] Suc.prems by auto
qed simp

lemma feed_chain_sorted: "feed_chain F p xs \<Longrightarrow> sorted_wrt (<) (p # xs)"
proof (induction xs arbitrary: p)
  case (Cons x xs)
  then have "sorted_wrt (<) (x # xs)" and "p < x" by auto
  then show ?case by (auto dest: less_trans)
qed simp

lemma feed_at_send:
  assumes "feed_at F xs p"
  shows "feed_at F (xs @ [p + 1..<p + 1 + n]) (p + n)"
proof -
  have "feed_chain F (last (0 # xs)) [p + 1..<p + 1 + n]"
    by (rule feed_chain_upt) (use assms in \<open>auto simp: feed_at_def\<close>)
  then show ?thesis
    using assms
    by (cases n) (auto simp: feed_at_def feed_chain_append trans_le_add1 simp del: upt_Suc)
qed

lemma feed_at_finalized: "feed_at F xs p \<Longrightarrow> feed_at (insert f F) xs (max f p)"
  by (auto simp: feed_at_def max_def intro: feed_chain_mono)

lemma retry_inv_schedule: "retry_inv r n \<Longrightarrow> retry_inv (schedule d r) n"
  by (auto simp: retry_inv_def schedule_def)

lemma filter_messages_inv:
  "streamer_inv R s \<Longrightarrow> streamer_inv R (filter_messages R es s)"
  unfolding filter_messages_def
  by (induction es arbitrary: s) (auto intro: streamer_inv_filter_message)

lemma filter_messages_frame [simp]:
  "config (filter_messages R es s) = config s"
  "rollup_config (filter_messages R es s) = rollup_config s"
  "finalized_idx (filter_messages R es s) = finalized_idx s"
  "last_broadcast_position (filter_messages R es s) = last_broadcast_position s"
  unfolding filter_messages_def by (induction es arbitrary: s) auto

lemma broadcast_keeps:
  assumes "streamer_inv R st"
    and "feed_at F (positions R sent) (unat (last_broadcast_position st))" and "retry_inv rt n"
    and "try_broadcast_feed_message R try_send st rt ch = (st', rt', ch', new)"
  shows "streamer_inv R st'" and "retry_inv rt' n"
    and "feed_at F (positions R (sent @ new)) (unat (last_broadcast_position st'))"
proof -
  note tb = try_broadcast_spec [OF assms(1,4)]
  show "streamer_inv R st'" using tb(4) assms(1) by auto
  show "retry_inv rt' n"
    using broadcast_entries_spec [OF assms(4) [unfolded try_broadcast_feed_message_def]] assms(3)
    by (auto intro: retry_inv_schedule)
  show "feed_at F (positions R (sent @ new)) (unat (last_broadcast_position st'))"
    using feed_at_send [OF assms(2), of "length new"] tb(1,3) by (simp add: positions_def)
qed

lemma run_inv_init: "run_inv R (run_init cfg rcfg idx ch)"
  by (simp add: run_inv_def run_init_def streamer_new_def streamer_inv_def retry_inv_def retry_new_def
      feed_at_def positions_def seen_def queue_map_def bt_get_def)

lemma run_inv_on_finalized:
  assumes "run_inv R s"
  shows "run_inv R (on_finalized R client idx s)"
proof -
  have si: "streamer_inv R (rs_streamer s)" using assms by (simp add: run_inv_def)
  have "unat (max idx p) = max (unat idx) (unat p)" for p :: u64
    by (simp add: max_def word_le_nat_alt)
  then show ?thesis
    using assms handle_finalization_refines(2) [OF si, of client idx]
      handle_finalization_fields(2) [OF si, of client idx]
      feed_at_finalized [of "unat ` set (rs_finals s)" "positions R (rs_sent s)"
        "unat (last_broadcast_position (rs_streamer s))" "unat idx"]
    by (simp add: run_inv_def on_finalized_def)
qed

lemma run_inv_on_transactions:
  assumes "run_inv R s"
  shows "run_inv R (on_transactions R try_send txns height s)"
proof -
  let ?st = "filter_messages R (r_parse_hotshot_transactions R (stack (rollup_config (rs_streamer s))) txns height)
      (rs_streamer s)"
  obtain st rt ch new where
    tb: "try_broadcast_feed_message R try_send ?st (rs_retry s) (rs_chan s) = (st, rt, ch, new)"
    by (metis prod_cases4)
  have "streamer_inv R ?st" using assms by (simp add: run_inv_def filter_messages_inv)
  note broadcast_keeps [OF this _ _ tb, of "unat ` set (rs_finals s)" "rs_sent s" "rs_signals s"]
  then show ?thesis
    using assms tb by (simp add: run_inv_def on_transactions_def handle_hotshot_transactions_def)
qed

lemma run_inv_on_retry_signal:
  assumes "run_inv R s" and "0 < rs_signals s"
  shows "run_inv R (on_retry_signal R try_send s)"
proof -
  let ?rt = "(rs_retry s)\<lparr>scheduled := False\<rparr>"
  obtain st rt ch new where
    tb: "try_broadcast_feed_message R try_send (rs_streamer s) ?rt (rs_chan s) = (st, rt, ch, new)"
    by (metis prod_cases4)
  have "retry_inv ?rt (rs_signals s - 1)"
    using assms by (auto simp: run_inv_def retry_inv_def split: if_splits)
  from broadcast_keeps [OF _ _ this tb, of "unat ` set (rs_finals s)" "rs_sent s"]
  show ?thesis using assms tb by (simp add: run_inv_def on_retry_signal_def)
qed

lemma run_inv_step:
  assumes "run_step R try_send s s'" and "run_inv R s"
  shows "run_inv R s'"
  using assms
proof (cases rule: run_step.cases)
  case (timer xs d ys)
  then show ?thesis using assms(2) by (auto simp: run_inv_def retry_inv_def split: if_splits)
qed (auto simp: run_inv_on_finalized run_inv_on_transactions run_inv_on_retry_signal,
    simp_all add: run_inv_def on_verification_def)

lemma run_inv_reachable:
  assumes "(run_step R try_send)\<^sup>*\<^sup>* (run_init cfg rcfg idx ch) s"
  shows "run_inv R s"
  using assms by (induction rule: rtranclp_induct) (auto intro: run_inv_init run_inv_step)

subsection \<open>The poller tiles the chain\<close>

lemma saturating_add_bounds:
  assumes "a < c" and "0 < b"
  shows "a < min (saturating_add a b) c \<and> min (saturating_add a b) c - a \<le> b \<and> min (saturating_add a b) c \<le> c"
proof (cases "unat a + unat b < 2 ^ 64")
  case True
  then have "saturating_add a b = a + b" unfolding saturating_add_def no_overflow_iff by simp
  then show ?thesis using assms unat_add_no_overflow [OF True]
    by (auto simp: min_def word_less_nat_alt word_le_nat_alt unat_sub)
next
  case False
  then have "saturating_add a b = u64_max" unfolding saturating_add_def no_overflow_iff by simp
  moreover have "min u64_max c = c" by (simp add: min.absorb2)
  ultimately show ?thesis using assms False unat_u64_less [of c]
    by (simp add: word_less_nat_alt word_le_nat_alt unat_sub)
qed

lemma poll_iteration_cases:
  assumes "poll_iteration cfg ns inp st = (st', act)"
  shows "case act of
      PollSleep d \<Rightarrow> from_block st' = from_block st
    | PollExit \<Rightarrow> from_block st' = from_block st
    | PollSend txns height \<Rightarrow> height = from_block st \<and> backoff st' = unat (initial_backoff_ms cfg) \<and>
        (\<exists>latest. block_height (pi_reader inp) = Inr latest \<and> from_block st < latest \<and>
          from_block st' = min (saturating_add (from_block st) HOTSHOT_RANGE_LIMIT) latest \<and>
          namespace_transactions_in_range (pi_reader inp) ns (from_block st) (from_block st') = Inr txns)"
  using assms
  by (auto simp: poll_iteration_def Let_def not_le split: sum.splits if_splits)

lemma poll_tiles:
  assumes "\<forall>inp \<in> set inps. chain_reader chain ns (pi_reader inp)"
    and "poll_hotshot_blocks cfg ns inps st = (st', sent)"
  shows "tiled chain (from_block st) sent (from_block st')"
  using assms
proof (induction inps arbitrary: st sent)
  case (Cons inp inps)
  obtain st1 act where it: "poll_iteration cfg ns inp st = (st1, act)" by fastforce
  note pc = poll_iteration_cases [OF it]
  show ?case
  proof (cases act)
    case (PollSend txns height)
    then obtain sent1 where rest: "poll_hotshot_blocks cfg ns inps st1 = (st', sent1)"
      and sent: "sent = (txns, height) # sent1"
      using Cons.prems(2) it by (auto split: prod.splits)
    obtain latest where l: "from_block st < latest"
      "from_block st1 = min (saturating_add (from_block st) HOTSHOT_RANGE_LIMIT) latest"
      "namespace_transactions_in_range (pi_reader inp) ns (from_block st) (from_block st1) = Inr txns"
      and h: "height = from_block st"
      using pc PollSend by auto
    have "0 < HOTSHOT_RANGE_LIMIT" by (simp add: HOTSHOT_RANGE_LIMIT_def)
    note b = saturating_add_bounds [OF l(1) this, folded l(2)]
    let ?n = "unat (from_block st1 - from_block st)"
    have "chain_reader chain ns (pi_reader inp)" using Cons.prems(1) by simp
    with b have "namespace_transactions_in_range (pi_reader inp) ns (from_block st) (from_block st1) =
        Inr (map (\<lambda>i. chain (from_block st + of_nat i)) [0..<?n])"
      unfolding chain_reader_def by blast
    with l(3) have tx: "txns = map (\<lambda>i. chain (from_block st + of_nat i)) [0..<?n]" by simp
    have n: "?n = unat (from_block st1) - unat (from_block st)" using b by (simp add: unat_sub less_imp_le)
    have "0 < ?n" "?n \<le> unat HOTSHOT_RANGE_LIMIT" "unat (from_block st) + ?n < 2 ^ 64"
      using b n unat_u64_less [of "from_block st1"] by (auto simp: word_less_nat_alt word_le_nat_alt)
    moreover have "tiled chain (from_block st1) sent1 (from_block st')"
      using Cons.IH [OF _ rest] Cons.prems(1) by simp
    ultimately show ?thesis using sent h tx by simp
  qed (use Cons.prems Cons.IH [of st1 sent] pc it in auto)
qed simp

context rollup_contract
begin

text \<open>Parsing the deliveries one by one is parsing the range they tile.\<close>

lemma parse_tiled:
  assumes "tiled chain start sent stop"
  shows "\<exists>n. stop = start + of_nat n \<and>
    concat (map (\<lambda>(txns, h). r_parse_hotshot_transactions R cfg txns h) sent) =
      r_parse_hotshot_transactions R cfg (map (\<lambda>i. chain (start + of_nat i)) [0..<n]) start"
  using assms
proof (induction chain start sent stop rule: tiled.induct)
  case (1 chain start stop)
  then show ?case by (intro exI [of _ 0]) (simp add: parse_Nil)
next
  case (2 chain start txns height sent stop)
  let ?k = "length txns"
  obtain n where n: "stop = start + of_nat ?k + of_nat n"
    "concat (map (\<lambda>(txns, h). r_parse_hotshot_transactions R cfg txns h) sent) =
      r_parse_hotshot_transactions R cfg (map (\<lambda>i. chain (start + of_nat ?k + of_nat i)) [0..<n]) (start + of_nat ?k)"
    using 2 by auto
  have tx: "txns = map (\<lambda>i. chain (start + of_nat i)) [0..<?k]" and h: "height = start" using "2.prems" by simp_all
  have "[?k..<?k + n] = map (\<lambda>i. i + ?k) [0..<n]" by (simp add: map_add_upt add.commute)
  then have "map (\<lambda>i. chain (start + of_nat i)) [?k..<?k + n] =
      map (\<lambda>i. chain (start + of_nat ?k + of_nat i)) [0..<n]"
    by (simp add: ac_simps)
  then have "map (\<lambda>i. chain (start + of_nat i)) [0..<?k + n] =
      txns @ map (\<lambda>i. chain (start + of_nat ?k + of_nat i)) [0..<n]"
    using tx upt_add_eq_append [of 0 ?k n] by simp
  then show ?case
    using n h by (intro exI [of _ "?k + n"]) (simp add: parse_append add.assoc)
qed

end

lemma filter_messages_append:
  "filter_messages R (es @ es') s = filter_messages R es' (filter_messages R es s)"
  by (simp add: filter_messages_def)

lemma seen_filter_messages:
  assumes "streamer_inv R s"
  shows "seen R (filter_messages R es s) = fold (admit R (starting_pos (config s))) es (seen R s)"
  using assms
proof (induction es arbitrary: s)
  case (Cons e es)
  then show ?case
    using streamer_inv_filter_message [OF Cons.prems, of e] seen_filter_message [OF Cons.prems, of e]
    by (simp add: filter_messages_def)
qed (simp add: filter_messages_def)

subsection \<open>Provenance of the queue\<close>

text \<open>
  Everything in the queue came out of \<open>parse_hotshot_transactions\<close> under the streamer's configuration,
  directly or by promotion, so it has every property that parsing guarantees.
\<close>

definition parsed_all :: "('cfg, 'tx, 'e, 'bm, 'f, 'c) rollup \<Rightarrow> 'cfg \<Rightarrow> ('e \<Rightarrow> bool) \<Rightarrow> bool" where
  "parsed_all R cfg P \<longleftrightarrow> (\<forall>txns h. \<forall>e \<in> set (r_parse_hotshot_transactions R cfg txns h). P e)"

text \<open>The same for what one reader serves.\<close>

definition reader_all ::
  "('cfg, 'tx, 'e, 'bm, 'f, 'c) rollup \<Rightarrow> 'cfg rollup_config \<Rightarrow> 'tx espresso_reader \<Rightarrow> ('e \<Rightarrow> bool) \<Rightarrow> bool" where
  "reader_all R rcfg client P \<longleftrightarrow>
     (\<forall>start stop txns. namespace_transactions_in_range client (namespace_id rcfg) start stop = Inr txns \<longrightarrow>
        (\<forall>e \<in> set (r_parse_hotshot_transactions R (stack rcfg) txns start). P e))"

lemma parsed_reader_all: "parsed_all R (stack rcfg) P \<Longrightarrow> reader_all R rcfg client P"
  by (simp add: parsed_all_def reader_all_def)

lemma queue_filter_message: "set (queue (filter_message R e s)) \<subseteq> insert e (set (queue s))"
  by (auto simp: filter_message_def Let_def dest: in_set_butlastD)

lemma queue_filter_messages: "set (queue (filter_messages R es s)) \<subseteq> set es \<union> set (queue s)"
proof (induction es arbitrary: s)
  case (Cons e es)
  then show ?case
    using queue_filter_message [of R e s] by (fastforce simp: filter_messages_def)
qed (simp add: filter_messages_def)

lemma fetch_windows_all:
  assumes "fetch_windows R client rcfg expected hs m = Some m'" and "reader_all R rcfg client P"
    and "\<forall>k e. bt_get m k = Some e \<longrightarrow> P e"
  shows "\<forall>k e. bt_get m' k = Some e \<longrightarrow> P e"
  using assms
proof (induction R client rcfg expected hs m rule: fetch_windows.induct)
  case (2 R client rcfg expected start hs m)
  let ?stop = "last (start # takeWhile (in_window start) hs) + 1"
  obtain txns where txns: "namespace_transactions_in_range client (namespace_id rcfg) start ?stop = Inr txns"
    using "2.prems"(1) by (auto simp: Let_def split: sum.splits)
  let ?es = "r_parse_hotshot_transactions R (stack rcfg) txns start"
  have "P e" if "bt_get (fold (fetch_insert R expected) ?es m) k = Some e" for k e
    using fold_fetched_from [OF that] "2.prems"(2,3) txns by (auto simp: reader_all_def)
  then show ?case
    using "2.IH" [OF refl refl txns refl] "2.prems"(1,2) txns by (simp add: Let_def)
qed simp

lemma insert_promoted_all:
  assumes "\<forall>k e. bt_get fetched k = Some e \<longrightarrow> P e" and "bt_invar fetched" and "\<forall>e \<in> set (queue s). P e"
  shows "\<forall>e \<in> set (queue (insert_promoted R todo fetched s)). P e"
  using assms
proof (induction R todo fetched s rule: insert_promoted.induct)
  case (2 R sq h todo fetched s)
  show ?case
  proof (cases "bt_get fetched sq")
    case None
    then show ?thesis using "2.IH"(1) [OF None] "2.prems" by simp
  next
    case (Some e)
    have "\<forall>k e. bt_get (bt_remove sq fetched) k = Some e \<longrightarrow> P e"
      using "2.prems"(1,2) by (auto simp: bt_get_remove)
    then show ?thesis
      using "2.IH"(2) [OF Some _ refl] "2.prems" Some bt_invar_remove [OF "2.prems"(2)] by simp
  qed
qed simp

lemma promote_stubs_all:
  assumes "reader_all R (rollup_config s) client P" and "\<forall>e \<in> set (queue s). P e"
  shows "\<forall>e \<in> set (queue (promote_stubs R client s)). P e"
proof -
  have *: "\<forall>e \<in> set (queue (insert_promoted R todo m s)). P e"
    if "fetch_windows R client (rollup_config s) ex hs [] = Some m" for todo ex hs m
  proof (rule insert_promoted_all)
    show "\<forall>k e. bt_get m k = Some e \<longrightarrow> P e"
      using fetch_windows_all [OF that assms(1)] by (simp add: bt.get_empty)
    have "keyed R []" by (simp add: keyed_def bt.get_empty)
    from keyed_fetch_windows [OF that this] show "bt_invar m" by (simp add: keyed_def)
  qed (use assms in simp)
  then show ?thesis using assms(2) by (auto simp: promote_stubs_def Let_def split: option.splits)
qed

lemma handle_finalization_all:
  assumes "streamer_inv R s" and "reader_all R (rollup_config s) client P" and "\<forall>e \<in> set (queue s). P e"
  shows "\<forall>e \<in> set (queue (handle_finalization R client idx s)). P e"
proof -
  have "reader_all R (rollup_config (pruned R idx s)) client P" and "\<forall>e \<in> set (queue (pruned R idx s)). P e"
    using assms(2,3) by (simp_all add: pruned_def)
  from promote_stubs_all [OF this] show ?thesis
    using assms(3) unfolding handle_finalization_eq [OF assms(1)] by simp
qed

lemma try_broadcast_frame:
  assumes "try_broadcast_feed_message R try_send s rt ch = (s', rt', ch', sent)"
  shows "queue s' = queue s" and "rollup_config s' = rollup_config s" and "config s' = config s"
  using broadcast_entries_spec [OF assms [unfolded try_broadcast_feed_message_def]] by auto

lemma on_transactions_all:
  fixes try_send :: "'ch \<Rightarrow> 'f \<Rightarrow> try_send_error + 'ch" and R :: "('cfg, 'tx, 'e, 'bm, 'f, 'c) rollup"
  assumes "\<forall>e \<in> set (r_parse_hotshot_transactions R (stack (rollup_config (rs_streamer s))) txns height). P e"
    and "\<forall>e \<in> set (queue (rs_streamer s)). P e"
  defines "s' \<equiv> on_transactions R try_send txns height s"
  shows "rollup_config (rs_streamer s') = rollup_config (rs_streamer s)"
    and "config (rs_streamer s') = config (rs_streamer s)" and "\<forall>e \<in> set (queue (rs_streamer s')). P e"
proof -
  let ?es = "r_parse_hotshot_transactions R (stack (rollup_config (rs_streamer s))) txns height"
  obtain st rt ch new where tb: "try_broadcast_feed_message R try_send (filter_messages R ?es (rs_streamer s))
      (rs_retry s) (rs_chan s) = (st, rt, ch, new)"
    by (metis prod_cases4)
  have "\<forall>e \<in> set (queue (filter_messages R ?es (rs_streamer s))). P e"
    using queue_filter_messages [of R ?es "rs_streamer s"] assms(1,2) by blast
  then show "rollup_config (rs_streamer s') = rollup_config (rs_streamer s)"
    "config (rs_streamer s') = config (rs_streamer s)" "\<forall>e \<in> set (queue (rs_streamer s')). P e"
    using tb try_broadcast_frame [OF tb]
    by (simp_all add: s'_def on_transactions_def handle_hotshot_transactions_def)
qed

lemma on_retry_signal_frame:
  fixes try_send :: "'ch \<Rightarrow> 'f \<Rightarrow> try_send_error + 'ch" and R :: "('cfg, 'tx, 'e, 'bm, 'f, 'c) rollup"
    and s :: "('e, 'cfg, 'ch) run_state"
  defines "s' \<equiv> on_retry_signal R try_send s"
  shows "rollup_config (rs_streamer s') = rollup_config (rs_streamer s)"
    and "config (rs_streamer s') = config (rs_streamer s)" and "queue (rs_streamer s') = queue (rs_streamer s)"
proof -
  obtain st rt ch new where tb: "try_broadcast_feed_message R try_send (rs_streamer s)
      ((rs_retry s)\<lparr>scheduled := False\<rparr>) (rs_chan s) = (st, rt, ch, new)"
    by (metis prod_cases4)
  then show "rollup_config (rs_streamer s') = rollup_config (rs_streamer s)"
    "config (rs_streamer s') = config (rs_streamer s)" "queue (rs_streamer s') = queue (rs_streamer s)"
    using try_broadcast_frame [OF tb] by (simp_all add: s'_def on_retry_signal_def)
qed

lemma run_step_all:
  assumes "run_step R try_send s s'" and "run_inv R s"
    and "parsed_all R (stack (rollup_config (rs_streamer s))) P" and "\<forall>e \<in> set (queue (rs_streamer s)). P e"
  shows "rollup_config (rs_streamer s') = rollup_config (rs_streamer s) \<and>
    config (rs_streamer s') = config (rs_streamer s) \<and> (\<forall>e \<in> set (queue (rs_streamer s')). P e)"
  using assms(1)
proof (cases rule: run_step.cases)
  case (finalized client idx)
  have "streamer_inv R (rs_streamer s)" using assms(2) by (simp add: run_inv_def)
  with finalized handle_finalization_all [OF this parsed_reader_all [OF assms(3)] assms(4)]
    handle_finalization_fields(3,4) [OF this]
  show ?thesis by (simp add: on_finalized_def)
next
  case (transactions txns height)
  then show ?thesis
    using on_transactions_all [of R s txns height P try_send] assms(3,4) by (simp add: parsed_all_def)
next
  case retry_signal
  then show ?thesis using assms(4) on_retry_signal_frame [of R try_send s] by simp
qed (use assms(4) in \<open>auto simp: on_verification_def\<close>)

lemma run_queue_all:
  assumes "(run_step R try_send)\<^sup>*\<^sup>* (run_init cfg rcfg idx ch) s" and "parsed_all R (stack rcfg) P"
  shows "rollup_config (rs_streamer s) = rcfg \<and> config (rs_streamer s) = cfg \<and>
    (\<forall>e \<in> set (queue (rs_streamer s)). P e)"
  using assms(1)
proof (induction rule: rtranclp_induct)
  case base
  then show ?case by (simp add: run_init_def streamer_new_def)
next
  case (step y z)
  then show ?case
    using run_step_all [OF step.hyps(2) run_inv_reachable [OF step.hyps(1)], of P] assms(2) by auto
qed

text \<open>Everything sent to the relay was in the queue.\<close>

lemma find_contiguous_subset: "set (find_contiguous_entries_after sn q p) \<subseteq> set q"
proof -
  have "set (take_contiguous sn p i es) \<subseteq> set es" for i es
    by (induction sn p i es rule: take_contiguous.induct) auto
  then show ?thesis unfolding find_contiguous_entries_after_def by (meson order_trans set_drop_subset)
qed

lemma try_broadcast_sent:
  assumes "try_broadcast_feed_message R try_send s rt ch = (s', rt', ch', sent)"
  shows "set sent \<subseteq> set (queue s)"
proof -
  obtain rest where
    "find_contiguous_entries_after (r_sequence_number R) (queue s) (last_broadcast_position s) = sent @ rest"
    using broadcast_entries_spec [OF assms [unfolded try_broadcast_feed_message_def]] by blast
  then show ?thesis
    using find_contiguous_subset [of "r_sequence_number R" "queue s" "last_broadcast_position s"] by simp
qed

lemma run_step_sent:
  assumes "run_step R try_send s s'"
  shows "set (rs_sent s') \<subseteq> set (rs_sent s) \<union> set (queue (rs_streamer s'))"
  using assms
proof (cases rule: run_step.cases)
  case (transactions txns height)
  let ?s = "filter_messages R (r_parse_hotshot_transactions R (stack (rollup_config (rs_streamer s))) txns height)
    (rs_streamer s)"
  obtain st rt ch new where tb: "try_broadcast_feed_message R try_send ?s (rs_retry s) (rs_chan s) = (st, rt, ch, new)"
    by (metis prod_cases4)
  then show ?thesis
    using transactions try_broadcast_frame(1) [OF tb] try_broadcast_sent [OF tb]
    by (auto simp: on_transactions_def handle_hotshot_transactions_def)
next
  case retry_signal
  obtain st rt ch new where tb: "try_broadcast_feed_message R try_send (rs_streamer s)
      ((rs_retry s)\<lparr>scheduled := False\<rparr>) (rs_chan s) = (st, rt, ch, new)"
    by (metis prod_cases4)
  then show ?thesis
    using retry_signal try_broadcast_frame(1) [OF tb] try_broadcast_sent [OF tb] by (auto simp: on_retry_signal_def)
qed (auto simp: on_verification_def on_finalized_def)

lemma run_sent_all:
  assumes "(run_step R try_send)\<^sup>*\<^sup>* (run_init cfg rcfg idx ch) s" and "parsed_all R (stack rcfg) P"
  shows "\<forall>e \<in> set (rs_sent s). P e"
  using assms(1)
proof (induction rule: rtranclp_induct)
  case base
  then show ?case by (simp add: run_init_def)
next
  case (step y z)
  have "\<forall>e \<in> set (queue (rs_streamer z)). P e"
    using run_queue_all [OF rtranclp.rtrancl_into_rtrancl [OF step.hyps] assms(2)] by blast
  then show ?case using step.IH run_step_sent [OF step.hyps(2)] by blast
qed

end
