(* ===== verification/Streamer_Chain.thy ===== *)
theory Streamer_Chain
  imports Streamer_Loop
begin

text \<open>
  The streamer on a chain: its states when every delivery and every re-fetch is read from one chain of
  Espresso blocks. In these states the queue holds exactly the oldest entries seen, up to its capacity.
\<close>

inductive chain_reachable ::
  "('cfg, 'tx, 'e, 'bm, 'f, 'c) rollup \<Rightarrow> (u64 \<Rightarrow> 'tx list) \<Rightarrow> streamer_config \<Rightarrow> 'cfg rollup_config
     \<Rightarrow> ('e, 'cfg) streamer \<Rightarrow> bool"
  for R :: "('cfg, 'tx, 'e, 'bm, 'f, 'c) rollup" and chain cfg rcfg where
  start: "chain_reachable R chain cfg rcfg (streamer_new cfg rcfg)"
| deliver: "chain_reachable R chain cfg rcfg s \<Longrightarrow> unat height + n < 2 ^ 64 \<Longrightarrow>
    chain_reachable R chain cfg rcfg
      (filter_messages R (r_parse_hotshot_transactions R (stack rcfg)
         (map (\<lambda>i. chain (height + of_nat i)) [0..<n]) height) s)"
| finalize: "chain_reachable R chain cfg rcfg s \<Longrightarrow> chain_reader chain (namespace_id rcfg) client \<Longrightarrow>
    chain_reachable R chain cfg rcfg (handle_finalization R client idx s)"

definition chain_entry ::
  "('cfg, 'tx, 'e, 'bm, 'f, 'c) rollup \<Rightarrow> 'cfg \<Rightarrow> (u64 \<Rightarrow> 'tx list) \<Rightarrow> 'e \<Rightarrow> bool" where
  "chain_entry R cfg chain e \<longleftrightarrow> e \<in> chain_entries R cfg chain \<and> r_hotshot_height R e \<noteq> u64_max"

definition on_chain ::
  "('cfg, 'tx, 'e, 'bm, 'f, 'c) rollup \<Rightarrow> (u64 \<Rightarrow> 'tx list) \<Rightarrow> ('e, 'cfg) streamer \<Rightarrow> bool" where
  "on_chain R chain s \<longleftrightarrow>
     (\<forall>e \<in> set (queue s). chain_entry R (stack (rollup_config s)) chain e) \<and> stubs_on_chain R chain s"

lemma on_chain_filter_message:
  assumes "streamer_inv R s" and "on_chain R chain s" and "chain_entry R (stack (rollup_config s)) chain e"
  shows "on_chain R chain (filter_message R e s)"
proof -
  let ?q = "insert_entry R e (queue s)" and ?P = "chain_entry R (stack (rollup_config s)) chain"
  have q: "\<forall>x \<in> set ?q. ?P x" using assms(2,3) by (simp add: on_chain_def insert_entry_def)
  have "?q \<noteq> []" by (simp add: insert_entry_def vec_insert_def)
  then have l: "?P (last ?q)" using q last_in_set by blast
  show ?thesis
    unfolding filter_message_cases [OF assms(1)] Let_def
    using assms(2) q l
    by (auto simp: on_chain_def stubs_on_chain_def chain_entry_def bt_get_insert
        split: if_splits dest: in_set_butlastD)
qed

lemma on_chain_filter_messages:
  assumes "streamer_inv R s" and "on_chain R chain s" and "\<forall>e \<in> set es. chain_entry R (stack (rollup_config s)) chain e"
  shows "on_chain R chain (filter_messages R es s)"
  using assms
proof (induction es arbitrary: s)
  case (Cons e es)
  then show ?case
    using on_chain_filter_message [of R s chain e] streamer_inv_filter_message [of R s e]
    by (simp add: filter_messages_def)
qed (simp add: filter_messages_def)

lemma oldest_full_filter_messages:
  "streamer_inv R s \<Longrightarrow> oldest_full R s \<Longrightarrow> oldest_full R (filter_messages R es s)"
proof (induction es arbitrary: s)
  case (Cons e es)
  then show ?case
    using oldest_full_filter_message [of R s e] streamer_inv_filter_message [of R s e]
    by (simp add: filter_messages_def)
qed (simp add: filter_messages_def)

lemma insert_promoted_on_chain:
  assumes "\<forall>k e. bt_get fetched k = Some e \<longrightarrow> e \<in> chain_entries R (stack (rollup_config s)) chain"
    and "bt_invar fetched" and "on_chain R chain s" and "bt_invar (stubs s)"
    and "\<forall>(k, h) \<in> set todo. h \<noteq> u64_max"
  shows "on_chain R chain (insert_promoted R todo fetched s)"
  using assms
proof (induction R todo fetched s rule: insert_promoted.induct)
  case (2 R sq h todo fetched s)
  note prems = "2.prems"
  show ?case
  proof (cases "bt_get fetched sq")
    case None
    then show ?thesis using "2.IH"(1) [OF None] prems by simp
  next
    case (Some e)
    show ?thesis
    proof (cases "r_hotshot_height R e = h")
      case True
      let ?s = "s\<lparr>queue := vec_insert (partition_point (\<lambda>x. r_sequence_number R x < sq) (queue s)) e (queue s),
        stubs := bt_remove sq (stubs s)\<rparr>"
      have "on_chain R chain ?s"
        using prems(1,3,4,5) Some True
        by (auto simp: on_chain_def stubs_on_chain_def chain_entry_def bt_get_remove)
      then show ?thesis
        using "2.IH"(2) [OF Some _ refl] prems Some True bt_get_remove [OF prems(2)]
          bt_invar_remove [OF prems(2)] bt_invar_remove [OF prems(4)] by simp
    next
      case False
      then show ?thesis using Some prems(3) by simp
    qed
  qed
qed simp

context rollup_contract
begin

lemma promote_on_chain:
  assumes "streamer_inv R s" and "on_chain R chain s"
    and "chain_reader chain (namespace_id (rollup_config s)) client"
  shows "on_chain R chain (promote_stubs R client s)"
proof -
  have "on_chain R chain (insert_promoted R (take n (bt_iter (stubs s))) m s)"
    if m: "fetch_windows R client (rollup_config s) ex
        (btree_set (map snd (take n (bt_iter (stubs s))))) [] = Some m" for n ex m
  proof (rule insert_promoted_on_chain)
    let ?todo = "take n (bt_iter (stubs s))"
    show todo: "\<forall>(k, h) \<in> set ?todo. h \<noteq> u64_max"
      using take_stubs(2) [OF streamer_invD(2) [OF assms(1)], of n] assms(2)
      by (fastforce simp: on_chain_def stubs_on_chain_def)
    then have ne: "\<forall>h \<in> set (btree_set (map snd ?todo)). h \<noteq> u64_max" by fastforce
    show "\<forall>k e. bt_get m k = Some e \<longrightarrow> e \<in> chain_entries R (stack (rollup_config s)) chain"
      using fetch_windows_complete [OF assms(3) sorted_btree_set(1) ne, of ex "[]"] m
      by (auto simp: bt.get_empty)
    have "keyed R ([] :: (u64, 'e) btree_map)" by (simp add: keyed_def bt.get_empty)
    from keyed_fetch_windows [OF m this] show "bt_invar m" by (simp add: keyed_def)
  qed (use assms streamer_invD(2) [OF assms(1)] in simp_all)
  then show ?thesis using assms(2) by (auto simp: promote_stubs_def Let_def split: option.splits)
qed

lemma finalization_on_chain:
  assumes "streamer_inv R s" and "on_chain R chain s"
    and "chain_reader chain (namespace_id (rollup_config s)) client"
  shows "on_chain R chain (handle_finalization R client idx s)"
proof -
  have "on_chain R chain (pruned R idx s)"
    using assms(2) stubs_on_chain_pruned [OF _ assms(1)] by (auto simp: on_chain_def pruned_def)
  moreover have "rollup_config (pruned R idx s) = rollup_config s" by (simp add: pruned_def)
  ultimately have "on_chain R chain (promote_stubs R client (pruned R idx s))"
    using promote_on_chain [OF streamer_inv_pruned [OF assms(1)]] assms(3) by simp
  then show ?thesis
    unfolding handle_finalization_eq [OF assms(1)]
    using assms(2) by (simp add: on_chain_def stubs_on_chain_def)
qed

lemma parsed_chain_entry:
  assumes "unat height + n < 2 ^ 64"
    and "e \<in> set (r_parse_hotshot_transactions R cfg (map (\<lambda>i. chain (height + of_nat i)) [0..<n]) height)"
  shows "chain_entry R cfg chain e"
proof -
  obtain i where i: "e \<in> chain_entries R cfg chain" "i < n" "r_hotshot_height R e = height + of_nat i"
    using assms(2) unfolding parsed_on_chain by blast
  have "unat (height + of_nat i) = unat height + i"
    using i(2) assms(1) unat_of_nat_u64 [of i] unat_add_no_overflow [of height "of_nat i"] by simp
  then have "unat (height + of_nat i) \<noteq> unat u64_max"
    using i(2) assms(1) by (simp add: unat_u64_max)
  then show ?thesis using i by (auto simp: chain_entry_def)
qed

lemma chain_reachable_inv:
  assumes "chain_reachable R chain cfg rcfg s" and "unique_heights R (stack rcfg) chain"
  shows "streamer_inv R s \<and> oldest_full R s \<and> on_chain R chain s \<and> rollup_config s = rcfg \<and> config s = cfg"
  using assms(1)
proof (induction rule: chain_reachable.induct)
  case start
  show ?case
    by (simp add: streamer_new_def streamer_inv_def oldest_full_def on_chain_def stubs_on_chain_def
        seen_def queue_map_def bt_get_def)
next
  case (deliver s height n)
  then show ?case
    using filter_messages_inv oldest_full_filter_messages on_chain_filter_messages parsed_chain_entry by fastforce
next
  case (finalize s client idx)
  then show ?case
    using handle_finalization_refines(2) oldest_full_finalization finalization_on_chain assms(2)
      handle_finalization_fields(3,4)
    by (metis on_chain_def)
qed

end

text \<open>A queue below all stubs, full when there are stubs, is the front of the sorted key set.\<close>

lemma oldest_full_front:
  assumes "streamer_inv R s" and "oldest_full R s"
  shows "map (r_sequence_number R) (queue s) =
    take (max_full_queue_entries (config s)) (sorted_list_of_set (dom (seen R s)))"
proof -
  let ?q = "map (r_sequence_number R) (queue s)" and ?k = "map fst (stubs s)"
  note inv = streamer_invD [OF assms(1)]
  have "sorted_wrt (<) (?q @ ?k)"
    using inv(1,2) assms(2) by (auto simp: bt_invar_def sorted_wrt_append oldest_full_def)
  moreover have "set (?q @ ?k) = dom (seen R s)"
    using bt.iter_keys [OF inv(2)] by (auto simp: dom_seen bt_iter_def)
  ultimately have "sorted_list_of_set (dom (seen R s)) = ?q @ ?k"
    by (metis strict_sorted_equal sorted_list_of_set.strict_sorted_key_list_of_set
        sorted_list_of_set.set_sorted_key_list_of_set List.finite_set)
  then show ?thesis using assms(2) inv(4) by (auto simp: oldest_full_def)
qed

subsection \<open>A reader that may fail but does not lie\<close>

text \<open>
  What the light client's verification promises: the blocks an answer holds are those of the chain from the requested
  height on. The answer may be an error or shorter than asked for.
\<close>

definition honest_reader :: "(u64 \<Rightarrow> 'tx list) \<Rightarrow> u64 \<Rightarrow> 'tx espresso_reader \<Rightarrow> bool" where
  "honest_reader chain ns client \<longleftrightarrow>
     (\<forall>start stop txns. namespace_transactions_in_range client ns start stop = Inr txns \<longrightarrow>
        txns = map (\<lambda>i. chain (start + of_nat i)) [0..<length txns])"

context rollup_contract
begin

lemma honest_entries:
  assumes "honest_reader chain (namespace_id rcfg) client"
    and "namespace_transactions_in_range client (namespace_id rcfg) start stop = Inr txns"
  shows "set (r_parse_hotshot_transactions R (stack rcfg) txns start) \<subseteq> chain_entries R (stack rcfg) chain"
proof -
  have "txns = map (\<lambda>i. chain (start + of_nat i)) [0..<length txns]"
    using assms by (simp add: honest_reader_def)
  then show ?thesis
    using parsed_on_chain [of _ "stack rcfg" chain start "length txns"] by force
qed

lemma honest_reader_all:
  "honest_reader chain (namespace_id rcfg) client \<Longrightarrow>
     reader_all R rcfg client (\<lambda>e. e \<in> chain_entries R (stack rcfg) chain)"
  using honest_entries by (fastforce simp: reader_all_def)

end

end
