(* ===== verification/Nitro.thy ===== *)
theory Nitro
  imports Nitro_Payload Nitro_Verify Streamer_Chain
begin

text \<open>
  The Nitro stack as an instance of the \<open>Rollup\<close> trait (\<open>src/rollups/nitro/nitro.rs\<close>): parsing of Espresso
  blocks, the trait's dictionary, its contract, and what the event loop gives when it runs with it. The
  third-party functions are collected in \<open>nitro_libs\<close>. A transaction is its payload.
\<close>

subsection \<open>Definitions\<close>

record nitro_libs =
  nl_crypto :: crypto
  nl_rlp :: rlp_lib
  nl_json :: json
  nl_brotli :: brotli_reader
  nl_rlp_bytes :: rlp_bytes_decoder

definition parse_transaction ::
  "nitro_libs \<Rightarrow> nitro_config \<Rightarrow> u64 \<Rightarrow> bytes \<Rightarrow> nitro_rollup_queue_entry list" where
  "parse_transaction N cfg height tx =
     (case parse_nitro_hotshot_payload (nl_json N) cfg tx
             (verify_broadcast_feed_message_signature (nl_crypto N) (nl_rlp N)) of
        Inr broadcast_messages \<Rightarrow>
          map (\<lambda>msg. \<lparr>feed_message = msg, hotshot_height = height\<rparr>) broadcast_messages
      | Inl e \<Rightarrow> legacy_parse_nitro_hotshot_payload (nl_crypto N) (nl_rlp N) cfg tx height)"

fun parse_hotshot_transactions ::
  "nitro_libs \<Rightarrow> nitro_config \<Rightarrow> bytes list list \<Rightarrow> u64 \<Rightarrow> nitro_rollup_queue_entry list" where
  "parse_hotshot_transactions N cfg [] height = []"
| "parse_hotshot_transactions N cfg (block_txs # blocks) height =
     concat (map (parse_transaction N cfg height) block_txs) @
     parse_hotshot_transactions N cfg blocks (height + 1)"

definition nitro_rollup ::
  "nitro_libs \<Rightarrow> (nitro_config, bytes, nitro_rollup_queue_entry, batch_message, broadcast_feed_message,
     batch_cursor) rollup" where
  "nitro_rollup N =
     \<lparr>r_sequence_number = entry_sequence_number,
      r_hotshot_height = hotshot_height,
      r_parse_batch_data = parse_batch (nl_brotli N) (nl_rlp_bytes N),
      r_convert_entry_to_feed_message = feed_message,
      r_parse_hotshot_transactions = parse_hotshot_transactions N,
      r_verify_batch_messages = verify_batch_messages,
      r_batch_cursor_default = batch_cursor_default\<rparr>"

subsection \<open>Authenticity\<close>

text \<open>
  An entry is authentic if a trusted sequencer signed its feed message, or if it stands in a legacy
  payload whose messages a legacy signer signed.
\<close>

definition legacy_signed :: "nitro_libs \<Rightarrow> nitro_config \<Rightarrow> bytes \<Rightarrow> nitro_rollup_queue_entry \<Rightarrow> bool" where
  "legacy_signed N cfg tx e \<longleftrightarrow>
     (case parse_legacy_payload_bytes (nl_crypto N) tx of
        Inl err \<Rightarrow> False
      | Inr parsed \<Rightarrow>
          (case recover_signer_address (nl_crypto N) (messages_hash parsed) (legacy_signature parsed) of
             Inl err \<Rightarrow> False
           | Inr signer \<Rightarrow> signer \<in> set (legacy_signer_addresses cfg)) \<and>
          (\<exists>(idx, msg) \<in> set (zip (indices parsed) (legacy_messages parsed)).
             idx = entry_sequence_number e \<and>
             decode_exact (decode_message_with_metadata (nl_rlp N)) msg = Inr (feed_message_body (feed_message e))))"

definition authentic :: "nitro_libs \<Rightarrow> nitro_config \<Rightarrow> nitro_rollup_queue_entry \<Rightarrow> bool" where
  "authentic N cfg e \<longleftrightarrow>
     is_ok (verify_broadcast_feed_message_signature (nl_crypto N) (nl_rlp N) (chain_id cfg)
              (trusted_sequencer_addresses (feed_client (feed cfg))) (feed_message e)) \<or>
     (\<exists>tx. legacy_signed N cfg tx e)"

subsection \<open>Lemmas\<close>

lemma nitro_rollup_simps [simp]:
  "r_sequence_number (nitro_rollup N) = entry_sequence_number"
  "r_hotshot_height (nitro_rollup N) = hotshot_height"
  "r_parse_batch_data (nitro_rollup N) = parse_batch (nl_brotli N) (nl_rlp_bytes N)"
  "r_convert_entry_to_feed_message (nitro_rollup N) = feed_message"
  "r_parse_hotshot_transactions (nitro_rollup N) = parse_hotshot_transactions N"
  "r_verify_batch_messages (nitro_rollup N) = verify_batch_messages"
  "r_batch_cursor_default (nitro_rollup N) = batch_cursor_default"
  by (simp_all add: nitro_rollup_def)

lemma decode_legacy_mem:
  "e \<in> set (decode_legacy_messages L height ims) \<Longrightarrow>
     hotshot_height e = height \<and> (\<exists>(idx, msg) \<in> set ims. idx = entry_sequence_number e \<and>
       decode_exact (decode_message_with_metadata L) msg = Inr (feed_message_body (feed_message e)))"
  by (induction L height ims rule: decode_legacy_messages.induct)
     (auto simp: legacy_entry_def entry_sequence_number_def split: sum.splits)

lemma legacy_parse_mem:
  assumes "e \<in> set (legacy_parse_nitro_hotshot_payload (nl_crypto N) (nl_rlp N) cfg tx height)"
  shows "hotshot_height e = height \<and> legacy_signed N cfg tx e"
  using assms decode_legacy_mem
  by (fastforce simp: legacy_parse_nitro_hotshot_payload_def legacy_signed_def split: sum.splits if_splits)

lemma parse_messages_verified:
  "parse_messages J verify rest acc = Inr ms \<Longrightarrow> \<forall>m \<in> set acc. is_ok (verify m) \<Longrightarrow>
     \<forall>m \<in> set ms. is_ok (verify m)"
proof (induction J verify rest acc arbitrary: ms rule: parse_messages.induct)
  case (1 J verify rest acc)
  show ?case
  proof (cases "rest = []")
    case True
    then show ?thesis using "1.prems" by (subst (asm) parse_messages.simps) simp
  next
    case False
    let ?n = "unat (from_be_bytes (take LEN_SIZE rest))" and ?b = "drop LEN_SIZE rest"
    obtain m where l: "\<not> length rest < LEN_SIZE" "\<not> length ?b < ?n"
      "js_msg_from_slice J (take ?n ?b) = Inr m"
      and p: "parse_messages J verify (drop ?n ?b)
          (case verify m of Inr u \<Rightarrow> acc @ [m] | Inl e \<Rightarrow> acc) = Inr ms"
      using "1.prems"(1) False unfolding parse_messages.simps [of J verify rest]
      by (auto simp: Let_def split: if_splits sum.splits)
    show ?thesis
      by (rule "1.IH" [OF False l(1) refl refl l(2,3) p])
         (use "1.prems"(2) in \<open>auto split: sum.splits\<close>)
  qed
qed

lemma parse_transaction_mem:
  assumes "e \<in> set (parse_transaction N cfg height tx)"
  shows "hotshot_height e = height \<and> authentic N cfg e"
proof -
  let ?v = "verify_broadcast_feed_message_signature (nl_crypto N) (nl_rlp N)"
  show ?thesis
  proof (cases "parse_nitro_hotshot_payload (nl_json N) cfg tx ?v")
    case (Inl err)
    then show ?thesis
      using assms legacy_parse_mem [of e N cfg tx height] by (auto simp: parse_transaction_def authentic_def)
  next
    case (Inr ms)
    have "\<forall>m \<in> set ms. is_ok (?v (chain_id cfg) (trusted_sequencer_addresses (feed_client (feed cfg))) m)"
      using Inr parse_messages_verified
      by (fastforce simp: parse_nitro_hotshot_payload_def Let_def split: if_splits sum.splits)
    then show ?thesis using assms Inr by (auto simp: parse_transaction_def authentic_def)
  qed
qed

interpretation nitro: rollup_contract "nitro_rollup N" for N
proof (unfold_locales, goal_cases)
  case (1 cfg h)
  show ?case by simp
next
  case (2 cfg b bs h)
  show ?case by simp
next
  case (3 e cfg b h)
  then show ?case using parse_transaction_mem by auto
qed

lemma parse_hotshot_authentic:
  "e \<in> set (parse_hotshot_transactions N cfg blocks height) \<Longrightarrow> authentic N cfg e"
  by (induction N cfg blocks height rule: parse_hotshot_transactions.induct)
     (auto dest: parse_transaction_mem)

lemma nitro_parsed_all: "parsed_all (nitro_rollup N) cfg (authentic N cfg)"
  using parse_hotshot_authentic by (auto simp: parsed_all_def)

subsection \<open>What a positive reply rests on\<close>

text \<open>
  The posted bytes parse to messages that a run of authentic queue entries from the cursor's position on matches.
\<close>

definition batch_backed ::
  "nitro_libs \<Rightarrow> nitro_config \<Rightarrow> nitro_rollup_queue_entry list \<Rightarrow> batch_cursor \<Rightarrow> bytes \<Rightarrow> bool" where
  "batch_backed N cfg q ctx batch_data \<longleftrightarrow>
     (\<exists>ms pos. parse_batch (nl_brotli N) (nl_rlp_bytes N) batch_data = Inr ms \<and> ms \<noteq> [] \<and>
        pos + length ms \<le> length q \<and> entry_sequence_number (q ! pos) = next_batch_start_pos ctx \<and>
        (\<forall>i < length ms. let e = q ! (pos + i) in
           authentic N cfg e \<and> slot_matches (ms ! i) e \<and>
           entry_delayed e = last_batch_delayed_messages_read ctx + of_nat (delayed_count (take (Suc i) ms))))"

lemma verification_backed:
  assumes "(run_step (nitro_rollup N) try_send)\<^sup>*\<^sup>* (run_init cfg rcfg idx ch) s"
    and "success (handle_verification (nitro_rollup N) fetched batch_data (rs_streamer s))"
  shows "batch_backed N (stack rcfg) (queue (rs_streamer s)) (batch_context (nitro_rollup N) fetched) batch_data"
proof -
  let ?q = "queue (rs_streamer s)" and ?c = "batch_context (nitro_rollup N) fetched"
  have "run_inv (nitro_rollup N) s" by (rule run_inv_reachable [OF assms(1)])
  then have sorted: "strictly_sorted entry_sequence_number ?q"
    using streamer_invD(1) by (fastforce simp: run_inv_def)
  have auth: "\<forall>e \<in> set ?q. authentic N (stack rcfg) e"
    using run_queue_all [OF assms(1) nitro_parsed_all] by blast
  obtain ms where ms: "parse_batch (nl_brotli N) (nl_rlp_bytes N) batch_data = Inr ms"
    and ok: "success (verify_batch_messages ms ?q ?c)"
    using assms(2) by (auto simp: handle_verification_def split: sum.splits)
  obtain pos where pos: "ms \<noteq> []" "pos < length ?q" "entry_sequence_number (?q ! pos) = next_batch_start_pos ?c"
    "batch_matches ms (drop pos ?q) (last_batch_delayed_messages_read ?c)"
    using ok unfolding verify_success_iff [OF sorted] by blast
  have len: "pos + length ms \<le> length ?q" using pos(2,4) by (auto simp: batch_matches_def)
  have "\<forall>i < length ms. authentic N (stack rcfg) (?q ! (pos + i))"
    using auth len nth_mem [of "pos + i" ?q for i] by auto
  then show ?thesis
    unfolding batch_backed_def
    using ms pos len by (intro exI [of _ ms] exI [of _ pos]) (auto simp: batch_matches_def Let_def)
qed

text \<open>The range a positive reply reports starts at the cursor and has the length of the batch.\<close>

lemma verification_range:
  assumes "(run_step (nitro_rollup N) try_send)\<^sup>*\<^sup>* (run_init cfg rcfg idx ch) s"
    and "success (handle_verification (nitro_rollup N) fetched batch_data (rs_streamer s))"
  shows "\<exists>ms. parse_batch (nl_brotli N) (nl_rlp_bytes N) batch_data = Inr ms \<and>
    start_message_position (handle_verification (nitro_rollup N) fetched batch_data (rs_streamer s)) =
      next_batch_start_pos (batch_context (nitro_rollup N) fetched) \<and>
    end_message_position (handle_verification (nitro_rollup N) fetched batch_data (rs_streamer s)) =
      next_batch_start_pos (batch_context (nitro_rollup N) fetched) + of_nat (length ms) - 1"
proof -
  let ?q = "queue (rs_streamer s)" and ?c = "batch_context (nitro_rollup N) fetched"
  have "run_inv (nitro_rollup N) s" by (rule run_inv_reachable [OF assms(1)])
  then have sorted: "strictly_sorted entry_sequence_number ?q"
    using streamer_invD(1) by (fastforce simp: run_inv_def)
  obtain ms where ms: "parse_batch (nl_brotli N) (nl_rlp_bytes N) batch_data = Inr ms"
    and v: "handle_verification (nitro_rollup N) fetched batch_data (rs_streamer s) = verify_batch_messages ms ?q ?c"
    using assms(2) by (auto simp: handle_verification_def split: sum.splits)
  show ?thesis
    using assms(2) ms unfolding v verify_batch_messages_cases [OF sorted, of ms ?c]
    by (auto simp: vr_success_def vr_failure_def Let_def split: if_splits)
qed

end
