(* ===== verification/Concrete.thy ===== *)
theory Concrete
  imports Nitro "HOL-Library.Code_Target_Nat"
begin

text \<open>
  Concrete third-party functions and inputs at which the witnesses of the other theories evaluate the model:
  a signature scheme with one key, a JSON codec that keeps the position and a content byte of a message,
  Brotli as the identity and byte strings with a one-byte length.
\<close>

definition c_crypto :: crypto where
  "c_crypto = \<lparr>cr_keccak256 = (\<lambda>b. replicate 31 0 @ [of_nat (length b)]), cr_high_s = (\<lambda>s. False),
     cr_recover = (\<lambda>rs parity h. Inr (take 20 rs))\<rparr>"

definition c_rlp :: rlp_lib where
  "c_rlp = \<lparr>rl_header = (\<lambda>l n. [of_nat n]), rl_length_of_length = (\<lambda>n. 1), rl_u8 = (\<lambda>x. [x]),
     rl_u64 = to_be_bytes, rl_u256 = (\<lambda>n. nat_to_be 32 n), rl_address = (\<lambda>a. a), rl_b256 = (\<lambda>a. a),
     rl_bytes = (\<lambda>b. b), rl_stats = (\<lambda>st. []), rl_decode_raw = (\<lambda>b. Inl InputTooShort),
     rl_d_u8 = (\<lambda>b. Inl InputTooShort), rl_d_u64 = (\<lambda>b. Inl InputTooShort),
     rl_d_u256 = (\<lambda>b. Inl InputTooShort), rl_d_address = (\<lambda>b. Inl InputTooShort),
     rl_d_bytes = (\<lambda>b. Inl InputTooShort), rl_d_stats = (\<lambda>b. Inl InputTooShort)\<rparr>"

definition c_key :: address where
  "c_key = replicate 20 7"

definition c_message :: "u64 \<Rightarrow> u8 \<Rightarrow> broadcast_feed_message" where
  "c_message n c =
     \<lparr>sequence_number = n,
      feed_message_body = \<lparr>message = Some \<lparr>header = None, l2msg = [c], legacy_batch_gas_cost = None,
        data_stats = None\<rparr>, delayed_messages_read = 1\<rparr>,
      signature = replicate 64 7 @ [0], block_metadata = [], cumulative_sum_msg_size = 0, block_hash = None\<rparr>"

definition c_json :: json where
  "c_json = \<lparr>js_header_to_vec = (\<lambda>h. Inr [49]),
     js_header_from_slice = (\<lambda>b. if b = [49] then Inr V1 else Inl ''json''),
     js_msg_to_vec = (\<lambda>m. case message (feed_message_body m) of
        Some l \<Rightarrow> if m = c_message (sequence_number m) (hd (l2msg l))
                  then Inr (to_be_bytes (sequence_number m) @ [hd (l2msg l)]) else Inl ''json''
      | None \<Rightarrow> Inl ''json''),
     js_msg_from_slice = (\<lambda>b. if length b = 9 then Inr (c_message (from_be_bytes (take 8 b)) (b ! 8))
                              else Inl ''json'')\<rparr>"

definition c_brotli :: brotli_reader where
  "c_brotli input n = Inr (take n input)"

fun c_rlp_bytes :: rlp_bytes_decoder where
  "c_rlp_bytes [] = Inl InputTooShort"
| "c_rlp_bytes (n # rest) =
     (if unat n \<le> length rest then Inr (take (unat n) rest, drop (unat n) rest) else Inl InputTooShort)"

definition c_libs :: nitro_libs where
  "c_libs = \<lparr>nl_crypto = c_crypto, nl_rlp = c_rlp, nl_json = c_json, nl_brotli = c_brotli,
     nl_rlp_bytes = c_rlp_bytes\<rparr>"

definition c_nitro_config :: nitro_config where
  "c_nitro_config = \<lparr>legacy_signer_addresses = [], chain_id = 42161,
     feed = feed_config_default\<lparr>feed_client := broadcaster_client_config_default\<lparr>trusted_sequencer_addresses := [c_key]\<rparr>,
       web_socket_url := ''ws://feed''\<rparr>,
     l1_http_url = ''http://l1'', l1_ws_url = ''ws://l1'', sequencer_inbox_address = replicate 20 1,
     log_scan_step = default_log_scan_step, max_l1_blocks_to_scan_on_startup = 0,
     l1_finalized_poll_interval_ms = default_l1_finalized_poll_interval_ms\<rparr>"

definition c_rollup_config :: "nitro_config rollup_config" where
  "c_rollup_config = \<lparr>namespace_id = 7, stack = c_nitro_config\<rparr>"

definition c_streamer_config :: streamer_config where
  "c_streamer_config = \<lparr>initial_backoff_ms = 1000, max_backoff_ms = 30000, retry_broadcast_delay_ms = 300,
     starting_pos = 0, starting_hotshot_height = 0, max_full_queue_entries = 2,
     hotshot_stall_warn_ms = 30000, progress_log_interval_ms = 15000\<rparr>"

definition c_entry :: "u64 \<Rightarrow> u8 \<Rightarrow> u64 \<Rightarrow> nitro_rollup_queue_entry" where
  "c_entry n c h = \<lparr>feed_message = c_message n c, hotshot_height = h\<rparr>"

definition c_payload :: "broadcast_feed_message list \<Rightarrow> bytes" where
  "c_payload ms = fst (build_espresso_tx_payload c_json ms)"

text \<open>A channel of capacity four.\<close>

definition c_try_send ::
  "broadcast_feed_message list \<Rightarrow> broadcast_feed_message \<Rightarrow> try_send_error + broadcast_feed_message list" where
  "c_try_send ch m = (if length ch < 4 then Inr (ch @ [m]) else Inl Full)"

text \<open>A chain with one message in each of the blocks one to five, and a reader that serves it.\<close>

definition c_chain :: "u64 \<Rightarrow> bytes list" where
  "c_chain h = (if 1 \<le> h \<and> h \<le> 5 then [c_payload [c_message h (ucast h)]] else [])"

definition c_reader :: "bytes espresso_reader" where
  "c_reader = \<lparr>block_height = Inr 6,
     namespace_transactions_in_range = (\<lambda>ns start stop.
       Inr (map (\<lambda>i. c_chain (start + of_nat i)) [0..<unat (stop - start)]))\<rparr>"

definition c_run_init :: "(nitro_rollup_queue_entry, nitro_config, broadcast_feed_message list) run_state" where
  "c_run_init = run_init c_streamer_config c_rollup_config 0 []"

definition c_run1 :: "(nitro_rollup_queue_entry, nitro_config, broadcast_feed_message list) run_state" where
  "c_run1 = on_transactions (nitro_rollup c_libs) c_try_send (map (\<lambda>i. c_chain (of_nat i)) [0..<4]) 0 c_run_init"

text \<open>A batch of the first two messages.\<close>

definition c_batch :: bytes where
  "c_batch = [0, 2, 0, 1, 2, 0, 2]"

lemma c_entries_1_2_3:
  "parse_hotshot_transactions c_libs c_nitro_config (map (\<lambda>i. c_chain (of_nat i)) [0..<4]) 0 =
     [c_entry 1 1 1, c_entry 2 2 2, c_entry 3 3 3]"
  by code_simp

lemma c_run1_eq:
  "c_run1 =
     (let (st, rt, ch, sent) = try_broadcast_feed_message (nitro_rollup c_libs) c_try_send
            (filter_messages (nitro_rollup c_libs) [c_entry 1 1 1, c_entry 2 2 2, c_entry 3 3 3]
               (rs_streamer c_run_init)) (rs_retry c_run_init) (rs_chan c_run_init)
      in c_run_init\<lparr>rs_streamer := st, rs_retry := rt, rs_chan := ch, rs_sent := rs_sent c_run_init @ sent\<rparr>)"
proof -
  have "stack (rollup_config (rs_streamer c_run_init)) = c_nitro_config"
    by (simp add: c_run_init_def run_init_def streamer_new_def c_rollup_config_def)
  then show ?thesis
    by (simp add: c_run1_def on_transactions_def handle_hotshot_transactions_def c_entries_1_2_3)
qed

lemma c_run1_queue:
  "queue (rs_streamer c_run1) = [c_entry 1 1 1, c_entry 2 2 2]" "stubs (rs_streamer c_run1) = [(3, 3)]"
  "rs_sent c_run1 = [c_entry 1 1 1, c_entry 2 2 2]" "rs_chan c_run1 = [c_message 1 1, c_message 2 2]"
  unfolding c_run1_eq by code_simp+

lemma c_run1_reachable: "(run_step (nitro_rollup c_libs) c_try_send)\<^sup>*\<^sup>* c_run_init c_run1"
  unfolding c_run1_def by (rule r_into_rtranclp) (rule run_step.transactions)

lemma c_json_inverts: "json_inverts c_json"
  unfolding json_inverts_def
proof (intro conjI allI impI)
  fix h bs assume "js_header_to_vec c_json h = Inr bs"
  then show "js_header_from_slice c_json bs = Inr h" by (cases h) (simp add: c_json_def)
next
  fix m bs assume e: "js_msg_to_vec c_json m = Inr bs"
  then obtain l where l: "message (feed_message_body m) = Some l"
      "m = c_message (sequence_number m) (hd (l2msg l))"
      "bs = to_be_bytes (sequence_number m) @ [hd (l2msg l)]"
    by (auto simp: c_json_def split: option.splits if_splits)
  have "js_msg_from_slice c_json bs = Inr (c_message (sequence_number m) (hd (l2msg l)))"
    by (simp add: c_json_def l(3) nth_append)
  then show "js_msg_from_slice c_json bs = Inr (m\<lparr>cumulative_sum_msg_size := 0\<rparr>)"
    using l(2) by (metis (no_types, lifting) c_message_def broadcast_feed_message.update_convs(5))
qed

lemma c_header: "js_header_to_vec c_json V1 = Inr [49]"
  by (simp add: c_json_def)

lemma c_header_fits: "length (frame [49]) \<le> HOTSHOT_TX_PAYLOAD_MAX_SIZE"
  by (simp add: LEN_SIZE_def HOTSHOT_TX_PAYLOAD_MAX_SIZE_def)

end
