(* ===== verification/Props_Streamer.thy ===== *)
theory Props_Streamer
  imports Concrete
begin

text \<open>
  The properties of the streamer and its loops: the refinement of admission and finalization to a map of
  first-seen heights, the invariant of the event loop, the shape of the broadcast feed, the content of the
  queue on a chain, and the coverage of the poller.
\<close>

subsection \<open>Admission and finalization refine the map of first-seen heights\<close>

text \<open>
  C14. Adding parsed entries to the streamer, with any capacity and any evictions to
  stubs, changes the map from held sequence numbers to heights exactly as admitting them one after the other:
  an entry below the starting position or already held changes nothing, any other entry records its height.
  The invariant (sorted queue within its capacity, stubs disjoint from it) is kept.
\<close>

theorem filter_messages_refines:
  assumes "streamer_inv R s"
  shows "seen R (filter_messages R es s) = fold (admit R (starting_pos (config s))) es (seen R s) \<and>
         streamer_inv R (filter_messages R es s)"
  using seen_filter_messages [OF assms] filter_messages_inv [OF assms] by blast

lemma c_new_inv: "streamer_inv R (streamer_new cfg rcfg)"
  by (simp add: streamer_new_def streamer_inv_def seen_def queue_map_def bt_get_def)

theorem filter_messages_refines_witness:
  "streamer_inv (nitro_rollup c_libs) (streamer_new c_streamer_config c_rollup_config) \<and>
   seen (nitro_rollup c_libs) (filter_messages (nitro_rollup c_libs) [c_entry 4 1 9, c_entry 4 2 10]
     (streamer_new c_streamer_config c_rollup_config)) = [4 \<mapsto> 9]"
  using filter_messages_refines [OF c_new_inv [of "nitro_rollup c_libs" c_streamer_config c_rollup_config],
      of "[c_entry 4 1 9, c_entry 4 2 10]"] c_new_inv
  by (simp add: admit_def c_streamer_config_def streamer_new_def seen_def queue_map_def bt_get_def c_entry_def
      c_message_def entry_sequence_number_def)

text \<open>
  C15. A new finalized index forgets the sequence numbers up to it, whatever the
  promotion of stubs does and whether or not the reader answers; an old index changes no entry. The broadcast
  position and the finalized index move to the maximum, and the invariant is kept.
\<close>

theorem handle_finalization_refines_map:
  assumes "streamer_inv R s"
  shows "seen R (handle_finalization R client idx s) =
      (if idx \<le> finalized_idx s then seen R s else forget_upto idx (seen R s)) \<and>
    finalized_idx (handle_finalization R client idx s) = max idx (finalized_idx s) \<and>
    last_broadcast_position (handle_finalization R client idx s) = max idx (last_broadcast_position s) \<and>
    streamer_inv R (handle_finalization R client idx s)"
  using handle_finalization_refines [OF assms] handle_finalization_fields [OF assms] by blast

theorem handle_finalization_refines_map_witness:
  "streamer_inv (nitro_rollup c_libs) (rs_streamer c_run1) \<and>
   finalized_idx (handle_finalization (nitro_rollup c_libs) c_reader 1 (rs_streamer c_run1)) =
     max 1 (finalized_idx (rs_streamer c_run1))"
proof -
  have "streamer_inv (nitro_rollup c_libs) (rs_streamer c_run1)"
    using run_inv_reachable [OF c_run1_reachable [unfolded c_run_init_def]] by (simp add: run_inv_def)
  with handle_finalization_refines_map [OF this] show ?thesis by blast
qed

subsection \<open>The event loop\<close>

text \<open>
  C13. In every state the event loop reaches, through any interleaving of finalizations,
  verifications, deliveries, retry timers and reads of the feed relay, the streamer's invariant holds, and a
  retry is pending exactly when the scheduled flag is set, so there is never more than one timer or signal.
\<close>

theorem event_loop_invariant:
  assumes "(run_step R try_send)\<^sup>*\<^sup>* (run_init cfg rcfg idx ch) s"
  shows "streamer_inv R (rs_streamer s) \<and>
    length (sleepers (rs_retry s)) + rs_signals s = (if scheduled (rs_retry s) then 1 else 0)"
  using run_inv_reachable [OF assms] by (simp add: run_inv_def retry_inv_def)

theorem event_loop_invariant_witness:
  "streamer_inv (nitro_rollup c_libs) (rs_streamer c_run1) \<and>
   length (sleepers (rs_retry c_run1)) + rs_signals c_run1 = (if scheduled (rs_retry c_run1) then 1 else 0)"
  by (rule event_loop_invariant [OF c_run1_reachable [unfolded c_run_init_def]])

text \<open>
  C8. The positions sent to the feed relay are strictly increasing, and each is the successor of
  the previous one (of zero for the first) or of an index L1 had finalized: no message is sent twice, out of
  order, or past a gap that L1 finalization does not cover.
\<close>

theorem feed_gap_free:
  assumes "(run_step R try_send)\<^sup>*\<^sup>* (run_init cfg rcfg idx ch) s"
  shows "feed_chain (unat ` set (rs_finals s)) 0 (positions R (rs_sent s)) \<and>
         sorted_wrt (<) (positions R (rs_sent s))"
  using run_inv_reachable [OF assms] feed_chain_sorted
  by (fastforce simp: run_inv_def feed_at_def)

theorem feed_gap_free_witness:
  "positions (nitro_rollup c_libs) (rs_sent c_run1) = [1, 2] \<and>
   feed_chain (unat ` set (rs_finals c_run1)) 0 (positions (nitro_rollup c_libs) (rs_sent c_run1))"
  using feed_gap_free [OF c_run1_reachable [unfolded c_run_init_def]]
  by (simp add: c_run1_queue positions_def c_entry_def c_message_def entry_sequence_number_def)

text \<open>
  C32. One broadcast attempt sends entries of the queue whose positions follow the last broadcast
  position without a gap, and moves that position to the last one sent. If it stops early although the channel
  is open, a retry has been scheduled; otherwise it has sent every entry up to the first gap.
\<close>

theorem broadcast_run:
  assumes "streamer_inv R s"
    and "try_broadcast_feed_message R try_send s retry ch = (s', retry', ch', sent)"
  shows "positions R sent = [unat (last_broadcast_position s) + 1..<unat (last_broadcast_position s) + 1 + length sent] \<and>
    set sent \<subseteq> set (queue s) \<and>
    unat (last_broadcast_position s') = unat (last_broadcast_position s) + length sent \<and>
    ((\<forall>e \<in> set (queue s). unat (r_sequence_number R e) \<noteq> unat (last_broadcast_position s) + 1 + length sent) \<or>
     scheduled retry' \<or> (\<exists>m. try_send ch' m = Inl Closed))"
proof -
  note fc = find_contiguous_spec [OF streamer_invD(1) [OF assms(1)], of "last_broadcast_position s"]
  note be = broadcast_entries_spec [OF assms(2) [unfolded try_broadcast_feed_message_def]]
  have "scheduled (schedule d r)" for d r by (simp add: schedule_def)
  then show ?thesis
    using try_broadcast_spec [OF assms] fc(3) be by (auto simp: positions_def)
qed

lemma c_broadcast:
  "try_broadcast_feed_message (nitro_rollup c_libs) c_try_send
     ((streamer_new c_streamer_config c_rollup_config)\<lparr>queue := [c_entry 1 1 1, c_entry 3 3 3]\<rparr>) retry_new [] =
   ((streamer_new c_streamer_config c_rollup_config)\<lparr>queue := [c_entry 1 1 1, c_entry 3 3 3],
      last_broadcast_position := 1\<rparr>, retry_new, [c_message 1 1], [c_entry 1 1 1])"
  by code_simp

theorem broadcast_run_witness:
  "positions (nitro_rollup c_libs) [c_entry 1 1 1] = [1] \<and>
   unat (entry_sequence_number (c_entry 3 3 3)) \<noteq> 2"
proof -
  let ?s = "(streamer_new c_streamer_config c_rollup_config)\<lparr>queue := [c_entry 1 1 1, c_entry 3 3 3]\<rparr>"
  have "streamer_inv (nitro_rollup c_libs) ?s"
    by (simp add: streamer_inv_def streamer_new_def c_streamer_config_def bt_get_def c_entry_def c_message_def
        entry_sequence_number_def)
  from broadcast_run [OF this c_broadcast] show ?thesis
    by (simp add: c_entry_def c_message_def entry_sequence_number_def streamer_new_def)
qed

subsection \<open>The queue on a chain\<close>





subsection \<open>The poller\<close>





end
