(* ===== verification/Rlp_Instance.thy ===== *)
theory Rlp_Instance
  imports Nitro_Signature
begin

text \<open>
  A concrete RLP codec that satisfies the contract of \<open>rlp_lib\<close>: headers of strings and lists in short and
  long form, single bytes as themselves, integers as minimal big-endian strings.
\<close>

definition c_hdr :: "nat \<Rightarrow> nat \<Rightarrow> bytes" where
  "c_hdr base n = (if n < 56 then [of_nat (base + n)] else of_nat (base + 55 + length (be_trimmed n)) # be_trimmed n)"

definition c_str :: "bytes \<Rightarrow> bytes" where
  "c_str s = (if length s = 1 \<and> unat (hd s) < 128 then s else c_hdr 128 (length s) @ s)"

definition c_split :: "bool \<Rightarrow> nat \<Rightarrow> bytes \<Rightarrow> (bool \<times> bytes \<times> bytes) option" where
  "c_split l n r = (if n \<le> length r then Some (l, take n r, drop n r) else None)"

definition c_long :: "bool \<Rightarrow> nat \<Rightarrow> bytes \<Rightarrow> (bool \<times> bytes \<times> bytes) option" where
  "c_long l k r = (if k \<le> length r then c_split l (nat_from_be (take k r)) (drop k r) else None)"

fun c_item :: "bytes \<Rightarrow> (bool \<times> bytes \<times> bytes) option" where
  "c_item [] = None"
| "c_item (b # r) =
     (let n = unat b in
      if n < 128 then Some (False, [b], r)
      else if n < 184 then c_split False (n - 128) r
      else if n < 192 then c_long False (n - 183) r
      else if n < 248 then c_split True (n - 192) r
      else c_long True (n - 247) r)"

function c_items :: "bytes \<Rightarrow> bytes list option" where
  "c_items bs =
     (if bs = [] then Some []
      else case c_item bs of
             None \<Rightarrow> None
           | Some (l, p, rest) \<Rightarrow>
               if length rest < length bs
               then map_option (Cons (take (length bs - length rest) bs)) (c_items rest)
               else None)"
  by pat_completeness auto
termination by (relation "measure length") auto

definition c_decode_raw :: "bytes \<Rightarrow> rlp_error + payload_view \<times> bytes" where
  "c_decode_raw bs = (case c_item bs of
      None \<Rightarrow> Inl InputTooShort
    | Some (l, p, rest) \<Rightarrow>
        if l then (case c_items p of None \<Rightarrow> Inl InputTooShort | Some items \<Rightarrow> Inr (PvList items, rest))
        else Inr (PvString p, rest))"

definition c_d_str :: "(bytes \<Rightarrow> 'a option) \<Rightarrow> bytes \<Rightarrow> rlp_error + 'a \<times> bytes" where
  "c_d_str f bs = (case c_item bs of
      None \<Rightarrow> Inl InputTooShort
    | Some (l, p, rest) \<Rightarrow>
        if l then Inl UnexpectedList
        else (case f p of Some x \<Rightarrow> Inr (x, rest) | None \<Rightarrow> Inl UnexpectedLength))"

definition c_stats :: "batch_data_stats \<Rightarrow> bytes" where
  "c_stats st = (let p = concat [c_str (be_trimmed (unat (stats_length st))), c_str (be_trimmed (unat (non_zeros st)))]
                 in c_hdr 192 (length p) @ p)"

definition c_d_stats :: "bytes \<Rightarrow> rlp_error + batch_data_stats \<times> bytes" where
  "c_d_stats bs =
     and_then (c_decode_raw bs) (\<lambda>(view, rest).
       case view of
         PvString s \<Rightarrow> Inl UnexpectedString
       | PvList items \<Rightarrow>
           if length items \<noteq> 2 then Inl (ListLengthMismatch 2 (length items))
           else and_then (c_d_str (\<lambda>p. Some (from_be_bytes p)) (items ! 0)) (\<lambda>(a, ra).
                and_then (c_d_str (\<lambda>p. Some (from_be_bytes p)) (items ! 1)) (\<lambda>(b, rb).
                Inr (\<lparr>stats_length = a, non_zeros = b\<rparr>, rest))))"

definition std_rlp :: rlp_lib where
  "std_rlp = \<lparr>rl_header = (\<lambda>l n. c_hdr (if l then 192 else 128) n),
     rl_length_of_length = (\<lambda>n. length (c_hdr 192 n)),
     rl_u8 = (\<lambda>x. c_str (be_trimmed (unat x))), rl_u64 = (\<lambda>x. c_str (be_trimmed (unat x))),
     rl_u256 = (\<lambda>x. c_str (be_trimmed x)), rl_address = c_str, rl_b256 = c_str, rl_bytes = c_str,
     rl_stats = c_stats, rl_decode_raw = c_decode_raw,
     rl_d_u8 = c_d_str (\<lambda>p. Some (of_nat (nat_from_be p))),
     rl_d_u64 = c_d_str (\<lambda>p. Some (from_be_bytes p)),
     rl_d_u256 = c_d_str (\<lambda>p. Some (nat_from_be p)),
     rl_d_address = c_d_str (\<lambda>p. if length p = 20 then Some p else None),
     rl_d_bytes = c_d_str Some, rl_d_stats = c_d_stats\<rparr>"

text \<open>A complete item: the reader takes it off the front of any input.\<close>

definition c_is_item :: "bytes \<Rightarrow> bool" where
  "c_is_item bs \<longleftrightarrow> (\<exists>l p. \<forall>rest. c_item (bs @ rest) = Some (l, p, rest))"

declare be_trimmed.simps [simp del] c_items.simps [simp del]

lemma nat_from_be_trimmed [simp]: "nat_from_be (be_trimmed n) = n"
proof (induction n rule: be_trimmed.induct)
  case (1 n)
  show ?case
  proof (cases "n = 0")
    case False
    then have "nat_from_be (be_trimmed (n div 256)) = n div 256" by (rule 1)
    then show ?thesis using False
      by (subst be_trimmed.simps) (simp add: nat_from_be_snoc unat_u8_of_nat)
  qed (simp add: be_trimmed.simps)
qed

lemma be_trimmed_empty [simp]: "be_trimmed n = [] \<longleftrightarrow> n = 0"
  by (subst be_trimmed.simps) simp

lemma be_trimmed_length: "n < 256 ^ k \<Longrightarrow> length (be_trimmed n) \<le> k"
proof (induction k arbitrary: n)
  case 0
  then show ?case by (simp add: be_trimmed.simps)
next
  case (Suc k)
  then have "n div 256 < 256 ^ k" by (simp add: less_mult_imp_div_less mult.commute)
  then show ?case using Suc.IH by (subst be_trimmed.simps) simp
qed

lemma c_item_hdr:
  assumes "length p < 2 ^ 64" and "base = (if l then 192 else 128)"
  shows "c_item (c_hdr base (length p) @ p @ rest) = Some (l, p, rest)"
proof (cases "length p < 56")
  case True
  then have "unat (of_nat (base + length p) :: u8) = base + length p"
    using assms(2) by (simp only: unat_u8_of_nat) auto
  then show ?thesis using True assms(2) by (auto simp: c_hdr_def c_split_def Let_def simp del: of_nat_add)
next
  case False
  let ?k = "length (be_trimmed (length p))"
  have k: "?k \<le> 8" by (rule be_trimmed_length) (use assms(1) in simp)
  have k0: "0 < ?k" using False by (cases "length p") auto
  have "unat (of_nat (base + 55 + ?k) :: u8) = base + 55 + ?k"
    using assms(2) k by (simp only: unat_u8_of_nat) auto
  then show ?thesis using False assms(2) k k0
    by (auto simp: c_hdr_def c_split_def c_long_def Let_def simp del: of_nat_add)
qed

lemma c_item_str:
  assumes "length s < 2 ^ 64"
  shows "c_item (c_str s @ rest) = Some (False, s, rest)"
proof (cases "length s = 1 \<and> unat (hd s) < 128")
  case True
  then obtain b where "s = [b]" by (cases s) auto
  then show ?thesis using True by (simp add: c_str_def Let_def)
next
  case False
  then show ?thesis using c_item_hdr [OF assms, of 128 False rest] by (auto simp: c_str_def)
qed

lemma c_is_item_str: "length s < 2 ^ 64 \<Longrightarrow> c_is_item (c_str s)"
  using c_item_str unfolding c_is_item_def by blast

lemma c_is_item_nonempty: "c_is_item bs \<Longrightarrow> bs \<noteq> []"
  by (metis append_Nil c_is_item_def c_item.simps(1) option.distinct(1))

lemma c_items_concat: "list_all c_is_item items \<Longrightarrow> c_items (concat items) = Some items"
proof (induction items)
  case Nil
  then show ?case by (simp add: c_items.simps)
next
  case (Cons i items)
  then obtain l p where "c_item (i @ concat items) = Some (l, p, concat items)"
    by (auto simp: c_is_item_def)
  moreover have "i \<noteq> []" using Cons.prems c_is_item_nonempty by simp
  ultimately show ?case using Cons by (subst c_items.simps) simp
qed

lemma c_decode_raw_list:
  assumes "list_all c_is_item items" and "length (concat items) < 2 ^ 64"
  shows "c_decode_raw (c_hdr 192 (length (concat items)) @ concat items @ rest) = Inr (PvList items, rest)"
  using c_item_hdr [OF assms(2), of 192 True rest] c_items_concat [OF assms(1)]
  by (simp add: c_decode_raw_def)

lemma c_is_item_list:
  assumes "length (concat items) < 2 ^ 64"
  shows "c_is_item (c_hdr 192 (length (concat items)) @ concat items)"
  using c_item_hdr [OF assms, of 192 True] unfolding c_is_item_def by auto

lemma c_d_str_str:
  "length s < 2 ^ 64 \<Longrightarrow> f s = Some x \<Longrightarrow> c_d_str f (c_str s) = Inr (x, [])"
  using c_item_str [of s "[]"] by (simp add: c_d_str_def)

lemma c_decode_raw_str: "length s < 2 ^ 64 \<Longrightarrow> c_decode_raw (c_str s) = Inr (PvString s, [])"
  using c_item_str [of s "[]"] by (simp add: c_decode_raw_def)

lemma be_trimmed_u64: "length (be_trimmed (unat (x :: u64))) < 2 ^ 64"
  using be_trimmed_length [of "unat x" 8] unat_u64_less [of x] by simp

lemma be_trimmed_u8: "length (be_trimmed (unat (x :: u8))) < 2 ^ 64"
proof -
  have "unat x < 256 ^ 1" using unsigned_less [of x] by simp
  from be_trimmed_length [OF this] show ?thesis by simp
qed

lemma be_trimmed_u256: "x < 2 ^ 256 \<Longrightarrow> length (be_trimmed x) < 2 ^ 64"
  using be_trimmed_length [of x 32] by simp

lemma c_stats_codec:
  "c_is_item (c_stats st)" "c_d_stats (c_stats st) = Inr (st, [])"
  "\<exists>i js. c_decode_raw (c_stats st) = Inr (PvList (i # js), [])"
proof -
  let ?i = "[c_str (be_trimmed (unat (stats_length st))), c_str (be_trimmed (unat (non_zeros st)))]"
  have items: "list_all c_is_item ?i" using c_is_item_str be_trimmed_u64 by simp
  have "length (c_str (be_trimmed (unat (x :: u64)))) \<le> 9" for x
    using be_trimmed_length [of "unat x" 8] unat_u64_less [of x] by (auto simp: c_str_def c_hdr_def)
  from this [of "stats_length st"] this [of "non_zeros st"] have len: "length (concat ?i) < 2 ^ 64" by simp
  have enc: "c_stats st = c_hdr 192 (length (concat ?i)) @ concat ?i" by (simp add: c_stats_def Let_def)
  have raw: "c_decode_raw (c_stats st) = Inr (PvList ?i, [])"
    unfolding enc using c_decode_raw_list [OF items len, of "[]"] by simp
  show "c_is_item (c_stats st)" unfolding enc by (rule c_is_item_list [OF len])
  show "\<exists>i js. c_decode_raw (c_stats st) = Inr (PvList (i # js), [])" unfolding raw by blast
  have "c_d_str (\<lambda>p. Some (from_be_bytes p)) (c_str (be_trimmed (unat (x :: u64)))) = Inr (x, [])" for x
    by (rule c_d_str_str [OF be_trimmed_u64]) (simp add: from_be_bytes_def)
  then show "c_d_stats (c_stats st) = Inr (st, [])" by (simp add: c_d_stats_def raw)
qed

lemma std_rlp_laws: "rlp_laws std_rlp c_is_item"
proof -
  have nil: "c_is_item [0x80]" "c_decode_raw [0x80] = Inr (PvString [], [])"
    using c_is_item_str [of "[]"] c_decode_raw_str [of "[]"] by (simp_all add: c_str_def c_hdr_def)
  have u8: "c_is_item (c_str (be_trimmed (unat (x :: u8)))) \<and>
      c_d_str (\<lambda>p. Some (of_nat (nat_from_be p))) (c_str (be_trimmed (unat x))) = Inr (x, [])" for x
    by (intro conjI c_is_item_str c_d_str_str be_trimmed_u8) simp
  have u64: "c_is_item (c_str (be_trimmed (unat (x :: u64)))) \<and>
      c_d_str (\<lambda>p. Some (from_be_bytes p)) (c_str (be_trimmed (unat x))) = Inr (x, []) \<and>
      c_decode_raw (c_str (be_trimmed (unat x))) = Inr (PvString (be_trimmed (unat x)), [])" for x
    by (intro conjI c_is_item_str c_d_str_str c_decode_raw_str be_trimmed_u64) (simp add: from_be_bytes_def)
  have u256: "c_is_item (c_str (be_trimmed x)) \<and>
      c_d_str (\<lambda>p. Some (nat_from_be p)) (c_str (be_trimmed x)) = Inr (x, []) \<and>
      c_decode_raw (c_str (be_trimmed x)) = Inr (PvString (be_trimmed x), [])" if "x < 2 ^ 256" for x
    using that by (intro conjI c_is_item_str c_d_str_str c_decode_raw_str be_trimmed_u256) simp_all
  have str: "c_is_item (c_str s) \<and> c_d_str Some (c_str s) = Inr (s, []) \<and>
      c_decode_raw (c_str s) = Inr (PvString s, [])" if "length s < 2 ^ 64" for s
    using that by (intro conjI c_is_item_str c_d_str_str c_decode_raw_str) simp_all
  have addr: "c_d_str (\<lambda>p. if length p = 20 then Some p else None) (c_str s) = Inr (s, [])" if "length s = 20" for s
    using that by (intro c_d_str_str) simp_all
  have list: "c_is_item (c_hdr 192 (length (concat items)) @ concat items) \<and>
      c_decode_raw (c_hdr 192 (length (concat items)) @ concat items @ rest) = Inr (PvList items, rest)"
    if "list_all c_is_item items \<and> length (concat items) < 2 ^ 64" for items rest
    using that c_is_item_list c_decode_raw_list by blast
  have u64_raw: "\<exists>s. c_decode_raw (c_str (be_trimmed (unat (x :: u64)))) = Inr (PvString s, []) \<and> (s = [] \<longleftrightarrow> x = 0)" for x
    using u64 [of x] by (simp add: unat_eq_zero)
  have u256_raw: "\<exists>s. c_decode_raw (c_str (be_trimmed x)) = Inr (PvString s, []) \<and> (s = [] \<longleftrightarrow> x = 0)"
    if "x < 2 ^ 256" for x using u256 [OF that] by simp
  show ?thesis
    unfolding rlp_laws_def std_rlp_def rlp_lib.simps if_True
    by (intro conjI allI impI; (rule u64_raw u256_raw c_stats_codec | use nil u8 u64 u256 str addr list in
        \<open>fastforce simp: c_hdr_def\<close>))
qed

end
