(* ===== verification/Props_Nitro.thy ===== *)
theory Props_Nitro
  imports Concrete Rlp_Instance
begin

text \<open>
  The properties of the Nitro stack: what an accepted batch is, the batch parser, the Espresso payloads in
  both formats, the feed signature and the RLP codec.
\<close>

subsection \<open>Accepted batches\<close>

text \<open>
  C4. If the event loop replies to a verification request with success, the posted
  bytes parse to a non-empty list of messages, and a run of queue entries that starts at the cursor's position
  matches it message by message: content and delayed count agree, and every one of these entries is signed by a
  trusted sequencer (or stands in a legacy payload of a legacy signer). So nothing unsigned is ever accepted.
\<close>

theorem accepted_batch_authentic:
  assumes "(run_step (nitro_rollup N) try_send)\<^sup>*\<^sup>* (run_init cfg rcfg idx ch) s"
    and "success (handle_verification (nitro_rollup N) fetched batch_data (rs_streamer s))"
  shows "\<exists>ms pos. parse_batch (nl_brotli N) (nl_rlp_bytes N) batch_data = Inr ms \<and> ms \<noteq> [] \<and>
    pos + length ms \<le> length (queue (rs_streamer s)) \<and>
    entry_sequence_number (queue (rs_streamer s) ! pos) = next_batch_start_pos (batch_context (nitro_rollup N) fetched) \<and>
    (\<forall>i < length ms. let e = queue (rs_streamer s) ! (pos + i) in
       authentic N (stack rcfg) e \<and> slot_matches (ms ! i) e \<and>
       entry_delayed e = last_batch_delayed_messages_read (batch_context (nitro_rollup N) fetched) +
         of_nat (delayed_count (take (Suc i) ms)))"
  using verification_backed [OF assms] unfolding batch_backed_def .

lemma c_verification_success:
  "success (handle_verification (nitro_rollup c_libs) None c_batch (rs_streamer c_run1))"
  unfolding handle_verification_def c_run1_queue nitro_rollup_simps by code_simp

theorem accepted_batch_authentic_witness:
  "success (handle_verification (nitro_rollup c_libs) None c_batch (rs_streamer c_run1)) \<and>
   (\<exists>ms. parse_batch c_brotli c_rlp_bytes c_batch = Inr ms \<and> ms \<noteq> [] \<and> length ms \<le> 2)"
proof -
  have libs: "nl_brotli c_libs = c_brotli" "nl_rlp_bytes c_libs = c_rlp_bytes" by (simp_all add: c_libs_def)
  show ?thesis
    using accepted_batch_authentic [OF c_run1_reachable [unfolded c_run_init_def] c_verification_success]
      c_verification_success
    by (fastforce simp: c_run1_queue libs)
qed

text \<open>
  C5. On a sorted queue, \<open>verify_batch_messages\<close> succeeds exactly when the batch is
  not empty and matches the entries from the cursor's position on, and then it reports the start and end
  positions, the least height of the covered entries, the final delayed count and the least height of the
  entries that remain; otherwise it returns the failure reply.
\<close>

theorem verify_accepts_exactly_matches:
  assumes "strictly_sorted entry_sequence_number entries"
  shows "verify_batch_messages ms entries ctx =
    (if ms \<noteq> [] \<and> (\<exists>pos < length entries. entry_sequence_number (entries ! pos) = next_batch_start_pos ctx \<and>
          batch_matches ms (drop pos entries) (last_batch_delayed_messages_read ctx))
     then let q = filter (\<lambda>e. next_batch_start_pos ctx \<le> entry_sequence_number e) entries in
       vr_success (next_batch_start_pos ctx) (next_batch_start_pos ctx + of_nat (length ms) - 1)
         (min_or_0 (map hotshot_height (take (length ms) q)))
         (last_batch_delayed_messages_read ctx + of_nat (delayed_count ms))
         (min_or_0 (map hotshot_height (drop (length ms) q)))
     else vr_failure)"
  by (rule verify_batch_messages_cases [OF assms])

theorem verify_accepts_exactly_matches_witness:
  "strictly_sorted entry_sequence_number [c_entry 1 1 1, c_entry 2 2 2] \<and>
   verify_batch_messages [] [c_entry 1 1 1, c_entry 2 2 2] batch_cursor_default = vr_failure"
proof -
  have "strictly_sorted entry_sequence_number [c_entry 1 1 1, c_entry 2 2 2]" by code_simp
  with verify_accepts_exactly_matches [OF this, of "[]"] show ?thesis by simp
qed

text \<open>
  C33. The queue and the cursor determine a verified batch: two batches of the same length
  that both verify against the same queue and cursor are equal, message kinds included.
\<close>

theorem verified_batch_unique:
  assumes "strictly_sorted entry_sequence_number entries"
    and "success (verify_batch_messages ms entries ctx)" and "success (verify_batch_messages ms' entries ctx)"
    and "length ms = length ms'"
  shows "ms = ms'"
proof -
  obtain p p' where p: "p < length entries" "entry_sequence_number (entries ! p) = next_batch_start_pos ctx"
      "batch_matches ms (drop p entries) (last_batch_delayed_messages_read ctx)"
    and p': "p' < length entries" "entry_sequence_number (entries ! p') = next_batch_start_pos ctx"
      "batch_matches ms' (drop p' entries) (last_batch_delayed_messages_read ctx)"
    using assms(2,3) unfolding verify_success_iff [OF assms(1)] by blast
  have "p' = p" using strictly_sorted_nth_inj [OF assms(1)] p(1,2) p'(1,2) by metis
  with batch_matches_determined p(3) p'(3) assms(4) show ?thesis by blast
qed

theorem verified_batch_unique_witness:
  "{c. success (verify_batch_messages [L2Msg [c]] [c_entry 1 1 1, c_entry 2 2 2] batch_cursor_default)} = {1}"
proof -
  have s: "strictly_sorted entry_sequence_number [c_entry 1 1 1, c_entry 2 2 2]" by code_simp
  have ok: "success (verify_batch_messages [L2Msg [1]] [c_entry 1 1 1, c_entry 2 2 2] batch_cursor_default)"
    by code_simp
  then show ?thesis using verified_batch_unique [OF s _ ok] by fastforce
qed

text \<open>
  When the matched entries have consecutive sequence numbers, the positions the
  reply reports are those of the first and of the last matched entry.
\<close>

lemma verified_range_is_covered:
  assumes "strictly_sorted entry_sequence_number entries" and "success (verify_batch_messages ms entries ctx)"
    and "consecutive (take (length ms) (filter (\<lambda>e. next_batch_start_pos ctx \<le> entry_sequence_number e) entries))"
  shows "let q = take (length ms) (filter (\<lambda>e. next_batch_start_pos ctx \<le> entry_sequence_number e) entries) in
    length q = length ms \<and>
    start_message_position (verify_batch_messages ms entries ctx) = entry_sequence_number (hd q) \<and>
    end_message_position (verify_batch_messages ms entries ctx) = entry_sequence_number (last q)"
proof -
  let ?f = "filter (\<lambda>e. next_batch_start_pos ctx \<le> entry_sequence_number e) entries"
  let ?q = "take (length ms) ?f"
  obtain pos where p: "ms \<noteq> []" "pos < length entries" "entry_sequence_number (entries ! pos) = next_batch_start_pos ctx"
    "batch_matches ms (drop pos entries) (last_batch_delayed_messages_read ctx)"
    using assms(2) unfolding verify_success_iff [OF assms(1)] by blast
  have f: "?f = drop pos entries" using p(2,3) by (rule filter_from_key [OF assms(1)])
  have len: "length ?q = length ms" using p(4) by (simp add: f batch_matches_def)
  have hd: "entry_sequence_number (hd ?q) = next_batch_start_pos ctx"
    using p(1,2,3) len by (simp add: f hd_drop_conv_nth)
  have "?q \<noteq> []" using len p(1) by auto
  from last_conv_nth [OF this] have l: "last ?q = ?q ! (length ms - 1)" unfolding len .
  have "length ms - 1 < length ?q" unfolding len using p(1) by (cases ms) auto
  then have "entry_sequence_number (last ?q) = entry_sequence_number (hd ?q) + of_nat (length ms - 1)"
    using assms(3) unfolding l consecutive_def by blast
  moreover have "(of_nat (length ms - 1) :: u64) = of_nat (length ms) - 1"
    using p(1) by (simp add: of_nat_diff Suc_leI)
  ultimately have "entry_sequence_number (last ?q) = next_batch_start_pos ctx + of_nat (length ms) - 1"
    using hd by simp
  then show ?thesis
    using assms(2) len hd unfolding verify_batch_messages_cases [OF assms(1)]
    by (auto simp: vr_success_def Let_def split: if_splits)
qed


subsection \<open>The batch parser\<close>

text \<open>
  C17. \<open>parse_batch\<close> succeeds exactly when the payload has the Brotli header byte, decompresses
  within the limit, splits into segments, and every message slot of these segments can be interpreted; the
  result is then the list of these slots, of at most \<open>MAX_SEGMENTS\<close> messages. A segment that would replay as a
  placeholder is never dropped.
\<close>

theorem parse_batch_is_slots:
  "(parse_batch brotli rlp payload = Inr ms \<longleftrightarrow>
     (\<exists>body data segments. payload = BROTLI_HEADER_BYTE # body \<and>
        decompress brotli body MAX_DECOMPRESSED_LEN = Inr data \<and>
        decode_segments rlp [] data = Inr segments \<and>
        concat (map (segment_slots brotli) segments) = map Some ms)) \<and>
   \<not> (parse_batch brotli rlp payload = Inr ms \<and> length ms > MAX_SEGMENTS)"
proof -
  have iff: "parse_batch brotli rlp payload = Inr ms \<longleftrightarrow>
     (\<exists>body data segments. payload = BROTLI_HEADER_BYTE # body \<and>
        decompress brotli body MAX_DECOMPRESSED_LEN = Inr data \<and>
        decode_segments rlp [] data = Inr segments \<and>
        concat (map (segment_slots brotli) segments) = map Some ms)"
    by (auto simp: parse_batch_def and_then_eq_Inr convert_segments_iff split: list.split)
  have "length ms \<le> MAX_SEGMENTS" if "decode_segments rlp [] data = Inr segments"
    "concat (map (segment_slots brotli) segments) = map Some ms" for data segments
  proof -
    have "length ms = length (concat (map (segment_slots brotli) segments))" by (simp add: that(2))
    also have "\<dots> \<le> length segments" by (rule concat_length_le [OF segment_slots_length])
    also have "\<dots> \<le> MAX_SEGMENTS" using decode_segments_bound [OF that(1)] by simp
    finally show ?thesis .
  qed
  then show ?thesis using iff by fastforce
qed

text \<open>
  C18. A batch assembled from messages, each as a plain or a compressed segment, parses back to
  exactly these messages, for every decoder of byte strings and every Brotli reader that invert the poster's
  encoders.
\<close>

theorem parse_batch_roundtrip:
  assumes "rlp_decodes rlp enc" and "brotli_inverts brotli compress"
    and "length pms \<le> MAX_SEGMENTS" and "\<forall>pm \<in> set pms. length (segment_of compress pm) < 2 ^ 64"
    and "\<forall>content. (True, L2Msg content) \<in> set pms \<longrightarrow> length content \<le> MAX_L2_MESSAGE_SIZE"
    and "length (concat (map (\<lambda>pm. enc (segment_of compress pm)) pms)) \<le> MAX_DECOMPRESSED_LEN"
  shows "parse_batch brotli rlp
    (BROTLI_HEADER_BYTE # compress (concat (map (\<lambda>pm. enc (segment_of compress pm)) pms))) = Inr (map snd pms)"
proof -
  let ?data = "concat (map (\<lambda>pm. enc (segment_of compress pm)) pms)"
  have d: "decompress brotli (compress ?data) MAX_DECOMPRESSED_LEN = Inr ?data"
    using assms(2,6) by (simp add: decompress_iff brotli_inverts_def)
  have s: "decode_segments rlp [] ?data = Inr (map (segment_of compress) pms)"
    using decode_segments_encoded [OF assms(1), of "[]" "map (segment_of compress) pms"] assms(3,4)
    by (simp add: comp_def)
  have "segment_slots brotli (segment_of compress pm) = [Some (snd pm)]" if "pm \<in> set pms" for pm
    by (rule segment_slots_of [OF assms(2)]) (use assms(5) that in auto)
  then have "concat (map (segment_slots brotli) (map (segment_of compress) pms)) = map Some (map snd pms)"
    by (induction pms) auto
  then have "convert_segments brotli (map (segment_of compress) pms) = Inr (map snd pms)"
    unfolding convert_segments_iff .
  then show ?thesis using d s by (simp add: parse_batch_def)
qed

lemma c_str_decodes: "rlp_decodes (c_d_str Some) c_str"
  using c_item_str by (auto simp: rlp_decodes_def c_d_str_def c_str_def c_hdr_def)

lemma c_brotli_inverts: "brotli_inverts c_brotli (\<lambda>x. x)"
  by (simp add: brotli_inverts_def c_brotli_def)

theorem parse_batch_roundtrip_witness:
  "parse_batch c_brotli (c_d_str Some) [0, 0x82, 0, 9, 2, 0x82, 1, 7] =
     Inr [L2Msg [9], DelayedMsg, L2Msg [7]]"
proof -
  have "concat (map (\<lambda>pm. c_str (segment_of (\<lambda>x. x) pm)) [(False, L2Msg [9]), (False, DelayedMsg), (True, L2Msg [7])]) =
      [0x82, 0, 9, 2, 0x82, 1, 7]" by code_simp
  then show ?thesis
    using parse_batch_roundtrip [OF c_str_decodes c_brotli_inverts,
        of "[(False, L2Msg [9]), (False, DelayedMsg), (True, L2Msg [7])]"]
    by (simp add: MAX_SEGMENTS_def MAX_L2_MESSAGE_SIZE_def MAX_DECOMPRESSED_LEN_def BROTLI_HEADER_BYTE_def)
qed

subsection \<open>Espresso payloads\<close>





text \<open>
  C35. If the first pending message does not fit into a payload on its own, \<open>build_tx_fn\<close> does
  not return: the builder takes nothing and the loop appends header-only payloads forever. The branch that is
  meant to skip such a message is never taken, because the payload already holds the header.
\<close>

theorem oversized_message_hangs:
  assumes "js_header_to_vec J V1 = Inr hb" and "\<not> fits J (length (frame hb)) m"
  shows "build_espresso_tx_payload J (m # ms) = (frame hb, m # ms) \<and> build_tx_fn J (m # ms) = None"
proof -
  have "build_espresso_tx_payload J (m # ms) = (frame hb, m # ms)"
    using assms
    by (auto simp: build_espresso_tx_payload_def fits_def simp flip: frame_def split: sum.splits)
  then show ?thesis using build_tx_loop_diverges [OF assms] by (simp add: build_tx_fn_def)
qed

definition c_big_json :: json where
  "c_big_json = c_json\<lparr>js_msg_to_vec := \<lambda>m. Inr (replicate HOTSHOT_TX_PAYLOAD_MAX_SIZE 0)\<rparr>"

theorem oversized_message_hangs_witness:
  "build_tx_fn c_big_json [c_message 5 1] = None"
proof -
  have "js_header_to_vec c_big_json V1 = Inr [49]" by (simp add: c_big_json_def c_json_def)
  moreover have "\<not> fits c_big_json (length (frame [49])) (c_message 5 1)"
    by (simp add: fits_def c_big_json_def)
  ultimately show ?thesis using oversized_message_hangs by blast
qed

text \<open>
  C38. The legacy parser accepts exactly the byte strings that are sequences of frames (index,
  length, message), and returns the indices and messages of the non-empty ones, in order and in equal number.
\<close>

theorem legacy_format_exact:
  "parse_legacy_messages bs [] [] = Inr (idxs, msgs) \<longleftrightarrow>
     (\<exists>ims. bs = concat (map legacy_frame ims) \<and> list_all (\<lambda>im. length (snd im) < 2 ^ 64) ims \<and>
        idxs = map fst (filter (\<lambda>im. snd im \<noteq> []) ims) \<and> msgs = map snd (filter (\<lambda>im. snd im \<noteq> []) ims))"
  (is "?L \<longleftrightarrow> ?R")
proof
  assume ?L
  then show ?R using parse_legacy_sound [of bs "[]" "[]" idxs msgs] by (simp add: list_all_iff)
next
  assume ?R
  then show ?L using parse_legacy_frames [of _ "[]" "[]"] by (fastforce simp: list_all_iff)
qed

subsection \<open>Signatures and RLP\<close>

text \<open>
  C24. The bytes hashed for a feed signature in the default build determine the sequence
  number, the chain, the delayed count and, for messages within the sizes RLP can carry, the message itself up to
  zeros of optional fields: two messages with the same pre-image agree on everything the streamer uses.
\<close>

theorem signature_binds_message:
  assumes "rlp_laws L item"
    and "signature_preimage_v3_9_9 L m c = Inr p" and "signature_preimage_v3_9_9 L m' c' = Inr p"
    and "message (feed_message_body m) = Some l" and "message (feed_message_body m') = Some l'"
    and "\<forall>h. header l = Some h \<longrightarrow> wf_header h" and "\<forall>h. header l' = Some h \<longrightarrow> wf_header h"
    and "length p < 2 ^ 63" and "length (l2msg l) < 2 ^ 63" and "length (l2msg l') < 2 ^ 63"
  shows "sequence_number m = sequence_number m' \<and> c = c' \<and>
    delayed_messages_read (feed_message_body m) = delayed_messages_read (feed_message_body m') \<and>
    normal_message l = normal_message l'"
proof -
  have enc: "encode_l1_message L l = encode_l1_message L l'"
    and rest: "sequence_number m = sequence_number m' \<and> c = c' \<and>
      delayed_messages_read (feed_message_body m) = delayed_messages_read (feed_message_body m')"
    using preimage_v3_9_9_inject [OF assms(2,3)] assms(4,5) by auto
  have "length (encode_l1_message L l) < 2 ^ 64"
    using assms(2,4,8) by (auto simp: signature_preimage_v3_9_9_def)
  then have "decode_l1_message L (encode_l1_message L l) = Inr (normal_message l, [])"
    and "decode_l1_message L (encode_l1_message L l') = Inr (normal_message l', [])"
    using decode_l1_message_encoded [OF assms(1,6) _ assms(9)] decode_l1_message_encoded [OF assms(1,7) _ assms(10)]
    by (simp_all add: enc)
  with rest show ?thesis unfolding enc by simp
qed

theorem signature_binds_message_witness:
  "\<exists>p. signature_preimage_v3_9_9 std_rlp (c_message 5 1) 42161 = Inr p \<and>
     (\<forall>n. signature_preimage_v3_9_9 std_rlp (c_message n 1) 42161 = Inr p \<longrightarrow> n = 5)"
proof -
  let ?l = "\<lparr>header = None, l2msg = [1], legacy_batch_gas_cost = None, data_stats = None\<rparr> :: l1_incoming_message"
  have m: "message (feed_message_body (c_message n 1)) = Some ?l" for n by (simp add: c_message_def)
  obtain p where p: "signature_preimage_v3_9_9 std_rlp (c_message 5 1) 42161 = Inr p"
    by (simp add: signature_preimage_v3_9_9_def c_message_def)
  have len: "length p < 2 ^ 63"
  proof -
    have "(case signature_preimage_v3_9_9 std_rlp (c_message 5 1) 42161 of Inr q \<Rightarrow> length q | Inl e \<Rightarrow> 0) < 2 ^ 63"
      by code_simp
    then show ?thesis using p by simp
  qed
  have "n = 5" if "signature_preimage_v3_9_9 std_rlp (c_message n 1) 42161 = Inr p" for n
    using signature_binds_message [OF std_rlp_laws p that m m _ _ len] by (simp add: c_message_def)
  with p show ?thesis by blast
qed

text \<open>
  C39. Decoding the RLP encoding of an incoming message gives the message back, except that a
  zero in an optional number field comes back as an absent field; the whole input is consumed.
\<close>

theorem rlp_message_roundtrip:
  assumes "rlp_laws L item" and "\<forall>h. header m = Some h \<longrightarrow> wf_header h"
    and "length (encode_l1_message L m) < 2 ^ 64" and "length (l2msg m) < 2 ^ 63"
  shows "decode_exact (decode_l1_message L) (encode_l1_message L m) = Inr (normal_message m)"
  using decode_l1_message_encoded [OF assms] by (simp add: decode_exact_def)

definition c_l1_message :: l1_incoming_message where
  "c_l1_message = \<lparr>header = Some \<lparr>header_kind = 3, poster = replicate 20 9, block_number = 1000, timestamp = 77,
      request_id = None, l1_base_fee = Some 0\<rparr>,
    l2msg = [1, 2, 3], legacy_batch_gas_cost = None, data_stats = Some \<lparr>stats_length = 5, non_zeros = 4\<rparr>\<rparr>"

theorem rlp_message_roundtrip_witness:
  "decode_exact (decode_l1_message std_rlp) (encode_l1_message std_rlp c_l1_message) =
     Inr (normal_message c_l1_message)"
proof -
  have "length (encode_l1_message std_rlp c_l1_message) < 2 ^ 64" by code_simp
  moreover have "\<forall>h. header c_l1_message = Some h \<longrightarrow> wf_header h" "length (l2msg c_l1_message) < 2 ^ 63"
    by (simp_all add: c_l1_message_def wf_header_def)
  ultimately show ?thesis using rlp_message_roundtrip [OF std_rlp_laws] by blast
qed

end
