(* ===== verification/Std_Io.thy ===== *)
theory Std_Io
  imports Prelude "HOL-Library.State_Monad"
begin

text \<open>
  Effects on the outside: a call to a service or a device is a state transformer over an abstract world, and a
  fallible call returns a result in it. \<open>io_then\<close> is \<open>.await?\<close> followed by the rest of the function. The
  second part has the formatting of integers that error texts use.
\<close>

named_theorems io_simps \<open>running effects\<close>

subsection \<open>Fallible effects\<close>

type_synonym ('w, 'e, 'a) io = "('w, 'e + 'a) state"

abbreviation ret :: "'a \<Rightarrow> ('w, 'a) state" where
  "ret \<equiv> State_Monad.return"

definition io_then :: "('w, 'e, 'a) io \<Rightarrow> ('a \<Rightarrow> ('w, 'e, 'b) io) \<Rightarrow> ('w, 'e, 'b) io" where
  "io_then m f = State_Monad.bind m (\<lambda>r. case r of Inl e \<Rightarrow> ret (Inl e) | Inr x \<Rightarrow> f x)"

definition io_map_err :: "('e \<Rightarrow> 'd) \<Rightarrow> ('w, 'e, 'a) io \<Rightarrow> ('w, 'd, 'a) io" where
  "io_map_err g m = State_Monad.bind m (\<lambda>r. ret (map_err g r))"

subsection \<open>Formatting\<close>

definition digit_char :: "nat \<Rightarrow> char" where
  "digit_char d = (if d < 10 then char_of (48 + d) else char_of (87 + d))"

text \<open>Digits of \<open>n\<close> in base \<open>b + 2\<close>, most significant first; \<open>0\<close> is one digit.\<close>

function digits :: "nat \<Rightarrow> nat \<Rightarrow> string" where
  "digits b n = (if n < b + 2 then [digit_char n] else digits b (n div (b + 2)) @ [digit_char (n mod (b + 2))])"
  by pat_completeness auto
termination
  by (relation "measure snd") auto

declare digits.simps [simp del]

definition show_nat :: "nat \<Rightarrow> string" where
  "show_nat n = digits 8 n"

definition show_hex :: "nat \<Rightarrow> string" where
  "show_hex n = digits 14 n"

text \<open>\<open>{:02x}\<close> of a byte.\<close>

definition show_hex2 :: "u8 \<Rightarrow> string" where
  "show_hex2 b = [digit_char (unat b div 16), digit_char (unat b mod 16)]"

subsection \<open>Lemmas\<close>

lemma run_io_then [io_simps]:
  "run_state (io_then m f) w =
     (case run_state m w of (Inl e, w') \<Rightarrow> (Inl e, w') | (Inr x, w') \<Rightarrow> run_state (f x) w')"
  by (simp add: io_then_def split: prod.split sum.split)

lemma run_io_map_err [io_simps]:
  "run_state (io_map_err g m) w = (case run_state m w of (r, w') \<Rightarrow> (map_err g r, w'))"
  by (simp add: io_map_err_def split: prod.split)

lemma run_io_then_Inr:
  "run_state (io_then m f) w = (Inr y, w'') \<longleftrightarrow>
     (\<exists>x w'. run_state m w = (Inr x, w') \<and> run_state (f x) w' = (Inr y, w''))"
  by (auto simp: run_io_then split: prod.splits sum.splits)

lemma run_io_map_err_Inr:
  "run_state (io_map_err g m) w = (Inr y, w') \<longleftrightarrow> run_state m w = (Inr y, w')"
  by (auto simp: run_io_map_err map_err_eq_Inr split: prod.splits)

lemma run_ret_Inr: "run_state (ret r) w = (x, w') \<longleftrightarrow> x = r \<and> w' = w"
  by auto

lemmas io_ok_eqs = run_io_then_Inr run_io_map_err_Inr run_ret_Inr

text \<open>A relation between the worlds before and after, kept through the compositions.\<close>

lemma state_io_rel_bind:
  assumes "transp R" and "state_io_rel R m" and "\<And>x. state_io_rel R (f x)"
  shows "state_io_rel R (State_Monad.bind m f)"
proof (rule state_io_relI)
  fix a s s'
  assume "run_state (State_Monad.bind m f) s = (a, s')"
  then obtain x t where "run_state m s = (x, t)" "run_state (f x) t = (a, s')"
    by (auto split: prod.splits)
  then have "R s t" "R t s'" using assms(2,3) by blast+
  then show "R s s'" using assms(1) by (blast dest: transpD)
qed

lemma state_io_rel_ret: "reflp R \<Longrightarrow> state_io_rel R (ret x)"
  by (simp add: state_io_rel_def reflpD)

lemma state_io_rel_then:
  assumes "reflp R" and "transp R" and "state_io_rel R m" and "\<And>x. state_io_rel R (f x)"
  shows "state_io_rel R (io_then m f)"
  unfolding io_then_def
  by (rule state_io_rel_bind [OF assms(2,3)]) (auto split: sum.split intro: state_io_rel_ret assms)

lemma state_io_rel_map_err:
  assumes "reflp R" and "transp R" and "state_io_rel R m"
  shows "state_io_rel R (io_map_err g m)"
  unfolding io_map_err_def
  by (rule state_io_rel_bind [OF assms(2,3)]) (rule state_io_rel_ret [OF assms(1)])

end
