(* ===== verification/Da_Types.thy ===== *)
theory Da_Types
  imports Std_Io Rollup
begin

text \<open>
  What the DA server is built from: JSON values as \<open>serde_json::Value\<close> has them, HTTP responses, the serializers as
  a record of parameters, the error type with its JSON-RPC codes, texts and responses (\<open>src/da_api/error.rs\<close>), and
  the configuration (\<open>src/da_api/config.rs\<close>).
\<close>

subsection \<open>JSON values\<close>

text \<open>A number that is not an integer keeps its text.\<close>

datatype json_value =
    JNull
  | JBool bool
  | JInt int
  | JFloat string
  | JString string
  | JArray "json_value list"
  | JObject "(string \<times> json_value) list"

definition json_get :: "json_value \<Rightarrow> string \<Rightarrow> json_value option" where
  "json_get v k = (case v of JObject fs \<Rightarrow> map_of fs k | _ \<Rightarrow> None)"

text \<open>Indexing with a missing key, or on a value that is not an object, gives \<open>Null\<close>.\<close>

definition json_index :: "json_value \<Rightarrow> string \<Rightarrow> json_value" where
  "json_index v k = (case json_get v k of Some x \<Rightarrow> x | None \<Rightarrow> JNull)"

definition json_as_str :: "json_value \<Rightarrow> string option" where
  "json_as_str v = (case v of JString s \<Rightarrow> Some s | _ \<Rightarrow> None)"

definition json_as_array :: "json_value \<Rightarrow> json_value list option" where
  "json_as_array v = (case v of JArray xs \<Rightarrow> Some xs | _ \<Rightarrow> None)"

subsection \<open>Responses and serializers\<close>

record http_response =
  resp_status :: nat
  resp_content_type :: "string option"
  resp_body :: bytes

definition HEADER_CONTENT_TYPE :: string where
  "HEADER_CONTENT_TYPE = ''application/json''"

definition is_success :: "nat \<Rightarrow> bool" where
  "is_success status \<longleftrightarrow> 200 \<le> status \<and> status < 300"

text \<open>
  \<open>serde_json\<close> on values and the serializers of the wire types (\<open>Bytes\<close>, \<open>U64\<close>, \<open>FixedBytes\<close> of alloy and the
  derived ones of \<open>src/da_api/nitro/types.rs\<close>). \<open>sd_de_jsonrpc_error\<close> gives the error's message.
\<close>

record serde_lib =
  sd_from_slice :: "bytes \<Rightarrow> r_error + json_value"
  sd_to_vec :: "json_value \<Rightarrow> r_error + bytes"
  sd_to_string :: "json_value \<Rightarrow> string"
  sd_de_bytes :: "json_value \<Rightarrow> r_error + bytes"
  sd_ser_bytes :: "bytes \<Rightarrow> json_value"
  sd_de_u64 :: "json_value \<Rightarrow> r_error + u64"
  sd_ser_u64 :: "u64 \<Rightarrow> json_value"
  sd_de_b256 :: "json_value \<Rightarrow> r_error + bytes"
  sd_ser_b256 :: "bytes \<Rightarrow> json_value"
  sd_de_store_response :: "json_value \<Rightarrow> r_error + bytes"
  sd_ser_store_response :: "bytes \<Rightarrow> json_value"
  sd_de_jsonrpc_error :: "json_value \<Rightarrow> r_error + string"
  sd_hex_encode :: "bytes \<Rightarrow> string"
  sd_hex_decode :: "string \<Rightarrow> r_error + bytes"

subsection \<open>Errors\<close>

definition NITRO_ERR_MESSAGE_TOO_LARGE :: string where
  "NITRO_ERR_MESSAGE_TOO_LARGE = ''message too large for current DA backend''"

definition NITRO_ERR_FALLBACK_REQUESTED :: string where
  "NITRO_ERR_FALLBACK_REQUESTED = ''DA provider requests fallback to next writer''"

datatype da_api_error =
    CertificateSerializationFailed string
  | InvalidParams string
  | CertificateValidation string
  | InvalidRequest string
  | InvalidHeaderByte u8
  | InvalidCertificateLength nat
  | InvalidSequencerMessageLength nat nat
  | ChannelError string
  | InvalidCasSignature
  | UnsupportedDaType bytes
  | DecoderError string
  | DownstreamDa string
  | ZkCircuit string
  | Signing string
  | Serialization string
  | Configuration string
  | StorageUnavailable string
  | RpcError string
  | HexDecode string
  | IoError string
  | JsonError string
  | ParsingError string
  | DynamicBatchingResize
  | FallbackRequested string

fun error_to_string :: "da_api_error \<Rightarrow> string" where
  "error_to_string (CertificateSerializationFailed m) = ''certificate serialization failed: '' @ m"
| "error_to_string (InvalidParams m) = ''invalid params: '' @ m"
| "error_to_string (CertificateValidation m) = ''certificate validation failed: '' @ m"
| "error_to_string (InvalidRequest m) = ''invalid request: '' @ m"
| "error_to_string (InvalidHeaderByte b) =
     ''certificate validation failed: invalid header byte 0x'' @ show_hex (unat b)"
| "error_to_string (InvalidCertificateLength n) =
     ''certificate validation failed: invalid certificate length '' @ show_nat n"
| "error_to_string (InvalidSequencerMessageLength x y) =
     ''certificate validation failed: invalid sequencer message length, expected minimum '' @ show_nat x @
     '', got '' @ show_nat y"
| "error_to_string (ChannelError m) = ''DA provider channel error: '' @ m"
| "error_to_string InvalidCasSignature = ''certificate validation failed: invalid CAS signature''"
| "error_to_string (UnsupportedDaType bs) =
     ''certificate validation failed: unsupported DA type 0x'' @ concat (map show_hex2 bs)"
| "error_to_string (DecoderError m) = ''failed to decode input data: '' @ m"
| "error_to_string (DownstreamDa m) = ''downstream DA error: '' @ m"
| "error_to_string (ZkCircuit m) = ''ZK circuit error: '' @ m"
| "error_to_string (Signing m) = ''signing error: '' @ m"
| "error_to_string (Serialization m) = ''serialization error: '' @ m"
| "error_to_string (Configuration m) = ''configuration error: '' @ m"
| "error_to_string (StorageUnavailable m) = ''storage unavailable: '' @ m"
| "error_to_string (RpcError m) = ''RPC error: '' @ m"
| "error_to_string (HexDecode m) = ''hex decode error: '' @ m"
| "error_to_string (IoError m) = ''IO error: '' @ m"
| "error_to_string (JsonError m) = ''JSON error: '' @ m"
| "error_to_string (ParsingError m) = ''parsing error: '' @ m"
| "error_to_string DynamicBatchingResize = ''message too large for current DA backend''"
| "error_to_string (FallbackRequested m) = ''fallback to next writer requested by DA provider: '' @ m"

fun jsonrpc_code :: "da_api_error \<Rightarrow> int" where
  "jsonrpc_code (InvalidParams m) = - 32602"
| "jsonrpc_code (InvalidHeaderByte b) = - 32602"
| "jsonrpc_code (InvalidSequencerMessageLength x y) = - 32602"
| "jsonrpc_code (InvalidCertificateLength n) = - 32602"
| "jsonrpc_code (CertificateValidation m) = - 32602"
| "jsonrpc_code InvalidCasSignature = - 32602"
| "jsonrpc_code (UnsupportedDaType bs) = - 32602"
| "jsonrpc_code (DecoderError m) = - 32602"
| "jsonrpc_code (JsonError m) = - 32700"
| "jsonrpc_code (HexDecode m) = - 32700"
| "jsonrpc_code (ParsingError m) = - 32700"
| "jsonrpc_code (InvalidRequest m) = - 32600"
| "jsonrpc_code err = - 32603"

text \<open>The JSON-RPC error object: code and message.\<close>

definition error_object :: "da_api_error \<Rightarrow> int \<times> string" where
  "error_object err =
     (let code = jsonrpc_code err in
      case err of
        InvalidHeaderByte byte \<Rightarrow> (code, ''Invalid header byte: 0x'' @ show_hex2 byte)
      | InvalidSequencerMessageLength expected got \<Rightarrow>
          (code, ''Invalid sequencer message length: expected:'' @ show_nat expected @ '', got:'' @ show_nat got)
      | _ \<Rightarrow> (code, error_to_string err))"

definition error_of_jsonrpc :: "string \<Rightarrow> da_api_error" where
  "error_of_jsonrpc msg =
     (if str_contains NITRO_ERR_MESSAGE_TOO_LARGE msg then DynamicBatchingResize
      else if str_contains NITRO_ERR_FALLBACK_REQUESTED msg then FallbackRequested msg
      else DownstreamDa msg)"

fun error_status :: "da_api_error \<Rightarrow> nat" where
  "error_status (InvalidParams m) = 400"
| "error_status DynamicBatchingResize = 400"
| "error_status (DownstreamDa m) = 502"
| "error_status err = 500"

text \<open>\<open>None\<close> is the panic of \<open>expect\<close>.\<close>

definition error_response :: "serde_lib \<Rightarrow> da_api_error \<Rightarrow> http_response option" where
  "error_response S err =
     (case sd_to_vec S (JObject
             [(''jsonrpc'', JString ''2.0''),
              (''error'', JObject [(''code'', JInt (jsonrpc_code err)), (''message'', JString (error_to_string err)),
                                   (''id'', JNull)])]) of
        Inl e \<Rightarrow> None
      | Inr body \<Rightarrow> Some \<lparr>resp_status = error_status err, resp_content_type = Some ''application/json'',
                              resp_body = body\<rparr>)"

subsection \<open>Configuration\<close>

definition DEFAULT_CALLDATA_MAX_SIZE :: u64 where
  "DEFAULT_CALLDATA_MAX_SIZE = 1000000"

record da_provider_config =
  prov_name :: string
  endpoint_url :: string
  is_anytrust :: bool
  anytrust_fallback_url :: "string option"

record da_api_config =
  listen_addr :: string
  da_providers :: "da_provider_config list"
  cfg_calldata_max_size :: "u64 option"

definition resolve_calldata_max_size :: "u64 option \<Rightarrow> u64" where
  "resolve_calldata_max_size explicit = (case explicit of Some n \<Rightarrow> n | None \<Rightarrow> DEFAULT_CALLDATA_MAX_SIZE)"

definition calldata_provider :: da_provider_config where
  "calldata_provider =
     \<lparr>prov_name = ''calldata'', endpoint_url = '''', is_anytrust = False, anytrust_fallback_url = None\<rparr>"

subsection \<open>Lemmas\<close>

lemma str_contains_self [simp]: "str_contains s s"
  by (cases s) auto

lemma str_contains_prefix: "str_contains n t \<Longrightarrow> str_contains n (p @ t)"
  by (induction p) auto

text \<open>
  The classification of a downstream error is stable: a service that answers with the text of the classified
  error is classified the same way by the next one.
\<close>

lemma reclassify_resize: "error_of_jsonrpc (error_to_string DynamicBatchingResize) = DynamicBatchingResize"
  by (simp add: error_of_jsonrpc_def NITRO_ERR_MESSAGE_TOO_LARGE_def)

lemma json_index_simps [simp]:
  "json_index (JObject fs) k = (case map_of fs k of Some x \<Rightarrow> x | None \<Rightarrow> JNull)"
  by (simp add: json_index_def json_get_def)

lemma json_get_simps [simp]: "json_get (JObject fs) k = map_of fs k"
  by (simp add: json_get_def)

lemma json_as_simps [simp]:
  "json_as_str (JString s) = Some s" "json_as_array (JArray xs) = Some xs"
  by (simp_all add: json_as_str_def json_as_array_def)

end
