(* ===== verification/Nitro_Json.thy ===== *)
theory Nitro_Json
  imports Da_Types Nitro_Types
begin

text \<open>
  The custom JSON codec of an optional 256-bit integer (module \<open>go_bigint_u256\<close> of \<open>src/rollups/nitro/types.rs\<close>): Go
  writes a \<open>*big.Int\<close> as a bare number. \<open>parse_u256\<close> is \<open>U256\<close>'s parser and \<open>show_value\<close> the display of a value.
\<close>

text \<open>The serializer emits the decimal digits as raw JSON; \<open>Inl\<close> is the null value.\<close>

definition go_bigint_serialize :: "nat option \<Rightarrow> unit + string" where
  "go_bigint_serialize val = (case val of None \<Rightarrow> Inl () | Some v \<Rightarrow> Inr (show_nat v))"

definition show_int :: "int \<Rightarrow> string" where
  "show_int n = (if n < 0 then ''-'' else []) @ show_nat (nat \<bar>n\<bar>)"

definition go_bigint_deserialize ::
  "(string \<Rightarrow> r_error + nat) \<Rightarrow> (json_value \<Rightarrow> string) \<Rightarrow> json_value option \<Rightarrow> r_error + nat option" where
  "go_bigint_deserialize parse_u256 show_value v =
     (case v of
        None \<Rightarrow> Inr None
      | Some JNull \<Rightarrow> Inr None
      | Some (JInt n) \<Rightarrow> and_then (parse_u256 (show_int n)) (\<lambda>x. Inr (Some x))
      | Some (JFloat text) \<Rightarrow> and_then (parse_u256 text) (\<lambda>x. Inr (Some x))
      | Some (JString s) \<Rightarrow> and_then (parse_u256 s) (\<lambda>x. Inr (Some x))
      | Some other \<Rightarrow> Inl (''expected null, number, or string for U256, got '' @ show_value other))"

subsection \<open>Round trip\<close>

text \<open>
  \<open>read_json\<close> is \<open>serde_json\<close>'s reading of a number's text: an integer below \<open>2 ^ 64\<close> stays one. Such a value is read
  back; a larger one becomes a float, whose text the integer parser has to refuse.
\<close>

definition reads_u64 :: "(string \<Rightarrow> json_value) \<Rightarrow> bool" where
  "reads_u64 read_json \<longleftrightarrow> (\<forall>n < 2 ^ 64. read_json (show_nat n) = JInt (int n))"

lemma go_bigint_roundtrip:
  assumes "reads_u64 read_json" and "\<And>n. n < 2 ^ 256 \<Longrightarrow> parse_u256 (show_nat n) = Inr n"
    and "\<And>v. val = Some v \<Longrightarrow> v < 2 ^ 64"
  shows "go_bigint_deserialize parse_u256 show_value
    (case go_bigint_serialize val of Inl u \<Rightarrow> Some JNull | Inr raw \<Rightarrow> Some (read_json raw)) = Inr val"
proof (cases val)
  case (Some v)
  then have v: "v < 2 ^ 64" by (rule assms(3))
  then have "read_json (show_nat v) = JInt (int v)" using assms(1) by (simp add: reads_u64_def)
  moreover have "parse_u256 (show_nat v) = Inr v" using v by (intro assms(2)) simp
  ultimately show ?thesis
    using Some by (simp add: go_bigint_serialize_def go_bigint_deserialize_def show_int_def)
qed (simp add: go_bigint_serialize_def go_bigint_deserialize_def)

lemma go_bigint_float_refused:
  assumes "read_json (show_nat v) = JFloat text" and "parse_u256 text = Inl e"
  shows "go_bigint_deserialize parse_u256 show_value
    (case go_bigint_serialize (Some v) of Inl u \<Rightarrow> Some JNull | Inr raw \<Rightarrow> Some (read_json raw)) = Inl e"
  using assms by (simp add: go_bigint_serialize_def go_bigint_deserialize_def)

end
