(* ===== verification/L1_Monitor.thy ===== *)
theory L1_Monitor
  imports Nitro_Types Rollup
begin

text \<open>
  The L1 monitor (\<open>src/rollups/nitro/l1_monitor.rs\<close>): the contract reads, the batch cursor, the backward scan for the
  latest checkpoint event, and the loop that publishes the finalized message index. The RPC provider is a record of
  its calls; contract numbers are unbounded and their conversion to \<open>u64\<close> panics when they do not fit.
\<close>

subsection \<open>Contract reads\<close>

text \<open>\<open>L1Panic\<close> is the panic of \<open>to::<u64>()\<close>.\<close>

datatype l1_monitor_error =
    Contract string
  | Transport string
  | BlockNotFound
  | CheckpointNotFound u64
  | L1Panic

datatype block_tag = Latest | Finalized | Number u64

definition to_u64 :: "nat \<Rightarrow> l1_monitor_error + u64" where
  "to_u64 n = (if n < 2 ^ 64 then Inr (of_nat n) else Inl L1Panic)"

record l1_log =
  hotshotBlock :: nat
  delayedMessageRead :: nat
  messageCount :: nat

text \<open>
  A filter selects an address, an event by its signature and a range of blocks. \<open>l1_decode_log\<close> decodes an event; a
  raw log is left abstract.
\<close>

record log_filter =
  flt_address :: address
  flt_event :: string
  flt_from_block :: u64
  flt_to_block :: u64

definition EspressoCertificateVerified :: string where
  "EspressoCertificateVerified = ''EspressoCertificateVerified''"

record 'log provider =
  l1_bridge :: "address \<Rightarrow> r_error + address"
  l1_sub_message_count :: "address \<Rightarrow> block_tag \<Rightarrow> r_error + nat"
  l1_total_delayed :: "address \<Rightarrow> block_tag \<Rightarrow> r_error + nat"
  l1_block_number :: "r_error + u64"
  l1_get_logs :: "log_filter \<Rightarrow> r_error + 'log list"
  l1_decode_log :: "'log \<Rightarrow> r_error + l1_log"

definition read_bridge_address :: "'log provider \<Rightarrow> address \<Rightarrow> l1_monitor_error + address" where
  "read_bridge_address P sequencer_inbox = map_err Contract (l1_bridge P sequencer_inbox)"

definition fetch_message_count :: "'log provider \<Rightarrow> address \<Rightarrow> block_tag \<Rightarrow> l1_monitor_error + u64" where
  "fetch_message_count P bridge_address tag =
     and_then (map_err Contract (l1_sub_message_count P bridge_address tag)) to_u64"

definition fetch_delayed_messages_read :: "'log provider \<Rightarrow> address \<Rightarrow> block_tag \<Rightarrow> l1_monitor_error + u64" where
  "fetch_delayed_messages_read P sequencer_inbox tag =
     and_then (map_err Contract (l1_total_delayed P sequencer_inbox tag)) to_u64"

text \<open>\<open>try_join!\<close> of the two reads; when both fail the error of either may be reported, here the first one's.\<close>

definition fetch_batch_cursor :: "'log provider \<Rightarrow> address \<Rightarrow> address \<Rightarrow> l1_monitor_error + batch_cursor" where
  "fetch_batch_cursor P bridge_address sequencer_inbox =
     and_then (fetch_message_count P bridge_address Latest) (\<lambda>msg_count.
     and_then (fetch_delayed_messages_read P sequencer_inbox Latest) (\<lambda>delayed_read.
     Inr \<lparr>last_batch_delayed_messages_read = delayed_read, next_batch_start_pos = msg_count\<rparr>))"

subsection \<open>The monitor\<close>

record l1_monitor_config =
  lmc_ws_url :: string
  lmc_sequencer_inbox_address :: address
  lmc_log_scan_step :: u64
  lmc_max_l1_blocks_to_scan :: u64
  lmc_poll_interval_ms :: u64

definition l1_monitor_config_of :: "nitro_config \<Rightarrow> l1_monitor_config" where
  "l1_monitor_config_of cfg =
     \<lparr>lmc_ws_url = l1_ws_url cfg, lmc_sequencer_inbox_address = sequencer_inbox_address cfg,
      lmc_log_scan_step = log_scan_step cfg, lmc_max_l1_blocks_to_scan = max_l1_blocks_to_scan_on_startup cfg,
      lmc_poll_interval_ms = l1_finalized_poll_interval_ms cfg\<rparr>"

record 'log nitro_l1_monitor =
  mon_provider :: "'log provider"
  mon_sequencer_inbox_address :: address
  mon_bridge_address :: address
  mon_log_scan_step :: u64
  mon_max_l1_blocks_to_scan :: u64
  mon_poll_interval_ms :: u64

text \<open>\<open>connect\<close> opens the websocket provider.\<close>

definition nitro_l1_monitor_new ::
  "(string \<Rightarrow> r_error + 'log provider) \<Rightarrow> l1_monitor_config \<Rightarrow> l1_monitor_error + 'log nitro_l1_monitor" where
  "nitro_l1_monitor_new connect cfg =
     and_then (map_err Transport (connect (lmc_ws_url cfg))) (\<lambda>P.
     and_then (read_bridge_address P (lmc_sequencer_inbox_address cfg)) (\<lambda>bridge_addr.
     Inr \<lparr>mon_provider = P, mon_sequencer_inbox_address = lmc_sequencer_inbox_address cfg,
          mon_bridge_address = bridge_addr, mon_log_scan_step = lmc_log_scan_step cfg,
          mon_max_l1_blocks_to_scan = lmc_max_l1_blocks_to_scan cfg,
          mon_poll_interval_ms = lmc_poll_interval_ms cfg\<rparr>))"

definition create_l1_monitor ::
  "(string \<Rightarrow> r_error + 'log provider) \<Rightarrow> nitro_config \<Rightarrow> l1_monitor_error + 'log nitro_l1_monitor" where
  "create_l1_monitor connect cfg = nitro_l1_monitor_new connect (l1_monitor_config_of cfg)"

definition fetch_latest_batch_cursor_on_fresh_deployment ::
  "'log nitro_l1_monitor \<Rightarrow> l1_monitor_error + batch_cursor" where
  "fetch_latest_batch_cursor_on_fresh_deployment m =
     fetch_batch_cursor (mon_provider m) (mon_bridge_address m) (mon_sequencer_inbox_address m)"

text \<open>The cursor fetcher the streamer asks at every verification.\<close>

record 'log nitro_batch_cursor_fetcher =
  cf_provider :: "'log provider"
  cf_bridge_address :: address
  cf_sequencer_inbox_address :: address

definition create_cursor_fetcher :: "'log nitro_l1_monitor \<Rightarrow> 'log nitro_batch_cursor_fetcher" where
  "create_cursor_fetcher m =
     \<lparr>cf_provider = mon_provider m, cf_bridge_address = mon_bridge_address m,
      cf_sequencer_inbox_address = mon_sequencer_inbox_address m\<rparr>"

definition cursor_fetch :: "'log nitro_batch_cursor_fetcher \<Rightarrow> l1_monitor_error + batch_cursor" where
  "cursor_fetch f = fetch_batch_cursor (cf_provider f) (cf_bridge_address f) (cf_sequencer_inbox_address f)"

subsection \<open>The checkpoint scan\<close>

record cas_checkpoint =
  cp_batch_cursor :: batch_cursor
  cp_hotshot_height :: u64

definition checkpoint_of_log :: "'log provider \<Rightarrow> 'log \<Rightarrow> l1_monitor_error + cas_checkpoint" where
  "checkpoint_of_log P log =
     and_then (map_err Contract (l1_decode_log P log)) (\<lambda>event.
     and_then (to_u64 (hotshotBlock event)) (\<lambda>height.
     and_then (to_u64 (delayedMessageRead event)) (\<lambda>delayed_message_read.
     and_then (to_u64 (messageCount event)) (\<lambda>message_count.
     Inr \<lparr>cp_batch_cursor = \<lparr>last_batch_delayed_messages_read = delayed_message_read,
            next_batch_start_pos = message_count\<rparr>,
          cp_hotshot_height = height\<rparr>))))"

definition scan_from_block :: "u64 \<Rightarrow> u64 \<Rightarrow> u64 \<Rightarrow> u64" where
  "scan_from_block step earliest_allowed to_block = max (saturating_sub to_block step) earliest_allowed"

lemma scan_from_block_progress:
  assumes "scan_from_block step earliest to_block \<noteq> earliest"
  shows "unat (saturating_sub (scan_from_block step earliest to_block) 1) < unat to_block"
    and "earliest \<le> saturating_sub (scan_from_block step earliest to_block) 1"
proof -
  let ?f = "scan_from_block step earliest to_block"
  have f: "?f = saturating_sub to_block step" "earliest < ?f"
    using assms by (auto simp: scan_from_block_def max_def split: if_splits)
  have "unat (saturating_sub to_block step) \<le> unat to_block"
    by (auto simp: saturating_sub_def not_less unat_sub)
  then have le: "unat ?f \<le> unat to_block" using f(1) by simp
  have pos: "0 < unat ?f" using f(2) by (simp add: word_less_nat_alt)
  then have "\<not> ?f < 1" by (simp add: word_less_nat_alt)
  then have s: "unat (saturating_sub ?f 1) = unat ?f - 1"
    using pos by (simp add: saturating_sub_def unat_minus_one unat_gt_0)
  show "unat (saturating_sub ?f 1) < unat to_block" using s le pos by simp
  show "earliest \<le> saturating_sub ?f 1" using s f(2) by (simp add: word_le_nat_alt word_less_nat_alt)
qed

text \<open>
  The loop of the scan. Every window is asked for once, so a provider whose answers change over time is the same as
  one that answers each window by a function.
\<close>

function scan_loop ::
  "'log provider \<Rightarrow> address \<Rightarrow> u64 \<Rightarrow> u64 \<Rightarrow> u64 \<Rightarrow> u64 \<Rightarrow> l1_monitor_error + cas_checkpoint" where
  "scan_loop P sequencer_inbox step max_blocks earliest_allowed to_block =
     (let from_block = scan_from_block step earliest_allowed to_block in
      case l1_get_logs P \<lparr>flt_address = sequencer_inbox, flt_event = EspressoCertificateVerified, flt_from_block = from_block, flt_to_block = to_block\<rparr> of
        Inl e \<Rightarrow> Inl (Transport e)
      | Inr logs \<Rightarrow>
          if logs \<noteq> [] then checkpoint_of_log P (last logs)
          else if from_block = earliest_allowed
          then (if max_blocks > 0 then Inl (CheckpointNotFound max_blocks)
                else Inr \<lparr>cp_batch_cursor = batch_cursor_default, cp_hotshot_height = 0\<rparr>)
          else scan_loop P sequencer_inbox step max_blocks earliest_allowed (saturating_sub from_block 1))"
  by pat_completeness auto
termination
  by (relation "measure (\<lambda>(P, inbox, step, mx, earliest, to_block). unat to_block)")
     (auto simp: scan_from_block_progress)

declare scan_loop.simps [simp del]

definition earliest_allowed_block :: "u64 \<Rightarrow> u64 \<Rightarrow> u64" where
  "earliest_allowed_block latest_block max_blocks =
     (if max_blocks > 0 then saturating_sub latest_block (max_blocks - 1) else 0)"

definition scan_for_latest_checkpoint ::
  "'log provider \<Rightarrow> address \<Rightarrow> u64 \<Rightarrow> u64 \<Rightarrow> l1_monitor_error + cas_checkpoint" where
  "scan_for_latest_checkpoint P sequencer_inbox step max_blocks =
     and_then (map_err Transport (l1_block_number P)) (\<lambda>latest_block.
     scan_loop P sequencer_inbox step max_blocks (earliest_allowed_block latest_block max_blocks) latest_block)"

definition fetch_latest_checkpoint_on_startup ::
  "'log nitro_l1_monitor \<Rightarrow> l1_monitor_error + cas_checkpoint" where
  "fetch_latest_checkpoint_on_startup m =
     scan_for_latest_checkpoint (mon_provider m) (mon_sequencer_inbox_address m) (mon_log_scan_step m)
       (mon_max_l1_blocks_to_scan m)"

subsection \<open>The finalization loop\<close>

text \<open>
  One tick: the answer to the query for the finalized block, and the provider for the count. The result is the new
  \<open>last_finalized_block\<close> and the index that is published, if any.
\<close>

definition finalized_tick ::
  "address \<Rightarrow> (r_error + u64 option) \<times> 'log provider \<Rightarrow> u64 \<Rightarrow> u64 \<times> u64 option" where
  "finalized_tick bridge_address tick last_finalized_block =
     (case fst tick of
        Inr (Some finalized_block) \<Rightarrow>
          if finalized_block \<le> last_finalized_block then (last_finalized_block, None)
          else
            (case fetch_message_count (snd tick) bridge_address (Number finalized_block) of
               Inr count \<Rightarrow> (finalized_block, Some (saturating_sub count 1))
             | Inl err \<Rightarrow> (last_finalized_block, None))
      | Inr None \<Rightarrow> (last_finalized_block, None)
      | Inl err \<Rightarrow> (last_finalized_block, None))"

fun monitor_start ::
  "address \<Rightarrow> ((r_error + u64 option) \<times> 'log provider) list \<Rightarrow> u64 \<Rightarrow> u64 \<times> u64 list" where
  "monitor_start bridge_address [] last_finalized_block = (last_finalized_block, [])"
| "monitor_start bridge_address (tick # ticks) last_finalized_block =
     (case finalized_tick bridge_address tick last_finalized_block of
        (block, sent) \<Rightarrow>
          let (block', rest) = monitor_start bridge_address ticks block
          in (block', (case sent of Some idx \<Rightarrow> idx # rest | None \<Rightarrow> rest)))"

subsection \<open>The scan finds the latest event\<close>

text \<open>The chain's events by block, and a provider that serves them for every window.\<close>

definition serves_events :: "'log provider \<Rightarrow> address \<Rightarrow> (nat \<Rightarrow> 'log list) \<Rightarrow> bool" where
  "serves_events P inbox events \<longleftrightarrow>
     (\<forall>a b. l1_get_logs P \<lparr>flt_address = inbox, flt_event = EspressoCertificateVerified, flt_from_block = a, flt_to_block = b\<rparr> =
        Inr (concat (map events [unat a..<Suc (unat b)])))"

definition events_in :: "(nat \<Rightarrow> 'log list) \<Rightarrow> nat \<Rightarrow> nat \<Rightarrow> 'log list" where
  "events_in events a b = concat (map events [a..<Suc b])"

definition checkpoint_of_events ::
  "'log provider \<Rightarrow> u64 \<Rightarrow> 'log list \<Rightarrow> l1_monitor_error + cas_checkpoint" where
  "checkpoint_of_events P max_blocks logs =
     (if logs \<noteq> [] then checkpoint_of_log P (last logs)
      else if max_blocks > 0 then Inl (CheckpointNotFound max_blocks)
      else Inr \<lparr>cp_batch_cursor = batch_cursor_default, cp_hotshot_height = 0\<rparr>)"

lemma events_in_split:
  "a \<le> c \<Longrightarrow> c \<le> Suc b \<Longrightarrow> 0 < c \<Longrightarrow> events_in events a b = events_in events a (c - 1) @ events_in events c b"
proof -
  assume c: "a \<le> c" "c \<le> Suc b" "0 < c"
  then have "[a..<Suc b] = [a..<c] @ [c..<Suc b]" by (metis le_add_diff_inverse upt_add_eq_append)
  moreover have "Suc (c - 1) = c" using c(3) by simp
  ultimately show ?thesis by (simp add: events_in_def del: upt_Suc)
qed

lemma scan_loop_finds:
  assumes "serves_events P inbox events" and "earliest \<le> to_block"
  shows "scan_loop P inbox step max_blocks earliest to_block =
    checkpoint_of_events P max_blocks (events_in events (unat earliest) (unat to_block))"
  using assms(2)
proof (induction "unat to_block" arbitrary: to_block rule: less_induct)
  case less
  let ?f = "scan_from_block step earliest to_block"
  let ?logs = "events_in events (unat ?f) (unat to_block)"
  have get: "l1_get_logs P \<lparr>flt_address = inbox, flt_event = EspressoCertificateVerified, flt_from_block = ?f, flt_to_block = to_block\<rparr> = Inr ?logs"
    using assms(1) by (simp add: serves_events_def events_in_def)
  show ?case
  proof (cases "?f = earliest")
    case True
    then show ?thesis
      using get by (subst scan_loop.simps) (simp add: Let_def checkpoint_of_events_def)
  next
    case False
    note pr = scan_from_block_progress [OF False]
    let ?t = "saturating_sub ?f 1"
    have IH: "scan_loop P inbox step max_blocks earliest ?t =
        checkpoint_of_events P max_blocks (events_in events (unat earliest) (unat ?t))"
      using less.hyps [OF pr(1) pr(2)] .
    have f: "earliest < ?f" using False by (auto simp: scan_from_block_def max_def split: if_splits)
    then have t: "unat ?t = unat ?f - 1" "0 < unat ?f" "unat earliest \<le> unat ?f"
      by (auto simp: saturating_sub_def word_less_nat_alt unat_sub word_le_nat_alt not_less)
    have "unat ?f \<le> Suc (unat to_block)"
      using pr(1) t by linarith
    from events_in_split [OF t(3) this t(2)]
    have "events_in events (unat earliest) (unat to_block) =
        events_in events (unat earliest) (unat ?t) @ ?logs" by (simp add: t(1))
    then show ?thesis
      using get IH False by (subst scan_loop.simps) (auto simp: Let_def checkpoint_of_events_def)
  qed
qed

lemma earliest_le_latest: "earliest_allowed_block latest mx \<le> latest"
  by (auto simp: earliest_allowed_block_def saturating_sub_def word_sub_le not_less)

lemma unat_earliest:
  "unat (earliest_allowed_block latest mx) =
     (if mx = 0 then 0 else unat latest + 1 - unat mx)"
proof (cases "mx = 0")
  case False
  then have m: "unat (mx - 1) = unat mx - 1" and pos: "0 < unat mx" by (simp_all add: unat_minus_one unat_gt_0)
  have "unat (saturating_sub latest (mx - 1)) = unat latest - (unat mx - 1)"
    using m by (auto simp: saturating_sub_def word_less_nat_alt not_less unat_sub word_le_nat_alt)
  also have "\<dots> = unat latest + 1 - unat mx" using pos by linarith
  finally show ?thesis using False by (simp add: earliest_allowed_block_def word_neq_0_conv)
qed (simp add: earliest_allowed_block_def)

lemma scan_finds:
  assumes "serves_events P inbox events" and "l1_block_number P = Inr latest"
  shows "scan_for_latest_checkpoint P inbox step max_blocks =
    checkpoint_of_events P max_blocks
      (events_in events (if max_blocks = 0 then 0 else unat latest + 1 - unat max_blocks) (unat latest))"
  using scan_loop_finds [OF assms(1) earliest_le_latest] assms(2)
  by (simp add: scan_for_latest_checkpoint_def unat_earliest)

subsection \<open>The published indices\<close>

text \<open>The published index and its block, tick by tick.\<close>

fun published ::
  "address \<Rightarrow> ((r_error + u64 option) \<times> 'log provider) list \<Rightarrow> u64 \<Rightarrow> (u64 \<times> u64) list" where
  "published bridge [] lfb = []"
| "published bridge (tick # ticks) lfb =
     (case finalized_tick bridge tick lfb of
        (block, Some idx) \<Rightarrow> (block, idx) # published bridge ticks block
      | (block, None) \<Rightarrow> published bridge ticks block)"

lemma monitor_start_published:
  "snd (monitor_start bridge ticks lfb) = map snd (published bridge ticks lfb)"
proof (induction ticks arbitrary: lfb)
  case (Cons tick ticks)
  obtain block sent where "finalized_tick bridge tick lfb = (block, sent)" by fastforce
  then show ?case using Cons.IH [of block] by (simp add: Let_def case_prod_beta split: option.split)
qed simp

lemma finalized_tick_Some:
  "finalized_tick bridge tick lfb = (block, Some idx) \<Longrightarrow>
     fst tick = Inr (Some block) \<and> lfb < block \<and>
     (\<exists>count. fetch_message_count (snd tick) bridge (Number block) = Inr count \<and> idx = saturating_sub count 1)"
  by (auto simp: finalized_tick_def not_le split: sum.splits option.splits if_splits)

lemma finalized_tick_None: "finalized_tick bridge tick lfb = (block, None) \<Longrightarrow> block = lfb"
  by (auto simp: finalized_tick_def split: sum.splits option.splits if_splits)

lemma published_blocks_increase: "sorted_wrt (<) (lfb # map fst (published bridge ticks lfb))"
proof (induction ticks arbitrary: lfb)
  case (Cons tick ticks)
  show ?case
  proof (cases "finalized_tick bridge tick lfb")
    case (Pair block sent)
    show ?thesis
    proof (cases sent)
      case None
      then show ?thesis using Pair finalized_tick_None [of bridge tick lfb block] Cons.IH [of lfb] by simp
    next
      case (Some idx)
      then have "lfb < block" using finalized_tick_Some [of bridge tick lfb block idx] Pair by simp
      then show ?thesis using Pair Some Cons.IH [of block] by (auto dest: less_trans)
    qed
  qed
qed simp

text \<open>With one growing message count for all ticks, the published indices never decrease.\<close>

definition counts_chain :: "(u64 \<Rightarrow> u64) \<Rightarrow> address \<Rightarrow> 'log provider \<Rightarrow> bool" where
  "counts_chain count bridge P \<longleftrightarrow>
     (\<forall>b c. fetch_message_count P bridge (Number b) = Inr c \<longrightarrow> c = count b)"

lemma published_counts:
  assumes "\<forall>tick \<in> set ticks. counts_chain count bridge (snd tick)"
  shows "\<forall>(b, idx) \<in> set (published bridge ticks lfb). idx = saturating_sub (count b) 1"
  using assms
proof (induction ticks arbitrary: lfb)
  case (Cons tick ticks)
  show ?case
  proof (cases "finalized_tick bridge tick lfb")
    case (Pair block sent)
    show ?thesis
    proof (cases sent)
      case None
      then show ?thesis using Pair Cons by simp
    next
      case (Some idx)
      then have "idx = saturating_sub (count block) 1"
        using finalized_tick_Some [of bridge tick lfb block idx] Pair Cons.prems by (auto simp: counts_chain_def)
      then show ?thesis using Pair Some Cons by simp
    qed
  qed
qed simp

lemma saturating_sub_mono: "a \<le> b \<Longrightarrow> saturating_sub a c \<le> saturating_sub b (c :: u64)"
  by (auto simp: saturating_sub_def word_le_nat_alt word_less_nat_alt unat_sub not_less)

lemma published_monotone:
  assumes "\<forall>tick \<in> set ticks. counts_chain count bridge (snd tick)" and "mono count"
  shows "sorted_wrt (\<le>) (map snd (published bridge ticks lfb))"
proof -
  have "sorted_wrt (<) (map fst (published bridge ticks lfb))"
    using published_blocks_increase [of lfb bridge ticks] by simp
  then have blocks: "sorted_wrt (\<lambda>p q. fst p < fst q) (published bridge ticks lfb)" by (simp add: sorted_wrt_map)
  have idx: "snd p = saturating_sub (count (fst p)) 1" if "p \<in> set (published bridge ticks lfb)" for p
    using published_counts [OF assms(1), of lfb] that by auto
  have "snd p \<le> snd q" if "p \<in> set (published bridge ticks lfb)" "q \<in> set (published bridge ticks lfb)" "fst p < fst q" for p q
    unfolding idx [OF that(1)] idx [OF that(2)]
    by (rule saturating_sub_mono [OF monoD [OF assms(2)]]) (use that(3) in simp)
  then have "sorted_wrt (\<lambda>p q. snd p \<le> snd q) (published bridge ticks lfb)"
    using blocks by (rule sorted_wrt_mono_rel)
  then show ?thesis by (simp add: sorted_wrt_map)
qed

end
