(* ===== verification/Key_Manager.thy ===== *)
theory Key_Manager
  imports Std_Io Nitro_Signature
begin

text \<open>
  The key manager (\<open>src/key_manager\<close>): attestation through the Nitro Security Module, the ZK proof service, the
  on-chain TEE verifier, the registration of the enclave's key, and the EIP-712 signature. Services are effects on
  a world \<open>'w\<close>; hashing, signing and ABI encoding are parameters.
\<close>

subsection \<open>Types\<close>

datatype tee_type = TeeNitro | TeeTest

fun tee_type_u8 :: "tee_type \<Rightarrow> u8" where
  "tee_type_u8 TeeNitro = 0"
| "tee_type_u8 TeeTest = 1"

record 'w espresso_tee_verifier =
  register_service :: "bytes \<Rightarrow> bytes \<Rightarrow> u8 \<Rightarrow> ('w, r_error, unit) io"
  registered_services :: "address \<Rightarrow> tee_type \<Rightarrow> ('w, r_error, bool) io"

datatype key_manager_error =
    InvalidConfig string
  | EmptyAttestation tee_type
  | EmptyJournal tee_type
  | EmptyProof tee_type
  | AttestationRetrievalFailed r_error
  | ZkProofGenerationFailed r_error
  | OnChainVerificationFailed r_error
  | PreparationExhausted u8 address
  | RegistrationExhausted u8 address
  | SigningFailed r_error

text \<open>A private key as the signer uses it, and the EIP-712 domain.\<close>

record private_key_signer =
  signer_addr :: address
  signer_public_key :: bytes
  sign_hash_sync :: "b256 \<Rightarrow> r_error + bytes"

record eip712_domain =
  domain_name :: string
  domain_version :: string
  domain_chain_id :: nat
  verifying_contract :: address

record verifier_journal =
  journal_result :: u8
  trusted_certs_prefix_len :: u8
  journal_timestamp :: u64
  journal_certs :: "b256 list"
  user_data :: bytes
  journal_nonce :: bytes
  journal_public_key :: bytes
  journal_pcrs :: "(u64 \<times> bytes) list"
  module_id :: string

record sign_lib =
  sl_keccak256 :: "bytes \<Rightarrow> b256"
  sl_eip712_hash :: "eip712_domain \<Rightarrow> b256 \<Rightarrow> b256"
  sl_abi_encode_journal :: "verifier_journal \<Rightarrow> bytes"
  sl_signature_try_from :: "bytes \<Rightarrow> r_error + bytes \<times> bool"
  sl_recover :: "bytes \<times> bool \<Rightarrow> b256 \<Rightarrow> r_error + address"

subsection \<open>The Nitro Security Module\<close>

datatype nsm_response = NsmAttestation bytes | NsmError string | NsmOther string

record nsm_request =
  req_public_key :: "bytes option"
  req_user_data :: "bytes option"
  req_nonce :: "bytes option"

record 'w nsm_driver =
  nsm_init :: "('w, int) state"
  nsm_process_request :: "int \<Rightarrow> nsm_request \<Rightarrow> ('w, nsm_response) state"
  nsm_exit :: "int \<Rightarrow> ('w, unit) state"

definition nsm_get_attestation :: "'w nsm_driver \<Rightarrow> bytes \<Rightarrow> ('w, r_error, bytes) io" where
  "nsm_get_attestation D pub_key = do {
     fd \<leftarrow> nsm_init D;
     if fd < 0 then ret (Inl ''failed to open NSM session'')
     else do {
       response \<leftarrow> nsm_process_request D fd
         \<lparr>req_public_key = Some pub_key, req_user_data = None, req_nonce = None\<rparr>;
       nsm_exit D fd;
       ret (case response of
              NsmAttestation document \<Rightarrow>
                if document = [] then Inl ''no attestation document returned'' else Inr document
            | NsmError err \<Rightarrow> Inl (''NSM returned error: '' @ err)
            | NsmOther other \<Rightarrow> Inl (''unexpected NSM response: '' @ other))
     }
   }"

subsection \<open>The proof service\<close>

definition strip_hex_prefix :: "string \<Rightarrow> string" where
  "strip_hex_prefix s =
     (if take 2 s = ''0x'' then drop 2 s else if take 2 s = ''0X'' then drop 2 s else s)"

text \<open>The parsed response: \<open>raw_proof.journal\<close> and \<open>onchain_proof\<close>.\<close>

record onchain_proof_response =
  raw_journal :: string
  onchain_proof :: string

record 'w http_attestation_verifier_client =
  ac_join_url :: "string \<Rightarrow> r_error + string"
  ac_post :: "string \<Rightarrow> bytes \<Rightarrow> ('w, r_error, nat \<times> (r_error + bytes)) io"
  ac_from_slice :: "bytes \<Rightarrow> r_error + onchain_proof_response"
  ac_hex_decode :: "string \<Rightarrow> r_error + bytes"
  ac_utf8_lossy :: "bytes \<Rightarrow> string"

definition parse_proof_response ::
  "'w http_attestation_verifier_client \<Rightarrow> nat \<Rightarrow> bytes \<Rightarrow> r_error + bytes \<times> bytes" where
  "parse_proof_response A status response_data =
     (if \<not> (200 \<le> status \<and> status < 300)
      then Inl (''attestation service returned status '' @ show_nat status @ '': '' @ ac_utf8_lossy A response_data)
      else
        and_then (ac_from_slice A response_data) (\<lambda>zk_proof.
        and_then (map_err (\<lambda>e. ''failed to decode journal hex string: '' @ e)
          (ac_hex_decode A (strip_hex_prefix (raw_journal zk_proof)))) (\<lambda>journal_bytes.
        and_then (map_err (\<lambda>e. ''failed to decode onchain proof hex string: '' @ e)
          (ac_hex_decode A (strip_hex_prefix (onchain_proof zk_proof)))) (\<lambda>onchain_proof_bytes.
        Inr (journal_bytes, onchain_proof_bytes)))))"

definition http_generate_zk_proof ::
  "'w http_attestation_verifier_client \<Rightarrow> bytes \<Rightarrow> ('w, r_error, bytes \<times> bytes) io" where
  "http_generate_zk_proof A attestation =
     io_then (ret (map_err (\<lambda>e. ''failed to construct generate_proof URL: '' @ e) (ac_join_url A ''generate_proof''))) (\<lambda>url.
     io_then (ac_post A url attestation) (\<lambda>(status, body).
     io_then (ret body) (\<lambda>response_data.
     ret (parse_proof_response A status response_data))))"

subsection \<open>The verifier contract\<close>

text \<open>
  \<open>cr_send\<close> submits the registration transaction and returns its hash, \<open>cr_watch\<close> waits for it, and
  \<open>cr_is_signer_valid\<close> is the view call.
\<close>

record ('w, 'h) contract_rpc =
  cr_send :: "address \<Rightarrow> bytes \<Rightarrow> bytes \<Rightarrow> u8 \<Rightarrow> ('w, r_error, 'h) io"
  cr_watch :: "'h \<Rightarrow> ('w, r_error, unit) io"
  cr_is_signer_valid :: "address \<Rightarrow> address \<Rightarrow> u8 \<Rightarrow> ('w, r_error, bool) io"

definition tee_verifier :: "('w, 'h) contract_rpc \<Rightarrow> address \<Rightarrow> 'w espresso_tee_verifier" where
  "tee_verifier rpc contract_address =
     \<lparr>register_service = \<lambda>verification_data data ty.
        io_then (cr_send rpc contract_address verification_data data ty) (\<lambda>pending. cr_watch rpc pending),
      registered_services = \<lambda>addr ty. cr_is_signer_valid rpc contract_address addr (tee_type_u8 ty)\<rparr>"

subsection \<open>The key manager\<close>

record 'w key_manager =
  km_tee_verifier :: "'w espresso_tee_verifier"
  km_generate_zk_proof :: "bytes \<Rightarrow> ('w, r_error, bytes \<times> bytes) io"
  km_get_attestation :: "bytes \<Rightarrow> ('w, r_error, bytes) io"
  max_register_attempts :: u8
  km_tee_type :: tee_type
  km_signer :: private_key_signer
  parent_chain_id :: u64
  tee_verifier_address :: address

definition key_manager_new ::
  "'w espresso_tee_verifier \<Rightarrow> (bytes \<Rightarrow> ('w, r_error, bytes \<times> bytes) io) \<Rightarrow> (bytes \<Rightarrow> ('w, r_error, bytes) io)
     \<Rightarrow> u8 \<Rightarrow> tee_type \<Rightarrow> u64 \<Rightarrow> address \<Rightarrow> private_key_signer \<Rightarrow> key_manager_error + 'w key_manager" where
  "key_manager_new verifier zk attest attempts ty chain contract signer =
     (if attempts = 0 then Inl (InvalidConfig ''max_register_attempts must be greater than 0'')
      else if attempts > 10
      then Inl (InvalidConfig ''max_register_attempts must be less than or equal to 10 to prevent excessive retries'')
      else Inr \<lparr>km_tee_verifier = verifier, km_generate_zk_proof = zk, km_get_attestation = attest,
                max_register_attempts = attempts, km_tee_type = ty, km_signer = signer,
                parent_chain_id = chain, tee_verifier_address = contract\<rparr>)"

text \<open>The two public constructors, the test one with its attestation parts.\<close>

definition key_manager_new_nsm ::
  "'w espresso_tee_verifier \<Rightarrow> (bytes \<Rightarrow> ('w, r_error, bytes \<times> bytes) io) \<Rightarrow> 'w nsm_driver \<Rightarrow> u8 \<Rightarrow> tee_type
     \<Rightarrow> u64 \<Rightarrow> address \<Rightarrow> private_key_signer \<Rightarrow> key_manager_error + 'w key_manager" where
  "key_manager_new_nsm verifier zk D attempts ty chain contract signer =
     key_manager_new verifier zk (nsm_get_attestation D) attempts ty chain contract signer"

definition no_op_generate_zk_proof :: "bytes \<Rightarrow> ('w, r_error, bytes \<times> bytes) io" where
  "no_op_generate_zk_proof attestation = ret (Inr ([], []))"

definition no_op_get_attestation :: "bytes \<Rightarrow> ('w, r_error, bytes) io" where
  "no_op_get_attestation pub_key = ret (Inr pub_key)"

definition key_manager_new_for_test ::
  "'w espresso_tee_verifier \<Rightarrow> u8 \<Rightarrow> u64 \<Rightarrow> address \<Rightarrow> private_key_signer \<Rightarrow> key_manager_error + 'w key_manager" where
  "key_manager_new_for_test verifier attempts chain contract random_signer =
     key_manager_new verifier no_op_generate_zk_proof no_op_get_attestation attempts TeeTest chain contract random_signer"

definition on_chain_tee_type :: "'w key_manager \<Rightarrow> tee_type" where
  "on_chain_tee_type km = (case km_tee_type km of TeeTest \<Rightarrow> TeeNitro | other \<Rightarrow> other)"

definition encode_mock_verifier_journal :: "sign_lib \<Rightarrow> bytes \<Rightarrow> bytes" where
  "encode_mock_verifier_journal L pub_key =
     sl_abi_encode_journal L
       \<lparr>journal_result = 0, trusted_certs_prefix_len = 0, journal_timestamp = 0, journal_certs = [],
        user_data = [], journal_nonce = [], journal_public_key = pub_key, journal_pcrs = [], module_id = []\<rparr>"

definition prepare_register_service ::
  "sign_lib \<Rightarrow> 'w key_manager \<Rightarrow> ('w, key_manager_error, bytes \<times> bytes) io" where
  "prepare_register_service L km =
     (let pub_key_bytes = signer_public_key (km_signer km) in
      if km_tee_type km = TeeTest then ret (Inr (encode_mock_verifier_journal L pub_key_bytes, []))
      else
        io_then (io_map_err AttestationRetrievalFailed (km_get_attestation km pub_key_bytes)) (\<lambda>attestation.
        if attestation = [] then ret (Inl (EmptyAttestation (km_tee_type km)))
        else
          io_then (io_map_err ZkProofGenerationFailed (km_generate_zk_proof km attestation))
            (\<lambda>(journal_bytes, proof_bytes).
          if journal_bytes = [] then ret (Inl (EmptyJournal (km_tee_type km)))
          else if proof_bytes = [] then ret (Inl (EmptyProof (km_tee_type km)))
          else ret (Inr (journal_bytes, proof_bytes)))))"

definition verify_registration_on_chain :: "'w key_manager \<Rightarrow> ('w, key_manager_error, bool) io" where
  "verify_registration_on_chain km =
     io_map_err OnChainVerificationFailed
       (registered_services (km_tee_verifier km) (signer_addr (km_signer km)) (on_chain_tee_type km))"

text \<open>The two retry loops of \<open>initialize\<close>; the argument counts the attempts that are left.\<close>

fun prepare_attempts :: "sign_lib \<Rightarrow> 'w key_manager \<Rightarrow> nat \<Rightarrow> ('w, (bytes \<times> bytes) option) state" where
  "prepare_attempts L km 0 = ret None"
| "prepare_attempts L km (Suc n) = do {
     r \<leftarrow> prepare_register_service L km;
     case r of Inr data \<Rightarrow> ret (Some data) | Inl err \<Rightarrow> prepare_attempts L km n
   }"

fun register_attempts ::
  "'w key_manager \<Rightarrow> bytes \<Rightarrow> bytes \<Rightarrow> nat \<Rightarrow> ('w, key_manager_error, unit) io" where
  "register_attempts km journal_bytes proof_bytes 0 =
     ret (Inl (RegistrationExhausted (max_register_attempts km) (signer_addr (km_signer km))))"
| "register_attempts km journal_bytes proof_bytes (Suc n) = do {
     r \<leftarrow> register_service (km_tee_verifier km) journal_bytes proof_bytes (tee_type_u8 (on_chain_tee_type km));
     case r of
       Inr u \<Rightarrow>
         io_then (verify_registration_on_chain km) (\<lambda>is_registered.
           if is_registered then ret (Inr ()) else register_attempts km journal_bytes proof_bytes n)
     | Inl e \<Rightarrow> register_attempts km journal_bytes proof_bytes n
   }"

definition initialize :: "sign_lib \<Rightarrow> 'w key_manager \<Rightarrow> ('w, key_manager_error, unit) io" where
  "initialize L km =
     (let attempts = unat (max_register_attempts km) in
      io_then (verify_registration_on_chain km) (\<lambda>has_registered.
        if has_registered then ret (Inr ())
        else do {
          registration_data \<leftarrow> prepare_attempts L km attempts;
          case registration_data of
            None \<Rightarrow> ret (Inl (PreparationExhausted (max_register_attempts km) (signer_addr (km_signer km))))
          | Some (journal_bytes, proof_bytes) \<Rightarrow> register_attempts km journal_bytes proof_bytes attempts
        }))"

subsection \<open>Signatures\<close>

definition compute_cas_signing_hash :: "sign_lib \<Rightarrow> bytes \<Rightarrow> u64 \<Rightarrow> address \<Rightarrow> b256" where
  "compute_cas_signing_hash L msg chain verifier_address =
     sl_eip712_hash L
       \<lparr>domain_name = ''EspressoTEEVerifier'', domain_version = ''1'', domain_chain_id = unat chain,
        verifying_contract = verifier_address\<rparr>
       (sl_keccak256 L msg)"

definition sign_typed_message ::
  "sign_lib \<Rightarrow> bytes \<Rightarrow> private_key_signer \<Rightarrow> u64 \<Rightarrow> address \<Rightarrow> key_manager_error + bytes" where
  "sign_typed_message L msg signer chain verifier_address =
     map_err SigningFailed (sign_hash_sync signer (compute_cas_signing_hash L msg chain verifier_address))"

definition sign_message :: "sign_lib \<Rightarrow> 'w key_manager \<Rightarrow> bytes \<Rightarrow> key_manager_error + bytes" where
  "sign_message L km msg =
     sign_typed_message L msg (km_signer km) (parent_chain_id km) (tee_verifier_address km)"

subsection \<open>What the services promise\<close>

text \<open>
  \<open>truthful\<close>: the view call answers what the contract holds. \<open>counts_registrations\<close>: a counter of registration
  transactions that only \<open>register_service\<close> moves, by one. \<open>registers_after\<close>: registration fails a number of times
  and then makes the key valid. \<open>counts_sessions\<close>: the driver's open sessions.
\<close>

definition truthful :: "'w espresso_tee_verifier \<Rightarrow> ('w \<Rightarrow> address \<Rightarrow> tee_type \<Rightarrow> bool) \<Rightarrow> bool" where
  "truthful V valid \<longleftrightarrow>
     (\<forall>addr ty w b w'. run_state (registered_services V addr ty) w = (Inr b, w') \<longrightarrow> b = valid w' addr ty)"

definition advances :: "('w \<Rightarrow> nat) \<Rightarrow> nat \<Rightarrow> ('w, 'a) state \<Rightarrow> bool" where
  "advances count k m \<longleftrightarrow> (\<forall>w. count (snd (run_state m w)) \<le> count w + k)"

definition counts_registrations :: "('w \<Rightarrow> nat) \<Rightarrow> 'w key_manager \<Rightarrow> bool" where
  "counts_registrations count km \<longleftrightarrow>
     (\<forall>j p ty. advances count 1 (register_service (km_tee_verifier km) j p ty)) \<and>
     (\<forall>addr ty. advances count 0 (registered_services (km_tee_verifier km) addr ty)) \<and>
     (\<forall>b. advances count 0 (km_generate_zk_proof km b)) \<and> (\<forall>b. advances count 0 (km_get_attestation km b))"

definition registers_after :: "('w \<Rightarrow> nat) \<Rightarrow> address \<Rightarrow> tee_type \<Rightarrow> 'w espresso_tee_verifier \<Rightarrow> bool" where
  "registers_after fails addr ty V \<longleftrightarrow>
     (\<forall>j p w. case run_state (register_service V j p (tee_type_u8 ty)) w of
        (Inl e, w') \<Rightarrow> 0 < fails w \<and> fails w' = fails w - 1
      | (Inr u, w') \<Rightarrow> fails w = 0 \<and> (\<exists>w''. run_state (registered_services V addr ty) w' = (Inr True, w'')))"

definition counts_sessions :: "('w \<Rightarrow> nat) \<Rightarrow> 'w nsm_driver \<Rightarrow> bool" where
  "counts_sessions sessions D \<longleftrightarrow>
     (\<forall>w fd w'. run_state (nsm_init D) w = (fd, w') \<longrightarrow> sessions w' = sessions w + (if fd < 0 then 0 else 1)) \<and>
     (\<forall>fd q w. sessions (snd (run_state (nsm_process_request D fd q) w)) = sessions w) \<and>
     (\<forall>fd w. sessions (snd (run_state (nsm_exit D fd) w)) = sessions w - 1)"

subsection \<open>Counting\<close>

lemma advances_bind:
  assumes "advances count k m" and "\<And>x. advances count l (f x)"
  shows "advances count (k + l) (State_Monad.bind m f)"
  unfolding advances_def
proof
  fix w
  obtain x w' where m: "run_state m w = (x, w')" by fastforce
  have "count w' \<le> count w + k" using assms(1) [unfolded advances_def, rule_format, of w] by (simp add: m)
  moreover have "count (snd (run_state (f x) w')) \<le> count w' + l"
    using assms(2) [unfolded advances_def] by blast
  ultimately show "count (snd (run_state (State_Monad.bind m f) w)) \<le> count w + (k + l)" by (simp add: m)
qed

lemma advances_ret [simp]: "advances count k (ret x)"
  by (simp add: advances_def)

lemma advances_then:
  assumes "advances count k m" and "\<And>x. advances count l (f x)"
  shows "advances count (k + l) (io_then m f)"
  unfolding io_then_def by (rule advances_bind [OF assms(1)]) (simp add: assms(2) split: sum.split)

lemma advances_map_err: "advances count k m \<Longrightarrow> advances count k (io_map_err g m)"
  using advances_bind [of count k m 0 "\<lambda>r. ret (map_err g r)"] by (simp add: io_map_err_def)

lemmas advances_then0 = advances_then [where k = 0 and l = 0, simplified]

lemma prepare_advances:
  assumes "counts_registrations count km"
  shows "advances count 0 (prepare_register_service L km)"
  using assms unfolding counts_registrations_def prepare_register_service_def Let_def
  by (auto intro!: advances_then0 advances_map_err split: prod.split)

lemma prepare_attempts_advances:
  assumes "counts_registrations count km"
  shows "advances count 0 (prepare_attempts L km n)"
proof (induction n)
  case (Suc n)
  have "advances count (0 + 0) (prepare_attempts L km (Suc n))"
    unfolding prepare_attempts.simps
    by (rule advances_bind [OF prepare_advances [OF assms]]) (simp add: Suc.IH split: sum.split)
  then show ?case by simp
qed simp

lemma verify_advances:
  "counts_registrations count km \<Longrightarrow> advances count 0 (verify_registration_on_chain km)"
  by (simp add: verify_registration_on_chain_def counts_registrations_def advances_map_err)

lemma register_attempts_advances:
  assumes "counts_registrations count km"
  shows "advances count n (register_attempts km j p n)"
proof (induction n)
  case (Suc n)
  have "advances count (0 + n) (io_then (verify_registration_on_chain km) (\<lambda>is_registered.
           if is_registered then ret (Inr ()) else register_attempts km j p n))"
    by (rule advances_then [OF verify_advances [OF assms]]) (simp add: Suc.IH)
  then have "advances count (1 + n) (register_attempts km j p (Suc n))"
    unfolding register_attempts.simps
    using assms by (intro advances_bind) (auto simp: counts_registrations_def Suc.IH split: sum.split)
  then show ?case by simp
qed simp

lemma initialize_advances:
  assumes "counts_registrations count km"
  shows "advances count (unat (max_register_attempts km)) (initialize L km)"
proof -
  let ?n = "unat (max_register_attempts km)"
  have "advances count (0 + (0 + ?n)) (initialize L km)"
    unfolding initialize_def Let_def
  proof (intro advances_then [OF verify_advances [OF assms]])
    fix has_registered
    have "advances count (0 + ?n) (do {
          registration_data \<leftarrow> prepare_attempts L km ?n;
          case registration_data of
            None \<Rightarrow> ret (Inl (PreparationExhausted (max_register_attempts km) (signer_addr (km_signer km))))
          | Some (journal_bytes, proof_bytes) \<Rightarrow> register_attempts km journal_bytes proof_bytes ?n})"
      by (rule advances_bind [OF prepare_attempts_advances [OF assms]])
         (auto simp: register_attempts_advances [OF assms] split: option.split)
    then show "advances count (0 + ?n) (if has_registered then ret (Inr ()) else do {
          registration_data \<leftarrow> prepare_attempts L km ?n;
          case registration_data of
            None \<Rightarrow> ret (Inl (PreparationExhausted (max_register_attempts km) (signer_addr (km_signer km))))
          | Some (journal_bytes, proof_bytes) \<Rightarrow> register_attempts km journal_bytes proof_bytes ?n})"
      by simp
  qed
  then show ?thesis by simp
qed

subsection \<open>Registration\<close>

lemma verify_registered:
  assumes "truthful (km_tee_verifier km) valid"
    and "run_state (verify_registration_on_chain km) w = (Inr b, w')"
  shows "b = valid w' (signer_addr (km_signer km)) (on_chain_tee_type km)"
  using assms by (auto simp: truthful_def verify_registration_on_chain_def run_io_map_err_Inr)

lemma register_attempts_registered:
  assumes "truthful (km_tee_verifier km) valid"
    and "run_state (register_attempts km j p n) w = (Inr (), w')"
  shows "valid w' (signer_addr (km_signer km)) (on_chain_tee_type km)"
  using assms(2)
proof (induction n arbitrary: w)
  case (Suc n)
  obtain r w1 where r: "run_state (register_service (km_tee_verifier km) j p (tee_type_u8 (on_chain_tee_type km))) w = (r, w1)"
    by fastforce
  show ?case
  proof (cases r)
    case (Inl e)
    then show ?thesis using Suc r by simp
  next
    case (Inr u)
    then obtain b w2 where v: "run_state (verify_registration_on_chain km) w1 = (Inr b, w2)"
      and rest: "run_state (if b then ret (Inr ()) else register_attempts km j p n) w2 = (Inr (), w')"
      using Suc.prems r by (auto simp: run_io_then_Inr)
    show ?thesis
    proof (cases b)
      case True
      then show ?thesis using verify_registered [OF assms(1) v] rest by simp
    qed (use rest Suc.IH in simp)
  qed
qed simp

lemma initialize_registered:
  assumes "truthful (km_tee_verifier km) valid" and "run_state (initialize L km) w = (Inr (), w')"
  shows "valid w' (signer_addr (km_signer km)) (on_chain_tee_type km)"
proof -
  obtain b w1 where v: "run_state (verify_registration_on_chain km) w = (Inr b, w1)"
    and rest: "run_state (if b then ret (Inr ()) else do {
          registration_data \<leftarrow> prepare_attempts L km (unat (max_register_attempts km));
          case registration_data of
            None \<Rightarrow> ret (Inl (PreparationExhausted (max_register_attempts km) (signer_addr (km_signer km))))
          | Some (journal_bytes, proof_bytes) \<Rightarrow>
              register_attempts km journal_bytes proof_bytes (unat (max_register_attempts km))}) w1 = (Inr (), w')"
    using assms(2) by (auto simp: initialize_def Let_def run_io_then_Inr)
  show ?thesis
  proof (cases b)
    case True
    then show ?thesis using verify_registered [OF assms(1) v] rest by simp
  next
    case False
    then show ?thesis using rest register_attempts_registered [OF assms(1)]
      by (auto split: prod.splits option.splits)
  qed
qed

lemma register_attempts_succeeds:
  assumes "registers_after fails (signer_addr (km_signer km)) (on_chain_tee_type km) (km_tee_verifier km)"
    and "fails w < n"
  shows "fst (run_state (register_attempts km j p n) w) = Inr ()"
  using assms(2)
proof (induction n arbitrary: w)
  case (Suc n)
  obtain r w1 where r: "run_state (register_service (km_tee_verifier km) j p (tee_type_u8 (on_chain_tee_type km))) w = (r, w1)"
    by fastforce
  have step: "case (r, w1) of (Inl e, w') \<Rightarrow> 0 < fails w \<and> fails w' = fails w - 1
      | (Inr u, w') \<Rightarrow> fails w = 0 \<and> (\<exists>w''. run_state (registered_services (km_tee_verifier km)
          (signer_addr (km_signer km)) (on_chain_tee_type km)) w' = (Inr True, w''))"
    unfolding r [symmetric] by (rule assms(1) [unfolded registers_after_def, THEN spec, THEN spec, THEN spec])
  show ?case
  proof (cases r)
    case (Inl e)
    with step have "0 < fails w" "fails w1 = fails w - 1" by simp_all
    with Inl Suc show ?thesis by (simp add: r)
  next
    case (Inr u)
    with step obtain w2 where "run_state (registered_services (km_tee_verifier km) (signer_addr (km_signer km))
        (on_chain_tee_type km)) w1 = (Inr True, w2)" by auto
    then have "run_state (verify_registration_on_chain km) w1 = (Inr True, w2)"
      by (simp add: verify_registration_on_chain_def run_io_map_err_Inr)
    with Inr show ?thesis by (simp add: r run_io_then)
  qed
qed simp

lemma key_manager_new_cases:
  "key_manager_new verifier zk attest attempts ty chain contract signer = Inr km \<Longrightarrow>
     max_register_attempts km = attempts \<and> 0 < unat attempts \<and> unat attempts \<le> 10 \<and>
     km_signer km = signer \<and> km_tee_verifier km = verifier \<and> km_tee_type km = ty \<and>
     km_generate_zk_proof km = zk \<and> km_get_attestation km = attest"
  by (auto simp: key_manager_new_def not_less word_le_nat_alt unat_gt_0 split: if_splits)

subsection \<open>The NSM session\<close>

lemma nsm_session_balanced:
  assumes "counts_sessions sessions D"
  shows "sessions (snd (run_state (nsm_get_attestation D pub_key) w)) = sessions w"
proof -
  obtain fd w1 where i: "run_state (nsm_init D) w = (fd, w1)" by fastforce
  have s1: "sessions w1 = sessions w + (if fd < 0 then 0 else 1)"
    using assms i by (simp add: counts_sessions_def)
  show ?thesis
  proof (cases "fd < 0")
    case True
    then show ?thesis using s1 by (simp add: nsm_get_attestation_def i)
  next
    case False
    obtain r w2 where p: "run_state (nsm_process_request D fd
        \<lparr>req_public_key = Some pub_key, req_user_data = None, req_nonce = None\<rparr>) w1 = (r, w2)" by fastforce
    obtain w3 where e: "run_state (nsm_exit D fd) w2 = ((), w3)"
      by (cases "run_state (nsm_exit D fd) w2") auto
    have "sessions w2 = sessions w1"
      using assms p unfolding counts_sessions_def by (metis snd_conv)
    moreover have "sessions w3 = sessions w2 - 1"
      using assms e unfolding counts_sessions_def by (metis snd_conv)
    ultimately show ?thesis using False s1 by (simp add: nsm_get_attestation_def i p e)
  qed
qed

end
