(* ===== verification/Certificate.thy ===== *)
theory Certificate
  imports Da_Types Key_Manager
begin

text \<open>
  The CAS certificate (\<open>src/da_api/nitro/certificate\<close>): its byte layout with encoder and decoder, the payload it
  signs, construction and validation, and the extraction of the downstream certificate from a sequencer message
  (\<open>src/da_api/nitro/utils.rs\<close>).
\<close>

subsection \<open>Encoder and decoder\<close>

record encoder =
  enc_buf :: bytes

definition encoder_new :: encoder where
  "encoder_new = \<lparr>enc_buf = []\<rparr>"

definition push_bytes :: "bytes \<Rightarrow> encoder \<Rightarrow> encoder" where
  "push_bytes bs e = e\<lparr>enc_buf := enc_buf e @ bs\<rparr>"

record decoder =
  dec_data :: bytes
  dec_position :: nat

definition decoder_new :: "bytes \<Rightarrow> decoder" where
  "decoder_new data = \<lparr>dec_data = data, dec_position = 0\<rparr>"

definition remaining :: "decoder \<Rightarrow> nat" where
  "remaining d = length (dec_data d) - dec_position d"

definition read_bytes :: "nat \<Rightarrow> decoder \<Rightarrow> da_api_error + bytes \<times> decoder" where
  "read_bytes len d =
     (if remaining d < len then Inl (InvalidCertificateLength (length (dec_data d)))
      else Inr (take len (drop (dec_position d) (dec_data d)), d\<lparr>dec_position := dec_position d + len\<rparr>))"

definition read_u64 :: "decoder \<Rightarrow> da_api_error + u64 \<times> decoder" where
  "read_u64 d = and_then (read_bytes 8 d) (\<lambda>(bs, d'). Inr (from_be_bytes bs, d'))"

text \<open>A slice of the right length always becomes an array.\<close>

definition read_fixed :: "nat \<Rightarrow> decoder \<Rightarrow> da_api_error + bytes \<times> decoder" where
  "read_fixed len d = read_bytes len d"

definition read_rest :: "decoder \<Rightarrow> bytes \<times> decoder" where
  "read_rest d = (drop (dec_position d) (dec_data d), d\<lparr>dec_position := length (dec_data d)\<rparr>)"

subsection \<open>Layout\<close>

definition MESSAGE_POS_SIZE :: nat where
  "MESSAGE_POS_SIZE = 8"

definition HOTSHOT_BLOCK_SIZE :: nat where
  "HOTSHOT_BLOCK_SIZE = 8"

definition AFTER_DELAYED_SIZE :: nat where
  "AFTER_DELAYED_SIZE = 8"

definition CAS_SIG_SIZE :: nat where
  "CAS_SIG_SIZE = 65"

definition CERT_HEADER_SIZE_V0 :: nat where
  "CERT_HEADER_SIZE_V0 = 32"

definition CONTEXT_FIELDS_SIZE :: nat where
  "CONTEXT_FIELDS_SIZE =
     MESSAGE_POS_SIZE + MESSAGE_POS_SIZE + HOTSHOT_BLOCK_SIZE + AFTER_DELAYED_SIZE + HOTSHOT_BLOCK_SIZE"

definition ESPRESSO_CERT_SIZE :: nat where
  "ESPRESSO_CERT_SIZE = CERT_HEADER_SIZE_V0 + CONTEXT_FIELDS_SIZE + CAS_SIG_SIZE"

datatype cas_certificate_version = CertV0

definition version_byte :: "cas_certificate_version \<Rightarrow> u8" where
  "version_byte v = (case v of CertV0 \<Rightarrow> 0x70)"

definition version_try_from :: "u8 \<Rightarrow> da_api_error + cas_certificate_version" where
  "version_try_from b =
     (if b = 0x70 then Inr CertV0 else Inl (Serialization (''unknown version: '' @ show_nat (unat b))))"

definition is_header_byte :: "u8 \<Rightarrow> bool" where
  "is_header_byte b = is_ok (version_try_from b)"

record cas_certificate =
  cc_header :: bytes
  cc_start_message_pos :: u64
  cc_end_message_pos :: u64
  cc_start_hotshot_block :: u64
  cc_after_delayed_messages_read :: u64
  cc_min_hotshot_block :: u64
  cc_signature :: bytes
  cc_downstream :: bytes

definition certificate_minimum_size :: "nat \<Rightarrow> nat" where
  "certificate_minimum_size header_size = header_size + HOTSHOT_BLOCK_SIZE + CAS_SIG_SIZE"

definition da_header_start_position :: "nat \<Rightarrow> nat" where
  "da_header_start_position header_size = header_size + HOTSHOT_BLOCK_SIZE + CAS_SIG_SIZE"

definition cert_to_bytes :: "cas_certificate \<Rightarrow> da_api_error + bytes" where
  "cert_to_bytes c =
     and_then (ok_or (CertificateSerializationFailed ''empty header'')
       (case cc_header c of [] \<Rightarrow> None | v # vs \<Rightarrow> Some v)) (\<lambda>cas_version.
     and_then
       (if cas_version = version_byte CertV0 then Inr CERT_HEADER_SIZE_V0
        else Inl (CertificateSerializationFailed
          (''invalid header version, expected: '' @ show_nat (unat (version_byte CertV0)) @ '', got: '' @
           show_nat (unat (cc_header c ! 0))))) (\<lambda>header_size.
     if length (cc_header c) \<noteq> header_size
     then Inl (CertificateSerializationFailed
       (''invalid header length, expected: '' @ show_nat header_size @ '', got: '' @ show_nat (length (cc_header c))))
     else
       let enc = push_bytes (cc_header c) encoder_new;
           enc = push_bytes (to_be_bytes (cc_start_message_pos c)) enc;
           enc = push_bytes (to_be_bytes (cc_end_message_pos c)) enc;
           enc = push_bytes (to_be_bytes (cc_start_hotshot_block c)) enc;
           enc = push_bytes (to_be_bytes (cc_after_delayed_messages_read c)) enc;
           enc = push_bytes (to_be_bytes (cc_min_hotshot_block c)) enc;
           enc = push_bytes (cc_signature c) enc;
           enc = push_bytes (cc_downstream c) enc
       in Inr (enc_buf enc)))"

definition cert_len :: "cas_certificate \<Rightarrow> da_api_error + nat" where
  "cert_len c = and_then (cert_to_bytes c) (\<lambda>bs. Inr (length bs))"

definition cert_is_empty :: "cas_certificate \<Rightarrow> bool" where
  "cert_is_empty c \<longleftrightarrow>
     cc_header c = [] \<and> cc_start_message_pos c = 0 \<and> cc_end_message_pos c = 0 \<and> cc_start_hotshot_block c = 0 \<and>
     cc_after_delayed_messages_read c = 0 \<and> cc_min_hotshot_block c = 0 \<and> cc_signature c = replicate 65 0 \<and>
     cc_downstream c = []"

definition cert_from_bytes :: "bytes \<Rightarrow> da_api_error + cas_certificate" where
  "cert_from_bytes data =
     (if data = [] then Inl (InvalidCertificateLength 0)
      else
        and_then (version_try_from (data ! 0)) (\<lambda>version.
        let header_size = (case version of CertV0 \<Rightarrow> CERT_HEADER_SIZE_V0) in
        if length data < certificate_minimum_size header_size then Inl (InvalidCertificateLength (length data))
        else
          and_then (read_bytes header_size (decoder_new data)) (\<lambda>(hdr, d).
          and_then (read_u64 d) (\<lambda>(start_message_pos, d).
          and_then (read_u64 d) (\<lambda>(end_message_pos, d).
          and_then (read_u64 d) (\<lambda>(start_hotshot_block, d).
          and_then (read_u64 d) (\<lambda>(after_delayed, d).
          and_then (read_u64 d) (\<lambda>(min_hotshot_block, d).
          and_then (read_fixed CAS_SIG_SIZE d) (\<lambda>(cas_signature, d).
          let (downstream, d) = read_rest d in
          Inr \<lparr>cc_header = hdr, cc_start_message_pos = start_message_pos, cc_end_message_pos = end_message_pos,
               cc_start_hotshot_block = start_hotshot_block, cc_after_delayed_messages_read = after_delayed,
               cc_min_hotshot_block = min_hotshot_block, cc_signature = cas_signature,
               cc_downstream = downstream\<rparr>)))))))))"

subsection \<open>Signing and validation\<close>

definition build_payload :: "u64 \<Rightarrow> u64 \<Rightarrow> u64 \<Rightarrow> u64 \<Rightarrow> u64 \<Rightarrow> bytes \<Rightarrow> bytes" where
  "build_payload start_message_pos end_message_pos start_hotshot_block after_delayed min_hotshot_block downstream =
     (let prev_message_count = start_message_pos;
          new_message_count = end_message_pos + 1;
          enc = push_bytes (to_be_bytes prev_message_count) encoder_new;
          enc = push_bytes (to_be_bytes new_message_count) enc;
          enc = push_bytes (to_be_bytes start_hotshot_block) enc;
          enc = push_bytes (to_be_bytes after_delayed) enc;
          enc = push_bytes (to_be_bytes min_hotshot_block) enc;
          enc = push_bytes downstream enc
      in enc_buf enc)"

text \<open>Signing fails with \<open>SigningFailed\<close> only, so no other text is needed (\<open>sign_message_error\<close> below).\<close>

definition key_manager_error_text :: "key_manager_error \<Rightarrow> string" where
  "key_manager_error_text e = (case e of SigningFailed m \<Rightarrow> ''signing failed: '' @ m | _ \<Rightarrow> '''')"

definition sign_payload :: "sign_lib \<Rightarrow> bytes \<Rightarrow> 'w key_manager \<Rightarrow> da_api_error + bytes" where
  "sign_payload L payload km = map_err (\<lambda>e. Signing (key_manager_error_text e)) (sign_message L km payload)"

definition build_espresso_certificate ::
  "sign_lib \<Rightarrow> 'w key_manager \<Rightarrow> u64 \<Rightarrow> u64 \<Rightarrow> u64 \<Rightarrow> u64 \<Rightarrow> u64 \<Rightarrow> bytes \<Rightarrow> da_api_error + cas_certificate" where
  "build_espresso_certificate L km start_message_pos end_message_pos start_hotshot_block after_delayed
     min_hotshot_block downstream =
     (if length downstream < 2 then Inl (InvalidCertificateLength (length downstream))
      else
        let hdr = (replicate 32 0)[0 := version_byte CertV0];
            payload = build_payload start_message_pos end_message_pos start_hotshot_block after_delayed
                        min_hotshot_block downstream
        in and_then (sign_payload L payload km) (\<lambda>cas_signature.
           Inr \<lparr>cc_header = hdr, cc_start_message_pos = start_message_pos, cc_end_message_pos = end_message_pos,
                cc_start_hotshot_block = start_hotshot_block, cc_after_delayed_messages_read = after_delayed,
                cc_min_hotshot_block = min_hotshot_block, cc_signature = cas_signature,
                cc_downstream = downstream\<rparr>))"

definition validate_structure :: "cas_certificate \<Rightarrow> da_api_error + unit" where
  "validate_structure c =
     and_then (ok_or (CertificateValidation ''empty header'')
       (case cc_header c of [] \<Rightarrow> None | v # vs \<Rightarrow> Some v)) (\<lambda>vb.
     and_then (map_err (\<lambda>e. InvalidHeaderByte vb) (version_try_from vb)) (\<lambda>version.
     let expected_header_size = (case version of CertV0 \<Rightarrow> CERT_HEADER_SIZE_V0) in
     if length (cc_header c) \<noteq> expected_header_size
     then Inl (CertificateValidation
       (''invalid header length, expected: '' @ show_nat expected_header_size @ '', got: '' @
        show_nat (length (cc_header c))))
     else if length (cc_downstream c) < 2 then Inl (InvalidCertificateLength (length (cc_downstream c)))
     else Inr ()))"

definition signing_payload :: "cas_certificate \<Rightarrow> bytes" where
  "signing_payload c =
     build_payload (cc_start_message_pos c) (cc_end_message_pos c) (cc_start_hotshot_block c)
       (cc_after_delayed_messages_read c) (cc_min_hotshot_block c) (cc_downstream c)"

definition cert_validate ::
  "sign_lib \<Rightarrow> cas_certificate \<Rightarrow> address \<Rightarrow> u64 \<Rightarrow> address \<Rightarrow> da_api_error + unit" where
  "cert_validate L c expected_signer chain verifier_address =
     and_then (validate_structure c) (\<lambda>u.
     let signing_hash = compute_cas_signing_hash L (signing_payload c) chain verifier_address in
     and_then (map_err (\<lambda>err. CertificateValidation (''invalid CAS signature: '' @ err))
       (sl_signature_try_from L (cc_signature c))) (\<lambda>sig.
     and_then (map_err (\<lambda>e. InvalidCasSignature) (sl_recover L sig signing_hash)) (\<lambda>recovered.
     if recovered \<noteq> expected_signer then Inl InvalidCasSignature else Inr ())))"

subsection \<open>Sequencer messages\<close>

definition SEQUENCER_HEADER_LEN :: nat where
  "SEQUENCER_HEADER_LEN = 40"

definition try_extract_da_sequencer_msg ::
  "sign_lib \<Rightarrow> bytes \<Rightarrow> address \<Rightarrow> u64 \<Rightarrow> address \<Rightarrow> da_api_error + bytes" where
  "try_extract_da_sequencer_msg L sequencer_msg expected_signer chain verifier_address =
     (if length sequencer_msg \<le> SEQUENCER_HEADER_LEN
      then Inl (InvalidSequencerMessageLength SEQUENCER_HEADER_LEN (length sequencer_msg))
      else
        and_then (cert_from_bytes (drop SEQUENCER_HEADER_LEN sequencer_msg)) (\<lambda>cas_cert.
        and_then (cert_validate L cas_cert expected_signer chain verifier_address) (\<lambda>u.
        Inr (take SEQUENCER_HEADER_LEN sequencer_msg @ cc_downstream cas_cert))))"

subsection \<open>The layout in one equation\<close>

lemmas cert_sizes = MESSAGE_POS_SIZE_def HOTSHOT_BLOCK_SIZE_def AFTER_DELAYED_SIZE_def CAS_SIG_SIZE_def
  CERT_HEADER_SIZE_V0_def CONTEXT_FIELDS_SIZE_def ESPRESSO_CERT_SIZE_def certificate_minimum_size_def

definition cert_layout :: "cas_certificate \<Rightarrow> bytes" where
  "cert_layout c =
     cc_header c @ to_be_bytes (cc_start_message_pos c) @ to_be_bytes (cc_end_message_pos c) @
     to_be_bytes (cc_start_hotshot_block c) @ to_be_bytes (cc_after_delayed_messages_read c) @
     to_be_bytes (cc_min_hotshot_block c) @ cc_signature c @ cc_downstream c"

definition wf_cert :: "cas_certificate \<Rightarrow> bool" where
  "wf_cert c \<longleftrightarrow> length (cc_header c) = 32 \<and> cc_header c ! 0 = 0x70 \<and> length (cc_signature c) = 65"

text \<open>The fields at their offsets.\<close>

definition cert_slices :: "bytes \<Rightarrow> cas_certificate" where
  "cert_slices data =
     \<lparr>cc_header = take 32 data,
      cc_start_message_pos = from_be_bytes (take 8 (drop 32 data)),
      cc_end_message_pos = from_be_bytes (take 8 (drop 40 data)),
      cc_start_hotshot_block = from_be_bytes (take 8 (drop 48 data)),
      cc_after_delayed_messages_read = from_be_bytes (take 8 (drop 56 data)),
      cc_min_hotshot_block = from_be_bytes (take 8 (drop 64 data)),
      cc_signature = take 65 (drop 72 data),
      cc_downstream = drop 137 data\<rparr>"

lemma cert_to_bytes_wf: "wf_cert c \<Longrightarrow> cert_to_bytes c = Inr (cert_layout c)"
  by (cases "cc_header c")
     (auto simp: wf_cert_def cert_to_bytes_def cert_layout_def push_bytes_def encoder_new_def version_byte_def
        CERT_HEADER_SIZE_V0_def Let_def)

lemma cert_to_bytes_Inr:
  "cert_to_bytes c = Inr bs \<Longrightarrow> length (cc_header c) = 32 \<and> cc_header c ! 0 = 0x70 \<and> bs = cert_layout c"
  by (cases "cc_header c")
     (auto simp: cert_to_bytes_def cert_layout_def push_bytes_def encoder_new_def version_byte_def
        CERT_HEADER_SIZE_V0_def Let_def split: if_splits)

lemma read_bytes_at:
  "read_bytes len \<lparr>dec_data = data, dec_position = p\<rparr> =
     (if length data - p < len then Inl (InvalidCertificateLength (length data))
      else Inr (take len (drop p data), \<lparr>dec_data = data, dec_position = p + len\<rparr>))"
  by (simp add: read_bytes_def remaining_def)

lemma read_u64_at:
  "read_u64 \<lparr>dec_data = data, dec_position = p\<rparr> =
     (if length data - p < 8 then Inl (InvalidCertificateLength (length data))
      else Inr (from_be_bytes (take 8 (drop p data)), \<lparr>dec_data = data, dec_position = p + 8\<rparr>))"
  by (simp add: read_u64_def read_bytes_at)

lemma cert_from_bytes_eq:
  "cert_from_bytes data =
     (if data = [] then Inl (InvalidCertificateLength 0)
      else if data ! 0 \<noteq> 0x70 then Inl (Serialization (''unknown version: '' @ show_nat (unat (data ! 0))))
      else if length data < 137 then Inl (InvalidCertificateLength (length data))
      else Inr (cert_slices data))"
  by (auto simp: cert_from_bytes_def version_try_from_def cert_sizes decoder_new_def read_fixed_def read_bytes_at read_u64_at
      read_rest_def cert_slices_def Let_def)

lemma length_cert_layout: "wf_cert c \<Longrightarrow> length (cert_layout c) = 137 + length (cc_downstream c)"
  by (simp add: wf_cert_def cert_layout_def)

lemma cert_slices_layout:
  assumes "wf_cert c"
  shows "cert_slices (cert_layout c) = c"
proof -
  have l: "length (cc_header c) = 32" "length (cc_signature c) = 65" using assms by (simp_all add: wf_cert_def)
  show ?thesis
    by (cases c) (use l in \<open>simp add: cert_slices_def cert_layout_def\<close>)
qed

lemma cert_roundtrip: "wf_cert c \<Longrightarrow> cert_from_bytes (cert_layout c) = Inr c"
proof -
  assume wf: "wf_cert c"
  then have "cert_layout c \<noteq> []" "cert_layout c ! 0 = 0x70"
    by (auto simp: wf_cert_def cert_layout_def nth_append)
  then show ?thesis
    using length_cert_layout [OF wf] cert_slices_layout [OF wf] by (simp add: cert_from_bytes_eq)
qed

lemma cert_layout_slices:
  assumes "137 \<le> length data"
  shows "cert_layout (cert_slices data) = data"
proof -
  have "length (take 8 (drop k data)) = 8" if "k \<le> 64" for k using assms that by simp
  then have be: "to_be_bytes (from_be_bytes (take 8 (drop k data))) = take 8 (drop k data)" if "k \<le> 64" for k
    using that to_be_from_be by blast
  have split: "drop k data = take n (drop k data) @ drop (k + n) data" for k n
    by (metis append_take_drop_id drop_drop add.commute)
  have "data = take 32 data @ drop 32 data" by simp
  also have "drop 32 data = take 8 (drop 32 data) @ drop 40 data" using split [of 32 8] by simp
  also have "drop 40 data = take 8 (drop 40 data) @ drop 48 data" using split [of 40 8] by simp
  also have "drop 48 data = take 8 (drop 48 data) @ drop 56 data" using split [of 48 8] by simp
  also have "drop 56 data = take 8 (drop 56 data) @ drop 64 data" using split [of 56 8] by simp
  also have "drop 64 data = take 8 (drop 64 data) @ drop 72 data" using split [of 64 8] by simp
  also have "drop 72 data = take 65 (drop 72 data) @ drop 137 data" using split [of 72 65] by simp
  finally show ?thesis by (simp add: cert_layout_def cert_slices_def be)
qed

lemma cert_from_bytes_Inr:
  assumes "cert_from_bytes data = Inr c"
  shows "wf_cert c" and "cert_layout c = data"
proof -
  have d: "data \<noteq> []" "data ! 0 = 0x70" "137 \<le> length data" "c = cert_slices data"
    using assms by (auto simp: cert_from_bytes_eq split: if_splits)
  show "wf_cert c" using d by (simp add: wf_cert_def cert_slices_def)
  show "cert_layout c = data" using d cert_layout_slices by simp
qed

subsection \<open>Signing\<close>

lemma build_payload_eq:
  "build_payload a b c d e bs =
     to_be_bytes a @ to_be_bytes (b + 1) @ to_be_bytes c @ to_be_bytes d @ to_be_bytes e @ bs"
  by (simp add: build_payload_def push_bytes_def encoder_new_def Let_def)

lemma build_payload_inject:
  "build_payload a b c d e bs = build_payload a' b' c' d' e' bs' \<longleftrightarrow>
     a = a' \<and> b = b' \<and> c = c' \<and> d = d' \<and> e = e' \<and> bs = bs'"
  by (auto simp: build_payload_eq)

lemma sign_message_error: "sign_message L km msg = Inl e \<Longrightarrow> \<exists>m. e = SigningFailed m"
  unfolding sign_message_def sign_typed_message_def
  by (cases "sign_hash_sync (km_signer km)
    (compute_cas_signing_hash L msg (parent_chain_id km) (tee_verifier_address km))") auto

text \<open>A key signs so that recovery gives its address.\<close>

definition signer_ok :: "sign_lib \<Rightarrow> private_key_signer \<Rightarrow> bool" where
  "signer_ok L signer \<longleftrightarrow>
     (\<forall>h sig. sign_hash_sync signer h = Inr sig \<longrightarrow>
        length sig = 65 \<and>
        (\<exists>rs. sl_signature_try_from L sig = Inr rs \<and> sl_recover L rs h = Inr (signer_addr signer)))"

lemma build_certificate_Inr:
  assumes "build_espresso_certificate L km a b c d e bs = Inr cert"
  shows "sign_message L km (build_payload a b c d e bs) = Inr (cc_signature cert)" and "2 \<le> length bs"
    and "cert = \<lparr>cc_header = 0x70 # replicate 31 0, cc_start_message_pos = a, cc_end_message_pos = b,
      cc_start_hotshot_block = c, cc_after_delayed_messages_read = d, cc_min_hotshot_block = e,
      cc_signature = cc_signature cert, cc_downstream = bs\<rparr>"
  using assms
  by (auto simp: build_espresso_certificate_def sign_payload_def version_byte_def result_eqs Let_def
      numeral_eq_Suc split: if_splits)

lemma built_certificate_valid:
  assumes "signer_ok L (km_signer km)" and "build_espresso_certificate L km a b c d e bs = Inr cert"
  shows "wf_cert cert"
    and "cert_validate L cert (signer_addr (km_signer km)) (parent_chain_id km) (tee_verifier_address km) = Inr ()"
proof -
  note b = build_certificate_Inr [OF assms(2)]
  have fields: "cc_header cert = 0x70 # replicate 31 0" "cc_downstream cert = bs"
    "signing_payload cert = build_payload a b c d e bs"
    by (subst b(3), simp add: signing_payload_def)+
  obtain sig where s: "sign_hash_sync (km_signer km)
      (compute_cas_signing_hash L (signing_payload cert) (parent_chain_id km) (tee_verifier_address km)) = Inr sig"
    "sig = cc_signature cert"
    using b(1) by (auto simp: sign_message_def sign_typed_message_def result_eqs fields)
  then obtain rs where r: "length sig = 65" "sl_signature_try_from L sig = Inr rs"
    "sl_recover L rs (compute_cas_signing_hash L (signing_payload cert) (parent_chain_id km)
      (tee_verifier_address km)) = Inr (signer_addr (km_signer km))"
    using assms(1) unfolding signer_ok_def by blast
  show "wf_cert cert" using r(1) s(2) by (simp add: wf_cert_def fields)
  show "cert_validate L cert (signer_addr (km_signer km)) (parent_chain_id km) (tee_verifier_address km) = Inr ()"
    using r s(2) b(2)
    by (simp add: cert_validate_def validate_structure_def fields version_try_from_def CERT_HEADER_SIZE_V0_def Let_def)
qed

text \<open>Wrapping a certificate into a sequencer message and extracting it.\<close>

lemma extract_built:
  assumes "signer_ok L (km_signer km)" and "build_espresso_certificate L km a b c d e bs = Inr cert"
    and "length hdr = SEQUENCER_HEADER_LEN"
  shows "try_extract_da_sequencer_msg L (hdr @ cert_layout cert) (signer_addr (km_signer km)) (parent_chain_id km)
    (tee_verifier_address km) = Inr (hdr @ bs)"
proof -
  note v = built_certificate_valid [OF assms(1,2)]
  have "cc_downstream cert = bs" by (subst build_certificate_Inr(3) [OF assms(2)]) simp
  then show ?thesis
    using v cert_roundtrip [OF v(1)] length_cert_layout [OF v(1)] assms(3)
    by (simp add: try_extract_da_sequencer_msg_def)
qed

text \<open>Whatever is extracted was signed by the expected key.\<close>

lemma extract_signed:
  assumes "try_extract_da_sequencer_msg L msg addr chain contract = Inr out"
  shows "\<exists>cert rs. msg = take SEQUENCER_HEADER_LEN msg @ cert_layout cert \<and> wf_cert cert \<and>
    out = take SEQUENCER_HEADER_LEN msg @ cc_downstream cert \<and> 2 \<le> length (cc_downstream cert) \<and>
    sl_signature_try_from L (cc_signature cert) = Inr rs \<and>
    sl_recover L rs (compute_cas_signing_hash L (signing_payload cert) chain contract) = Inr addr"
proof -
  obtain cert where c: "cert_from_bytes (drop SEQUENCER_HEADER_LEN msg) = Inr cert"
    "cert_validate L cert addr chain contract = Inr ()"
    "out = take SEQUENCER_HEADER_LEN msg @ cc_downstream cert"
    using assms by (auto simp: try_extract_da_sequencer_msg_def result_eqs split: if_splits)
  have "2 \<le> length (cc_downstream cert)"
    using c(2) by (auto simp: cert_validate_def validate_structure_def result_eqs Let_def split: if_splits)
  moreover obtain rs where "sl_signature_try_from L (cc_signature cert) = Inr rs"
    "sl_recover L rs (compute_cas_signing_hash L (signing_payload cert) chain contract) = Inr addr"
    using c(2) by (auto simp: cert_validate_def result_eqs Let_def split: if_splits)
  ultimately show ?thesis
    using cert_from_bytes_Inr [OF c(1)] c(3) by (intro exI [of _ cert] exI [of _ rs]) simp
qed

end
