(* ===== verification/Da_Server.thy ===== *)
theory Da_Server
  imports Certificate
begin

text \<open>
  The DA provider's JSON-RPC server (\<open>src/da_api/nitro/server.rs\<close> and \<open>store_fallback.rs\<close>): routes, method dispatch,
  the intercepted \<open>store\<close> with its fallback chain, the \<open>recover\<close> methods and plain forwarding. Requests to downstream
  providers and to the streamer are effects on the world; \<open>S\<close> are the serializers and \<open>L\<close> the signing functions.
\<close>

subsection \<open>State and constants\<close>

definition ESPRESSO_HEADER_BYTE :: u8 where
  "ESPRESSO_HEADER_BYTE = 0x70"

definition ANYTRUST_DAS_HEADER_BYTE :: u8 where
  "ANYTRUST_DAS_HEADER_BYTE = 0x80"

definition ANYTRUST_DAS_TREE_HEADER_BYTE :: u8 where
  "ANYTRUST_DAS_TREE_HEADER_BYTE = 0x88"

definition ANYTRUST_HEADER_BYTES :: bytes where
  "ANYTRUST_HEADER_BYTES = [ANYTRUST_DAS_HEADER_BYTE, ANYTRUST_DAS_TREE_HEADER_BYTE]"

definition CALLDATA_HEADER_BYTE :: u8 where
  "CALLDATA_HEADER_BYTE = 0x00"

definition is_anytrust_header :: "u8 \<Rightarrow> bool" where
  "is_anytrust_header b \<longleftrightarrow> b \<in> set ANYTRUST_HEADER_BYTES"

definition STORE :: string where
  "STORE = ''daprovider_store''"

definition GET_MAX_MESSAGE_SIZE :: string where
  "GET_MAX_MESSAGE_SIZE = ''daprovider_getMaxMessageSize''"

definition RECOVER_PAYLOAD :: string where
  "RECOVER_PAYLOAD = ''daprovider_recoverPayload''"

definition COLLECT_PREIMAGES :: string where
  "COLLECT_PREIMAGES = ''daprovider_collectPreimages''"

definition RECOVER_PAYLOAD_AND_PREIMAGES :: string where
  "RECOVER_PAYLOAD_AND_PREIMAGES = ''daprovider_recoverPayloadAndPreimages''"

definition GET_SUPPORTED_HEADER_BYTES :: string where
  "GET_SUPPORTED_HEADER_BYTES = ''daprovider_getSupportedHeaderBytes''"

text \<open>A request gives the status and, when it can be read, the body.\<close>

record 'w http_client =
  hc_post_json :: "string \<Rightarrow> json_value \<Rightarrow> ('w, r_error, nat \<times> (r_error + bytes)) io"
  hc_post_raw :: "string \<Rightarrow> bytes \<Rightarrow> ('w, r_error, nat \<times> (r_error + bytes)) io"

text \<open>\<open>srv_verify\<close> sends the batch to the streamer and waits for the reply; it fails when a channel is closed.\<close>

record 'w server_state =
  srv_config :: da_provider_config
  srv_client :: "'w http_client"
  srv_verify :: "bytes \<Rightarrow> ('w, r_error, verification_result) io"
  srv_key_manager :: "'w key_manager"
  srv_max_message_size :: "u64 option"
  srv_calldata_max_size :: u64

definition server_state_new ::
  "da_provider_config \<Rightarrow> 'w http_client \<Rightarrow> (bytes \<Rightarrow> ('w, r_error, verification_result) io)
     \<Rightarrow> 'w key_manager \<Rightarrow> u64 \<Rightarrow> 'w server_state" where
  "server_state_new cfg http verify km max_size =
     \<lparr>srv_config = cfg, srv_client = http, srv_verify = verify, srv_key_manager = km,
      srv_max_message_size = None, srv_calldata_max_size = max_size\<rparr>"

definition current_endpoint :: "'w server_state \<Rightarrow> string" where
  "current_endpoint st = endpoint_url (srv_config st)"

subsection \<open>Routes\<close>

text \<open>The router as the list of mounted paths with their states, in the order of mounting.\<close>

definition provider_state ::
  "'w http_client \<Rightarrow> (bytes \<Rightarrow> ('w, r_error, verification_result) io) \<Rightarrow> 'w key_manager \<Rightarrow> u64
     \<Rightarrow> da_provider_config \<Rightarrow> 'w server_state" where
  "provider_state http verify km max_size provider =
     (let st = server_state_new provider http verify km max_size in
      if prov_name provider = ''calldata'' then st\<lparr>srv_max_message_size := Some max_size\<rparr> else st)"

definition build_app ::
  "'w http_client \<Rightarrow> da_provider_config list \<Rightarrow> (bytes \<Rightarrow> ('w, r_error, verification_result) io) \<Rightarrow> string
     \<Rightarrow> 'w key_manager \<Rightarrow> u64 \<Rightarrow> da_api_error + (string \<times> 'w server_state) list" where
  "build_app http providers verify rollup_prefix km max_size =
     (case find (\<lambda>p. endpoint_url p = [] \<and> anytrust_fallback_url p \<noteq> None) providers of
        Some p \<Rightarrow> Inl (Configuration (''provider '' @ [CHR 0x27] @ prov_name p @ [CHR 0x27] @
            '' has anytrust_fallback_url set but endpoint_url is empty; '' @
            ''anytrust_fallback_url is only consulted after the primary endpoint requests '' @
            ''fallback, so without a primary endpoint it is never reached. '' @
            ''If anytrust is the only writer you need, set endpoint_url to the anytrust '' @
            ''sidecar URL and is_anytrust = true instead.''))
      | None \<Rightarrow>
          Inr (map (\<lambda>p. (''/'' @ rollup_prefix @ ''/'' @ prov_name p, provider_state http verify km max_size p))
            (providers @ [calldata_provider])))"

subsection \<open>Plain answers\<close>

definition json_response :: "serde_lib \<Rightarrow> json_value \<Rightarrow> da_api_error + http_response" where
  "json_response S v =
     and_then (map_err ParsingError (sd_to_vec S v)) (\<lambda>body.
     Inr \<lparr>resp_status = 200, resp_content_type = None, resp_body = body\<rparr>)"

definition respond_header_bytes :: "serde_lib \<Rightarrow> json_value \<Rightarrow> bytes \<Rightarrow> da_api_error + http_response" where
  "respond_header_bytes S rid bs =
     json_response S (JObject
       [(''id'', rid), (''jsonrpc'', JString ''2.0''),
        (''result'', JObject [(''headerBytes'', JString (''0x'' @ sd_hex_encode S bs))])])"

definition forward_raw :: "'w server_state \<Rightarrow> bytes \<Rightarrow> ('w, da_api_error, http_response) io" where
  "forward_raw st body =
     io_then (io_map_err DownstreamDa (hc_post_raw (srv_client st) (current_endpoint st) body)) (\<lambda>(status, raw).
     io_then (ret (map_err ParsingError raw)) (\<lambda>bs.
     ret (Inr \<lparr>resp_status = status, resp_content_type = Some HEADER_CONTENT_TYPE, resp_body = bs\<rparr>)))"

definition strip_0x :: "string \<Rightarrow> string" where
  "strip_0x s = (if take 2 s = ''0x'' then drop 2 s else s)"

definition handle_supported_header_bytes_forwarded ::
  "serde_lib \<Rightarrow> 'w server_state \<Rightarrow> json_value \<Rightarrow> ('w, da_api_error, http_response) io" where
  "handle_supported_header_bytes_forwarded S st body =
     io_then (io_map_err DownstreamDa (hc_post_json (srv_client st) (current_endpoint st) body)) (\<lambda>(status, raw_body).
     io_then (ret (map_err ParsingError raw_body)) (\<lambda>raw.
     let passed_on = \<lparr>resp_status = status, resp_content_type = Some HEADER_CONTENT_TYPE, resp_body = raw\<rparr> in
     if \<not> is_success status then ret (Inr passed_on)
     else
       io_then (ret (map_err ParsingError (sd_from_slice S raw))) (\<lambda>parsed.
       if json_get parsed ''error'' \<noteq> None then ret (Inr passed_on)
       else ret (
         and_then (ok_or (ParsingError ''missing headerBytes in response'')
           (json_as_str (json_index (json_index parsed ''result'') ''headerBytes''))) (\<lambda>hex_str.
         and_then (map_err (\<lambda>e. ParsingError (''bad headerBytes hex: '' @ e)) (sd_hex_decode S (strip_0x hex_str)))
           (\<lambda>downstream_bytes.
         respond_header_bytes S (json_index body ''id'') (ESPRESSO_HEADER_BYTE # downstream_bytes)))))))"

subsection \<open>Store\<close>

datatype downstream_cert_outcome = DownstreamCert bytes | DownstreamForward http_response

datatype store_outcome = StoreCert bytes | StoreFallback string | StoreForward http_response

definition store_request :: "serde_lib \<Rightarrow> bytes \<Rightarrow> u64 \<Rightarrow> json_value \<Rightarrow> json_value" where
  "store_request S data timeout body_id =
     JObject [(''jsonrpc'', JString ''2.0''), (''method'', JString ''daprovider_store''),
              (''params'', JArray [sd_ser_bytes S data, sd_ser_u64 S timeout]), (''id'', body_id)]"

text \<open>What \<open>store_via\<close> makes of the downstream answer.\<close>

definition store_answer :: "serde_lib \<Rightarrow> nat \<Rightarrow> bytes \<Rightarrow> da_api_error + store_outcome" where
  "store_answer S status bs =
     (if \<not> is_success status
      then Inr (StoreForward \<lparr>resp_status = status, resp_content_type = Some HEADER_CONTENT_TYPE, resp_body = bs\<rparr>)
      else
        and_then (map_err ParsingError (sd_from_slice S bs)) (\<lambda>downstream_json.
        case json_get downstream_json ''error'' of
          Some err_val \<Rightarrow>
            let da_err = (case sd_de_jsonrpc_error S err_val of
                            Inr msg \<Rightarrow> error_of_jsonrpc msg
                          | Inl e \<Rightarrow> DownstreamDa (sd_to_string S err_val))
            in (case da_err of
                  FallbackRequested msg \<Rightarrow> Inr (StoreFallback msg)
                | _ \<Rightarrow> Inr (StoreForward
                    \<lparr>resp_status = 200, resp_content_type = Some HEADER_CONTENT_TYPE, resp_body = bs\<rparr>))
        | None \<Rightarrow>
            and_then (map_err ParsingError (sd_de_store_response S (json_index downstream_json ''result'')))
              (\<lambda>raw_cert. Inr (StoreCert raw_cert))))"

definition store_via ::
  "serde_lib \<Rightarrow> 'w server_state \<Rightarrow> string \<Rightarrow> bytes \<Rightarrow> u64 \<Rightarrow> json_value \<Rightarrow> ('w, da_api_error, store_outcome) io" where
  "store_via S st endpoint data timeout body_id =
     io_then (io_map_err DownstreamDa (hc_post_json (srv_client st) endpoint (store_request S data timeout body_id)))
       (\<lambda>(status, raw).
     io_then (ret (map_err ParsingError raw)) (\<lambda>bs. ret (store_answer S status bs)))"

definition calldata_fallback :: "'w server_state \<Rightarrow> bytes \<Rightarrow> da_api_error + downstream_cert_outcome" where
  "calldata_fallback st data =
     (if of_nat ESPRESSO_CERT_SIZE + of_nat (length data) > srv_calldata_max_size st then Inl DynamicBatchingResize
      else Inr (DownstreamCert data))"

definition anytrust_endpoint :: "'w server_state \<Rightarrow> string option" where
  "anytrust_endpoint st =
     (case anytrust_fallback_url (srv_config st) of
        Some url \<Rightarrow> if url = [] then None else Some url
      | None \<Rightarrow> None)"

definition resolve_downstream_cert ::
  "serde_lib \<Rightarrow> 'w server_state \<Rightarrow> bytes \<Rightarrow> u64 \<Rightarrow> json_value \<Rightarrow> ('w, da_api_error, downstream_cert_outcome) io" where
  "resolve_downstream_cert S st data timeout body_id =
     (let endpoint = current_endpoint st in
      if endpoint = [] then ret (Inr (DownstreamCert data))
      else
        io_then (store_via S st endpoint data timeout body_id) (\<lambda>outcome.
        case outcome of
          StoreCert cert \<Rightarrow> ret (Inr (DownstreamCert cert))
        | StoreForward resp \<Rightarrow> ret (Inr (DownstreamForward resp))
        | StoreFallback reason \<Rightarrow>
            (case anytrust_endpoint st of
               Some anytrust_url \<Rightarrow>
                 io_then (store_via S st anytrust_url data timeout body_id) (\<lambda>outcome2.
                 case outcome2 of
                   StoreCert cert \<Rightarrow> ret (Inr (DownstreamCert cert))
                 | StoreForward resp \<Rightarrow> ret (Inr (DownstreamForward resp))
                 | StoreFallback anytrust_reason \<Rightarrow> ret (calldata_fallback st data))
             | None \<Rightarrow> ret (calldata_fallback st data))))"

definition store_params :: "serde_lib \<Rightarrow> json_value \<Rightarrow> da_api_error + bytes \<times> u64" where
  "store_params S body =
     and_then (ok_or (InvalidParams ''expected 2 params'')
       (case json_as_array (json_index body ''params'') of
          Some p \<Rightarrow> if length p \<ge> 2 then Some p else None
        | None \<Rightarrow> None)) (\<lambda>params.
     and_then (map_err (\<lambda>e. InvalidParams (''bad message: '' @ e)) (sd_de_bytes S (params ! 0))) (\<lambda>data.
     and_then (map_err (\<lambda>e. InvalidParams (''bad timeout: '' @ e)) (sd_de_u64 S (params ! 1))) (\<lambda>timeout.
     Inr (data, timeout))))"

text \<open>The conversions between a certificate and the response that carries it.\<close>

definition da_store_response :: "cas_certificate \<Rightarrow> da_api_error + bytes" where
  "da_store_response cert = cert_to_bytes cert"

definition cert_of_store_response :: "bytes \<Rightarrow> da_api_error + cas_certificate" where
  "cert_of_store_response serialized_da_certificate = cert_from_bytes serialized_da_certificate"

definition store_response :: "serde_lib \<Rightarrow> cas_certificate \<Rightarrow> json_value \<Rightarrow> da_api_error + http_response" where
  "store_response S cert rid =
     and_then (da_store_response cert) (\<lambda>bs.
     json_response S (JObject
       [(''jsonrpc'', JString ''2.0''), (''id'', rid), (''result'', sd_ser_store_response S bs)]))"

definition handle_store ::
  "serde_lib \<Rightarrow> sign_lib \<Rightarrow> 'w server_state \<Rightarrow> json_value \<Rightarrow> ('w, da_api_error, http_response) io" where
  "handle_store S L st body =
     io_then (ret (store_params S body)) (\<lambda>(data, timeout).
     if (case srv_max_message_size st of Some max_size \<Rightarrow> of_nat (length data) > max_size | None \<Rightarrow> False)
     then ret (Inl DynamicBatchingResize)
     else
       io_then (io_map_err ChannelError (srv_verify st data)) (\<lambda>v.
       if \<not> success v then ret (Inl (CertificateValidation ''CAS verification failed''))
       else
         io_then (resolve_downstream_cert S st data timeout (json_index body ''id'')) (\<lambda>outcome.
         case outcome of
           DownstreamForward response \<Rightarrow> ret (Inr response)
         | DownstreamCert downstream_cert \<Rightarrow>
             ret (
               and_then (build_espresso_certificate L (srv_key_manager st) (start_message_position v)
                 (end_message_position v) (start_espresso_block v) (after_delayed_messages_read v)
                 (min_espresso_block_still_in_queue v) downstream_cert) (\<lambda>final_cert.
               store_response S final_cert (json_index body ''id''))))))"

subsection \<open>Recover\<close>

definition recover_params :: "serde_lib \<Rightarrow> json_value \<Rightarrow> da_api_error + u64 \<times> bytes \<times> bytes" where
  "recover_params S body =
     and_then (ok_or (InvalidParams ''expected 3 params'')
       (case json_as_array (json_index body ''params'') of
          Some p \<Rightarrow> if length p = 3 then Some p else None
        | None \<Rightarrow> None)) (\<lambda>params.
     and_then (map_err (\<lambda>e. InvalidParams (''bad batch_num: '' @ e)) (sd_de_u64 S (params ! 0))) (\<lambda>batch_num.
     and_then (map_err (\<lambda>e. InvalidParams (''bad batch_block_hash: '' @ e)) (sd_de_b256 S (params ! 1))) (\<lambda>batch_block_hash.
     and_then (map_err (\<lambda>e. InvalidParams (''bad sequencer_msg: '' @ e)) (sd_de_bytes S (params ! 2))) (\<lambda>sequencer_msg.
     if length sequencer_msg \<le> SEQUENCER_HEADER_LEN
     then Inl (InvalidSequencerMessageLength SEQUENCER_HEADER_LEN (length sequencer_msg))
     else Inr (batch_num, batch_block_hash, sequencer_msg)))))"

definition byte_at :: "nat \<Rightarrow> bytes \<Rightarrow> u8 option" where
  "byte_at i bs = (if i < length bs then Some (bs ! i) else None)"

definition da_certificate_of ::
  "sign_lib \<Rightarrow> 'w server_state \<Rightarrow> bytes \<Rightarrow> da_api_error + bytes" where
  "da_certificate_of L st sequencer_msg =
     (if byte_at SEQUENCER_HEADER_LEN sequencer_msg = Some ESPRESSO_HEADER_BYTE
      then try_extract_da_sequencer_msg L sequencer_msg (signer_addr (km_signer (srv_key_manager st)))
             (parent_chain_id (srv_key_manager st)) (tee_verifier_address (srv_key_manager st))
      else Inr sequencer_msg)"

definition payload_response :: "serde_lib \<Rightarrow> json_value \<Rightarrow> bytes \<Rightarrow> da_api_error + http_response" where
  "payload_response S rid payload =
     (case sd_to_vec S (JObject
             [(''jsonrpc'', JString ''2.0''), (''id'', rid),
              (''result'', JObject [(''Payload'', JArray (map (\<lambda>b. JInt (uint b)) payload))])]) of
        Inr r \<Rightarrow> Inr \<lparr>resp_status = 200, resp_content_type = Some HEADER_CONTENT_TYPE, resp_body = r\<rparr>
      | Inl e \<Rightarrow> Inl (InvalidParams ''failed to to_vec''))"

definition recover_endpoint :: "'w server_state \<Rightarrow> u8 option \<Rightarrow> string" where
  "recover_endpoint st inner_header =
     (case anytrust_endpoint st of
        Some url \<Rightarrow>
          if (case inner_header of Some b \<Rightarrow> is_anytrust_header b | None \<Rightarrow> False) then url
          else current_endpoint st
      | None \<Rightarrow> current_endpoint st)"

definition handle_recover_inner ::
  "serde_lib \<Rightarrow> sign_lib \<Rightarrow> 'w server_state \<Rightarrow> json_value \<Rightarrow> string \<Rightarrow> ('w, da_api_error, http_response) io" where
  "handle_recover_inner S L st body downstream_method =
     io_then (ret (recover_params S body)) (\<lambda>(batch_num, batch_block_hash, sequencer_msg).
     io_then (ret (da_certificate_of L st sequencer_msg)) (\<lambda>da_certificate.
     let inner_header = byte_at SEQUENCER_HEADER_LEN da_certificate in
     if prov_name (srv_config st) = ''calldata'' \<or> inner_header = Some CALLDATA_HEADER_BYTE
     then ret (payload_response S (json_index body ''id'') (drop SEQUENCER_HEADER_LEN da_certificate))
     else
       let forwarded_body = JObject
             [(''jsonrpc'', JString ''2.0''), (''method'', JString downstream_method),
              (''params'', JArray [sd_ser_u64 S batch_num, sd_ser_b256 S batch_block_hash, sd_ser_bytes S da_certificate]),
              (''id'', json_index body ''id'')]
       in
       io_then (io_map_err DownstreamDa
         (hc_post_json (srv_client st) (recover_endpoint st inner_header) forwarded_body)) (\<lambda>(status, raw).
       io_then (ret (map_err ParsingError raw)) (\<lambda>bs.
       ret (Inr \<lparr>resp_status = status, resp_content_type = Some HEADER_CONTENT_TYPE, resp_body = bs\<rparr>)))))"

subsection \<open>Dispatch\<close>

text \<open>\<open>v3_9_9\<close> is the build feature of that name, which is on by default.\<close>

definition handle_rpc ::
  "bool \<Rightarrow> serde_lib \<Rightarrow> sign_lib \<Rightarrow> 'w server_state \<Rightarrow> bytes \<Rightarrow> ('w, da_api_error, http_response) io" where
  "handle_rpc v3_9_9 S L st body =
     io_then (ret (map_err InvalidParams (sd_from_slice S body))) (\<lambda>parsed.
     io_then (ret (ok_or (InvalidRequest ''missing method'') (json_as_str (json_index parsed ''method'')))) (\<lambda>rpc_method.
     if rpc_method = STORE then handle_store S L st parsed
     else if rpc_method = RECOVER_PAYLOAD then handle_recover_inner S L st parsed RECOVER_PAYLOAD
     else if rpc_method = COLLECT_PREIMAGES then handle_recover_inner S L st parsed COLLECT_PREIMAGES
     else if rpc_method = RECOVER_PAYLOAD_AND_PREIMAGES
     then handle_recover_inner S L st parsed RECOVER_PAYLOAD_AND_PREIMAGES
     else if rpc_method = GET_SUPPORTED_HEADER_BYTES \<and> prov_name (srv_config st) = ''calldata''
     then ret (respond_header_bytes S (json_index parsed ''id'') [ESPRESSO_HEADER_BYTE])
     else if rpc_method = GET_SUPPORTED_HEADER_BYTES \<and> is_anytrust (srv_config st)
     then ret (respond_header_bytes S (json_index parsed ''id'')
       (if v3_9_9 then [ESPRESSO_HEADER_BYTE, ANYTRUST_DAS_HEADER_BYTE, ANYTRUST_DAS_TREE_HEADER_BYTE]
        else [ESPRESSO_HEADER_BYTE]))
     else if rpc_method = GET_SUPPORTED_HEADER_BYTES then handle_supported_header_bytes_forwarded S st parsed
     else if rpc_method = GET_MAX_MESSAGE_SIZE
     then (case srv_max_message_size st of
             Some max_size \<Rightarrow>
               ret (json_response S (JObject
                 [(''id'', json_index parsed ''id''), (''jsonrpc'', JString ''2.0''),
                  (''result'', JObject [(''maxSize'', JInt (uint max_size))])]))
           | None \<Rightarrow> forward_raw st body)
     else forward_raw st body))"

subsection \<open>The store handler\<close>

definition certified :: "verification_result \<Rightarrow> bytes \<Rightarrow> cas_certificate \<Rightarrow> bool" where
  "certified v downstream cert \<longleftrightarrow>
     cc_start_message_pos cert = start_message_position v \<and> cc_end_message_pos cert = end_message_position v \<and>
     cc_start_hotshot_block cert = start_espresso_block v \<and>
     cc_after_delayed_messages_read cert = after_delayed_messages_read v \<and>
     cc_min_hotshot_block cert = min_espresso_block_still_in_queue v \<and> cc_downstream cert = downstream"

definition store_answer_value :: "serde_lib \<Rightarrow> json_value \<Rightarrow> cas_certificate \<Rightarrow> json_value" where
  "store_answer_value S rid cert =
     JObject [(''jsonrpc'', JString ''2.0''), (''id'', rid),
              (''result'', sd_ser_store_response S (cert_layout cert))]"

definition within_limit :: "'w server_state \<Rightarrow> bytes \<Rightarrow> bool" where
  "within_limit st data =
     (case srv_max_message_size st of Some max_size \<Rightarrow> of_nat (length data) \<le> max_size | None \<Rightarrow> True)"

lemma json_response_Inr:
  "json_response S v = Inr r \<longleftrightarrow>
     (\<exists>body. sd_to_vec S v = Inr body \<and> r = \<lparr>resp_status = 200, resp_content_type = None, resp_body = body\<rparr>)"
  by (auto simp: json_response_def result_eqs)

lemma store_certificate_Inr:
  assumes "signer_ok L (km_signer km)"
    and "and_then (build_espresso_certificate L km (start_message_position v) (end_message_position v)
        (start_espresso_block v) (after_delayed_messages_read v) (min_espresso_block_still_in_queue v) downstream)
      (\<lambda>cert. store_response S cert rid) = Inr resp"
  shows "\<exists>cert. wf_cert cert \<and> certified v downstream cert \<and>
    cert_validate L cert (signer_addr (km_signer km)) (parent_chain_id km) (tee_verifier_address km) = Inr () \<and>
    sd_to_vec S (store_answer_value S rid cert) = Inr (resp_body resp) \<and> resp_status resp = 200"
proof -
  obtain cert where b: "build_espresso_certificate L km (start_message_position v) (end_message_position v)
        (start_espresso_block v) (after_delayed_messages_read v) (min_espresso_block_still_in_queue v) downstream =
      Inr cert" and r: "store_response S cert rid = Inr resp"
    using assms(2) by (auto simp: result_eqs)
  have "certified v downstream cert"
    unfolding certified_def by (subst build_certificate_Inr(3) [OF b], simp)+
  moreover note v = built_certificate_valid [OF assms(1) b]
  moreover have "sd_to_vec S (store_answer_value S rid cert) = Inr (resp_body resp)" "resp_status resp = 200"
    using r cert_to_bytes_wf [OF v(1)]
    by (auto simp: store_response_def da_store_response_def json_response_Inr store_answer_value_def)
  ultimately show ?thesis by blast
qed

lemma handle_store_split:
  "run_state (handle_store S L st body) w =
     (case store_params S body of
        Inl e \<Rightarrow> (Inl e, w)
      | Inr (data, timeout) \<Rightarrow>
          if \<not> within_limit st data then (Inl DynamicBatchingResize, w)
          else case run_state (srv_verify st data) w of
            (Inl e, w1) \<Rightarrow> (Inl (ChannelError e), w1)
          | (Inr v, w1) \<Rightarrow>
              if \<not> success v then (Inl (CertificateValidation ''CAS verification failed''), w1)
              else case run_state (resolve_downstream_cert S st data timeout (json_index body ''id'')) w1 of
                (Inl e, w2) \<Rightarrow> (Inl e, w2)
              | (Inr (DownstreamForward response), w2) \<Rightarrow> (Inr response, w2)
              | (Inr (DownstreamCert downstream), w2) \<Rightarrow>
                  (and_then (build_espresso_certificate L (srv_key_manager st) (start_message_position v)
                     (end_message_position v) (start_espresso_block v) (after_delayed_messages_read v)
                     (min_espresso_block_still_in_queue v) downstream)
                     (\<lambda>cert. store_response S cert (json_index body ''id'')), w2))"
  by (auto simp: handle_store_def run_io_then run_io_map_err within_limit_def not_less
      split: sum.splits prod.splits option.splits downstream_cert_outcome.splits)

lemma handle_store_Inr:
  assumes "signer_ok L (km_signer (srv_key_manager st))"
    and "run_state (handle_store S L st body) w = (Inr resp, w')"
  shows "\<exists>data timeout v w1. store_params S body = Inr (data, timeout) \<and> within_limit st data \<and>
    run_state (srv_verify st data) w = (Inr v, w1) \<and> success v \<and>
    (run_state (resolve_downstream_cert S st data timeout (json_index body ''id'')) w1 =
       (Inr (DownstreamForward resp), w') \<or>
     (\<exists>downstream cert.
        run_state (resolve_downstream_cert S st data timeout (json_index body ''id'')) w1 =
          (Inr (DownstreamCert downstream), w') \<and>
        wf_cert cert \<and> certified v downstream cert \<and>
        cert_validate L cert (signer_addr (km_signer (srv_key_manager st))) (parent_chain_id (srv_key_manager st))
          (tee_verifier_address (srv_key_manager st)) = Inr () \<and>
        sd_to_vec S (store_answer_value S (json_index body ''id'') cert) = Inr (resp_body resp) \<and>
        resp_status resp = 200))"
proof -
  obtain data timeout v w1 where p: "store_params S body = Inr (data, timeout)" "within_limit st data"
    "run_state (srv_verify st data) w = (Inr v, w1)" "success v"
    using assms(2) unfolding handle_store_split
    by (auto split: sum.splits prod.splits if_splits)
  obtain outcome where o: "run_state (resolve_downstream_cert S st data timeout (json_index body ''id'')) w1 =
      (Inr outcome, w')"
    using assms(2) p unfolding handle_store_split
    by (auto split: sum.splits prod.splits downstream_cert_outcome.splits)
  show ?thesis
  proof (cases outcome)
    case (DownstreamForward r)
    then have "r = resp" using assms(2) p o unfolding handle_store_split by simp
    then show ?thesis using p o DownstreamForward by blast
  next
    case (DownstreamCert downstream)
    then have "and_then (build_espresso_certificate L (srv_key_manager st) (start_message_position v)
        (end_message_position v) (start_espresso_block v) (after_delayed_messages_read v)
        (min_espresso_block_still_in_queue v) downstream)
      (\<lambda>cert. store_response S cert (json_index body ''id'')) = Inr resp"
      using assms(2) p o unfolding handle_store_split by simp
    from store_certificate_Inr [OF assms(1) this] show ?thesis using p o DownstreamCert by blast
  qed
qed

subsection \<open>The fallback chain\<close>

lemma calldata_fallback_Inr:
  "calldata_fallback st data = Inr outcome \<longleftrightarrow>
     of_nat ESPRESSO_CERT_SIZE + of_nat (length data) \<le> srv_calldata_max_size st \<and> outcome = DownstreamCert data"
  by (auto simp: calldata_fallback_def not_less)

text \<open>Where a downstream certificate comes from.\<close>

lemma resolve_downstream_cert_Inr:
  assumes "run_state (resolve_downstream_cert S st data timeout rid) w = (Inr (DownstreamCert cert), w')"
  shows "(current_endpoint st = [] \<and> cert = data \<and> w' = w) \<or>
    run_state (store_via S st (current_endpoint st) data timeout rid) w = (Inr (StoreCert cert), w') \<or>
    (\<exists>reason w1. run_state (store_via S st (current_endpoint st) data timeout rid) w = (Inr (StoreFallback reason), w1) \<and>
       (case anytrust_endpoint st of
          Some url \<Rightarrow>
            run_state (store_via S st url data timeout rid) w1 = (Inr (StoreCert cert), w') \<or>
            (\<exists>reason2. run_state (store_via S st url data timeout rid) w1 = (Inr (StoreFallback reason2), w') \<and>
               cert = data \<and> of_nat ESPRESSO_CERT_SIZE + of_nat (length data) \<le> srv_calldata_max_size st)
        | None \<Rightarrow> w1 = w' \<and> cert = data \<and>
            of_nat ESPRESSO_CERT_SIZE + of_nat (length data) \<le> srv_calldata_max_size st))"
proof (cases "current_endpoint st = []")
  case True
  then show ?thesis using assms by (auto simp: resolve_downstream_cert_def Let_def)
next
  case False
  let ?via = "\<lambda>url. store_via S st url data timeout rid"
  obtain o1 w1 where p: "run_state (?via (current_endpoint st)) w = (Inr o1, w1)"
    using assms False by (auto simp: resolve_downstream_cert_def run_io_then_Inr Let_def)
  show ?thesis
  proof (cases o1)
    case (StoreFallback reason)
    show ?thesis
    proof (cases "anytrust_endpoint st")
      case None
      then show ?thesis
        using assms False p StoreFallback
        by (auto simp: resolve_downstream_cert_def run_io_then Let_def calldata_fallback_Inr)
    next
      case (Some url)
      obtain o2 w2 where q: "run_state (?via url) w1 = (Inr o2, w2)"
        using assms False p StoreFallback Some
        by (auto simp: resolve_downstream_cert_def run_io_then Let_def split: sum.splits prod.splits)
      show ?thesis
        using assms False p StoreFallback Some q
        by (cases o2) (auto simp: resolve_downstream_cert_def run_io_then Let_def calldata_fallback_Inr)
    qed
  qed (use assms False p in \<open>auto simp: resolve_downstream_cert_def run_io_then Let_def\<close>)
qed

subsection \<open>The recover handlers\<close>

text \<open>The serializers the recover path relies on invert each other.\<close>

definition serde_inverts :: "serde_lib \<Rightarrow> bool" where
  "serde_inverts S \<longleftrightarrow>
     (\<forall>b. sd_de_bytes S (sd_ser_bytes S b) = Inr b) \<and> (\<forall>n. sd_de_u64 S (sd_ser_u64 S n) = Inr n) \<and>
     (\<forall>h. length h = 32 \<longrightarrow> sd_de_b256 S (sd_ser_b256 S h) = Inr h)"

definition recover_request :: "serde_lib \<Rightarrow> string \<Rightarrow> u64 \<Rightarrow> bytes \<Rightarrow> bytes \<Rightarrow> json_value \<Rightarrow> json_value" where
  "recover_request S rpc_method batch_num batch_block_hash sequencer_msg rid =
     JObject [(''jsonrpc'', JString ''2.0''), (''method'', JString rpc_method),
              (''params'', JArray [sd_ser_u64 S batch_num, sd_ser_b256 S batch_block_hash, sd_ser_bytes S sequencer_msg]),
              (''id'', rid)]"

lemma recover_params_request:
  assumes "serde_inverts S" and "length batch_block_hash = 32"
  shows "recover_params S (recover_request S rpc_method batch_num batch_block_hash sequencer_msg rid) =
    (if length sequencer_msg \<le> SEQUENCER_HEADER_LEN
     then Inl (InvalidSequencerMessageLength SEQUENCER_HEADER_LEN (length sequencer_msg))
     else Inr (batch_num, batch_block_hash, sequencer_msg))"
  using assms by (simp add: recover_params_def recover_request_def serde_inverts_def numeral_2_eq_2)

lemma byte_at_layout:
  "wf_cert cert \<Longrightarrow> length hdr = SEQUENCER_HEADER_LEN \<Longrightarrow>
     byte_at SEQUENCER_HEADER_LEN (hdr @ cert_layout cert) = Some ESPRESSO_HEADER_BYTE"
  by (auto simp: byte_at_def ESPRESSO_HEADER_BYTE_def wf_cert_def cert_layout_def nth_append)

lemma da_certificate_of_built:
  assumes "signer_ok L (km_signer (srv_key_manager st))"
    and "build_espresso_certificate L (srv_key_manager st) a b c d e downstream = Inr cert"
    and "length hdr = SEQUENCER_HEADER_LEN"
  shows "da_certificate_of L st (hdr @ cert_layout cert) = Inr (hdr @ downstream)"
  using extract_built [OF assms] byte_at_layout [OF built_certificate_valid(1) [OF assms(1,2)] assms(3)]
  by (simp add: da_certificate_of_def)

text \<open>A message that claims a CAS certificate is only passed on when the certificate is validly signed.\<close>

lemma da_certificate_of_signed:
  assumes "da_certificate_of L st msg = Inr out" and "byte_at SEQUENCER_HEADER_LEN msg = Some ESPRESSO_HEADER_BYTE"
  shows "\<exists>cert rs. msg = take SEQUENCER_HEADER_LEN msg @ cert_layout cert \<and>
    out = take SEQUENCER_HEADER_LEN msg @ cc_downstream cert \<and>
    sl_signature_try_from L (cc_signature cert) = Inr rs \<and>
    sl_recover L rs (compute_cas_signing_hash L (signing_payload cert) (parent_chain_id (srv_key_manager st))
      (tee_verifier_address (srv_key_manager st))) = Inr (signer_addr (km_signer (srv_key_manager st)))"
proof -
  have "try_extract_da_sequencer_msg L msg (signer_addr (km_signer (srv_key_manager st)))
      (parent_chain_id (srv_key_manager st)) (tee_verifier_address (srv_key_manager st)) = Inr out"
    using assms by (simp add: da_certificate_of_def)
  from extract_signed [OF this] show ?thesis by blast
qed

lemma handle_recover_error:
  assumes "recover_params S body = Inr (batch_num, batch_block_hash, msg)" and "da_certificate_of L st msg = Inl e"
  shows "run_state (handle_recover_inner S L st body rpc_method) w = (Inl e, w)"
  using assms by (simp add: handle_recover_inner_def run_io_then)

lemma handle_recover_calldata:
  assumes "recover_params S body = Inr (batch_num, batch_block_hash, msg)" and "da_certificate_of L st msg = Inr cert"
    and "prov_name (srv_config st) = ''calldata'' \<or> byte_at SEQUENCER_HEADER_LEN cert = Some CALLDATA_HEADER_BYTE"
  shows "run_state (handle_recover_inner S L st body rpc_method) w =
    (payload_response S (json_index body ''id'') (drop SEQUENCER_HEADER_LEN cert), w)"
  using assms by (auto simp: handle_recover_inner_def run_io_then Let_def)

subsection \<open>Routes\<close>

lemma build_app_Inr:
  assumes "build_app http providers verify prefix km max_size = Inr routes"
  shows "routes = map (\<lambda>p. (''/'' @ prefix @ ''/'' @ prov_name p, provider_state http verify km max_size p))
      (providers @ [calldata_provider])"
    and "\<forall>p \<in> set providers. endpoint_url p = [] \<longrightarrow> anytrust_fallback_url p = None"
  using assms by (auto simp: build_app_def find_None_iff split: option.splits)

lemma provider_state_limit:
  "srv_max_message_size (provider_state http verify km max_size p) =
     (if prov_name p = ''calldata'' then Some max_size else None)"
  by (simp add: provider_state_def server_state_new_def Let_def)

end
