(* ===== verification/Espresso_Client.thy ===== *)
theory Espresso_Client
  imports Std_Io Streamer_Loop
begin

text \<open>
  The query-service client (\<open>src/espresso_client/client.rs\<close>) and the two readers of \<open>src/espresso_client/light_client.rs\<close>.
  HTTP requests are effects on a world; URL joining, JSON decoding and the light client itself are parameters.
\<close>

subsection \<open>The client\<close>

record espresso_client_config =
  base_url :: string
  client_timeout_secs :: u64

definition default_client_timeout_secs :: u64 where
  "default_client_timeout_secs = 30"

text \<open>\<open>rc_status_text\<close> is the text of a status code.\<close>

record ('w, 'tx) rest_client =
  rc_join :: "string \<Rightarrow> string \<Rightarrow> r_error + string"
  rc_get :: "string \<Rightarrow> ('w, r_error, nat \<times> (r_error + bytes)) io"
  rc_post :: "string \<Rightarrow> 'tx \<Rightarrow> ('w, r_error, nat \<times> (r_error + bytes)) io"
  rc_status_text :: "nat \<Rightarrow> string"

text \<open>\<open>parse_url\<close> is \<open>Url::parse\<close>; \<open>None\<close> is the panic on a bad base URL.\<close>

definition espresso_client_new :: "(string \<Rightarrow> string option) \<Rightarrow> string \<Rightarrow> u64 \<Rightarrow> espresso_client_config option" where
  "espresso_client_new parse_url url timeout =
     (let url = (if url \<noteq> [] \<and> last url = CHR ''/'' then url else url @ ''/'')
      in map_option (\<lambda>u. \<lparr>base_url = u, client_timeout_secs = timeout\<rparr>) (parse_url url))"

definition status_ok :: "nat \<Rightarrow> bool" where
  "status_ok status \<longleftrightarrow> 200 \<le> status \<and> status < 300"

definition client_get ::
  "('w, 'tx) rest_client \<Rightarrow> (bytes \<Rightarrow> r_error + 'a) \<Rightarrow> string \<Rightarrow> ('w, anyhow_error, 'a) io" where
  "client_get C decode url =
     io_then (io_map_err AnyMsg (rc_get C url)) (\<lambda>(status, body).
     ret (if \<not> status_ok status
          then Inl (if status = 404 then AnyNotFound
                    else AnyMsg (''request failed with status '' @ rc_status_text C status))
          else map_err AnyMsg (and_then body decode)))"

definition client_post ::
  "('w, 'tx) rest_client \<Rightarrow> (bytes \<Rightarrow> r_error + 'a) \<Rightarrow> string \<Rightarrow> 'tx \<Rightarrow> ('w, anyhow_error, 'a) io" where
  "client_post C decode url tx =
     io_then (io_map_err AnyMsg (rc_post C url tx)) (\<lambda>(status, body).
     ret (if \<not> status_ok status then Inl (AnyMsg (''request failed with status '' @ rc_status_text C status))
          else map_err AnyMsg (and_then body decode)))"

definition joined ::
  "('w, 'tx) rest_client \<Rightarrow> espresso_client_config \<Rightarrow> string \<Rightarrow> ('w, anyhow_error, string) io" where
  "joined C cfg path = ret (map_err AnyMsg (rc_join C (base_url cfg) path))"

record limits_data =
  small_object_range_limit :: u64
  large_object_range_limit :: u64

text \<open>The namespace proof and the header commitment are not looked at and stay bytes.\<close>

record 'tx namespace_transactions_in_range_data =
  transactions :: "'tx list"
  ns_proof :: "bytes option"

record ('tx, 'h) transaction_query_data =
  qd_transaction :: 'tx
  qd_hash :: 'h
  qd_index :: u64
  qd_block_hash :: bytes
  qd_block_height :: u64
  qd_namespace :: u64
  qd_pos_in_namespace :: "32 word"

text \<open>The decoders of the response types.\<close>

record ('tx, 'h) client_decoders =
  dc_hash :: "bytes \<Rightarrow> r_error + 'h"
  dc_limits :: "bytes \<Rightarrow> r_error + limits_data"
  dc_height :: "bytes \<Rightarrow> r_error + u64"
  dc_ranges :: "bytes \<Rightarrow> r_error + 'tx namespace_transactions_in_range_data list"
  dc_query_data :: "bytes \<Rightarrow> r_error + ('tx, 'h) transaction_query_data"
  dc_show_hash :: "'h \<Rightarrow> string"

definition submit_transaction ::
  "('w, 'tx) rest_client \<Rightarrow> ('tx, 'h) client_decoders \<Rightarrow> espresso_client_config \<Rightarrow> 'tx \<Rightarrow> ('w, anyhow_error, 'h) io" where
  "submit_transaction C D cfg tx =
     io_then (joined C cfg ''submit/submit'') (\<lambda>url. client_post C (dc_hash D) url tx)"

definition fetch_limits ::
  "('w, 'tx) rest_client \<Rightarrow> ('tx, 'h) client_decoders \<Rightarrow> espresso_client_config \<Rightarrow> ('w, anyhow_error, limits_data) io" where
  "fetch_limits C D cfg =
     io_then (joined C cfg ''availability/limits'') (\<lambda>url. client_get C (dc_limits D) url)"

definition fetch_namespace_transactions_in_range ::
  "('w, 'tx) rest_client \<Rightarrow> ('tx, 'h) client_decoders \<Rightarrow> espresso_client_config \<Rightarrow> u64 \<Rightarrow> u64 \<Rightarrow> u64
     \<Rightarrow> ('w, anyhow_error, 'tx namespace_transactions_in_range_data list) io" where
  "fetch_namespace_transactions_in_range C D cfg ns start stop =
     io_then (fetch_limits C D cfg) (\<lambda>limits.
     if stop - start > large_object_range_limit limits
     then ret (Inl (AnyMsg (''requested block range exceeds maximum allowed '' @
            show_nat (unat (large_object_range_limit limits)))))
     else
       io_then (joined C cfg (''availability/block/'' @ show_nat (unat start) @ ''/'' @ show_nat (unat stop) @
         ''/namespace/'' @ show_nat (unat ns))) (\<lambda>url.
       client_get C (dc_ranges D) url))"

definition fetch_latest_hotshot_block_height ::
  "('w, 'tx) rest_client \<Rightarrow> ('tx, 'h) client_decoders \<Rightarrow> espresso_client_config \<Rightarrow> ('w, anyhow_error, u64) io" where
  "fetch_latest_hotshot_block_height C D cfg =
     io_then (joined C cfg ''status/block-height'') (\<lambda>url. client_get C (dc_height D) url)"

definition fetch_transaction_by_hash ::
  "('w, 'tx) rest_client \<Rightarrow> ('tx, 'h) client_decoders \<Rightarrow> espresso_client_config \<Rightarrow> 'h
     \<Rightarrow> ('w, anyhow_error, ('tx, 'h) transaction_query_data) io" where
  "fetch_transaction_by_hash C D cfg tx_hash =
     io_then (joined C cfg (''availability/transaction/hash/'' @ dc_show_hash D tx_hash @ ''/noproof'')) (\<lambda>url.
     client_get C (dc_query_data D) url)"

subsection \<open>The readers\<close>

text \<open>The light client: verified height and verified namespace ranges; \<open>usize_max\<close> is the platform's limit.\<close>

record ('w, 'tx) light_client =
  lc_block_height :: "('w, anyhow_error, u64) io"
  lc_fetch_namespaces :: "nat \<Rightarrow> nat \<Rightarrow> u64 \<Rightarrow> ('w, anyhow_error, 'tx list list) io"

definition verified_block_height :: "('w, 'tx) light_client \<Rightarrow> ('w, light_client_error, u64) io" where
  "verified_block_height LC = io_map_err LcVerification (lc_block_height LC)"

definition usize_try_from :: "nat \<Rightarrow> u64 \<Rightarrow> light_client_error + nat" where
  "usize_try_from usize_max n = (if unat n \<le> usize_max then Inr (unat n) else Inl (LcHeightOverflow n))"

definition verified_transactions_in_range ::
  "nat \<Rightarrow> ('w, 'tx) light_client \<Rightarrow> u64 \<Rightarrow> u64 \<Rightarrow> u64 \<Rightarrow> ('w, light_client_error, 'tx list list) io" where
  "verified_transactions_in_range usize_max LC ns start stop =
     io_then (ret (usize_try_from usize_max start)) (\<lambda>start_usize.
     io_then (ret (usize_try_from usize_max stop)) (\<lambda>end_usize.
     io_map_err LcVerification (lc_fetch_namespaces LC start_usize end_usize ns)))"

definition unverified_block_height ::
  "('w, 'tx) rest_client \<Rightarrow> ('tx, 'h) client_decoders \<Rightarrow> espresso_client_config \<Rightarrow> ('w, light_client_error, u64) io" where
  "unverified_block_height C D cfg = io_map_err LcVerification (fetch_latest_hotshot_block_height C D cfg)"

definition unverified_transactions_in_range ::
  "('w, 'tx) rest_client \<Rightarrow> ('tx, 'h) client_decoders \<Rightarrow> espresso_client_config \<Rightarrow> u64 \<Rightarrow> u64 \<Rightarrow> u64
     \<Rightarrow> ('w, light_client_error, 'tx list list) io" where
  "unverified_transactions_in_range C D cfg ns start stop =
     io_then (io_map_err LcVerification (fetch_namespace_transactions_in_range C D cfg ns start stop)) (\<lambda>ranges.
     ret (Inr (map transactions ranges)))"

text \<open>The reader as one iteration of the poller sees it, in a given world.\<close>

definition unverified_reader ::
  "('w, 'tx) rest_client \<Rightarrow> ('tx, 'h) client_decoders \<Rightarrow> espresso_client_config \<Rightarrow> 'w \<Rightarrow> 'tx espresso_reader" where
  "unverified_reader C D cfg w =
     \<lparr>block_height = fst (run_state (unverified_block_height C D cfg) w),
      namespace_transactions_in_range = \<lambda>ns start stop.
        fst (run_state (unverified_transactions_in_range C D cfg ns start stop) w)\<rparr>"

subsection \<open>A missing range is a lag, not an error\<close>

lemma client_get_404:
  "run_state (rc_get C url) w = (Inr (404, body), w') \<Longrightarrow>
     run_state (client_get C decode url) w = (Inl AnyNotFound, w')"
  by (simp add: client_get_def run_io_then run_io_map_err status_ok_def)

lemma range_404:
  assumes "run_state (fetch_limits C D cfg) w = (Inr limits, w1)"
    and "stop - start \<le> large_object_range_limit limits"
    and "rc_join C (base_url cfg) (''availability/block/'' @ show_nat (unat start) @ ''/'' @ show_nat (unat stop) @
         ''/namespace/'' @ show_nat (unat ns)) = Inr url"
    and "run_state (rc_get C url) w1 = (Inr (404, body), w2)"
  shows "fst (run_state (unverified_transactions_in_range C D cfg ns start stop) w) = Inl (LcVerification AnyNotFound)"
proof -
  have get: "run_state (client_get C (dc_ranges D) url) w1 = (Inl AnyNotFound, w2)"
    by (rule client_get_404 [OF assms(4)])
  show ?thesis
    using assms(1,2,3) get
    by (simp add: unverified_transactions_in_range_def fetch_namespace_transactions_in_range_def run_io_then
        run_io_map_err joined_def not_less)
qed

end
