(* ===== verification/Submitter.thy ===== *)
theory Submitter
  imports Espresso_Client "HOL-Library.Multiset"
begin

text \<open>
  The submitter (\<open>src/submitter/submitter.rs\<close>): the loop that drains the message channel, builds transactions, takes a
  permit and spawns a task per transaction, and the task's own submit, wait and poll loop. The loop and its tasks
  interleave; their steps are the rules of \<open>sub_step\<close>. \<open>tx_ctor\<close> is the transaction constructor the service passes
  in; \<open>None\<close> means that it does not return.
\<close>

subsection \<open>State\<close>

record submitter_config =
  max_in_flight :: nat
  finalization_wait_ms :: u64
  sub_initial_backoff_ms :: u64
  sub_max_backoff_ms :: u64
  max_finalization_poll_retries :: nat

definition submitter_config_default :: submitter_config where
  "submitter_config_default =
     \<lparr>max_in_flight = 4, finalization_wait_ms = 5000, sub_initial_backoff_ms = 100, sub_max_backoff_ms = 10000,
      max_finalization_poll_retries = 5\<rparr>"

datatype submitter_error = ChannelClosed | FailedToAcquirePermit

text \<open>A task either submits, with its next backoff, or polls for a hash after a number of failed attempts.\<close>

datatype 'h task_phase = Submitting nat | Polling 'h nat nat

record ('tx, 'h) task =
  task_tx :: 'tx
  task_phase :: "'h task_phase"

text \<open>
  \<open>sub_holding\<close> is the transaction the loop has popped and waits with for a permit. The last five fields record the
  history: the messages that arrived, the batches handed to \<open>tx_ctor\<close>, the transactions built, spawned and finalized.
\<close>

record ('m, 'tx, 'h) submitter =
  sub_unsubmitted :: "'tx list"
  sub_channel :: "'m list"
  sub_closed :: bool
  sub_config :: submitter_config
  sub_permits :: nat
  sub_holding :: "'tx option"
  sub_tasks :: "('tx, 'h) task list"
  sub_arrived :: "'m list"
  sub_batches :: "'m list list"
  sub_built :: "'tx list"
  sub_spawned :: "'tx list"
  sub_done :: "'tx list"

definition submitter_new :: "submitter_config \<Rightarrow> ('m, 'tx, 'h) submitter" where
  "submitter_new cfg =
     \<lparr>sub_unsubmitted = [], sub_channel = [], sub_closed = False, sub_config = cfg, sub_permits = max_in_flight cfg,
      sub_holding = None, sub_tasks = [], sub_arrived = [], sub_batches = [], sub_built = [], sub_spawned = [],
      sub_done = []\<rparr>"

subsection \<open>The main loop\<close>

text \<open>
  The body up to \<open>pop_front\<close>, once a message or a transaction is there: everything in the channel becomes one batch.
\<close>

definition collect ::
  "('m list \<Rightarrow> 'tx list option) \<Rightarrow> ('m, 'tx, 'h) submitter \<Rightarrow> ('m, 'tx, 'h) submitter option" where
  "collect tx_ctor s =
     (let pending_msgs = sub_channel s in
      map_option (\<lambda>txs.
        let unsubmitted = sub_unsubmitted s @ txs;
            s' = s\<lparr>sub_channel := [],
                   sub_batches := sub_batches s @ (if pending_msgs = [] then [] else [pending_msgs]),
                   sub_built := sub_built s @ txs\<rparr>
        in (case unsubmitted of
              [] \<Rightarrow> s'\<lparr>sub_unsubmitted := []\<rparr>
            | tx # rest \<Rightarrow> s'\<lparr>sub_unsubmitted := rest, sub_holding := Some tx\<rparr>))
        (if pending_msgs = [] then Some [] else tx_ctor pending_msgs))"

text \<open>The loop returns only when it waits for a first message on a closed, empty channel.\<close>

definition submit_exit :: "('m, 'tx, 'h) submitter \<Rightarrow> submitter_error option" where
  "submit_exit s =
     (if sub_holding s = None \<and> sub_unsubmitted s = [] \<and> sub_channel s = [] \<and> sub_closed s
      then Some ChannelClosed else None)"

subsection \<open>The task\<close>

definition task_start :: "submitter_config \<Rightarrow> 'tx \<Rightarrow> ('tx, 'h) task" where
  "task_start cfg tx = \<lparr>task_tx = tx, task_phase = Submitting (unat (sub_initial_backoff_ms cfg))\<rparr>"

definition on_submit :: "submitter_config \<Rightarrow> anyhow_error + 'h \<Rightarrow> nat \<Rightarrow> 'h task_phase" where
  "on_submit cfg r backoff_ms =
     (case r of
        Inr tx_hash \<Rightarrow> Polling tx_hash 0 (unat (sub_initial_backoff_ms cfg))
      | Inl err \<Rightarrow> Submitting (exponential_backoff backoff_ms (unat (sub_max_backoff_ms cfg))))"

text \<open>\<open>None\<close> means finalized: the task ends and its permit is released.\<close>

definition on_poll ::
  "submitter_config \<Rightarrow> anyhow_error + ('tx, 'h) transaction_query_data \<Rightarrow> 'h \<Rightarrow> nat \<Rightarrow> nat \<Rightarrow> 'h task_phase option" where
  "on_poll cfg r tx_hash poll_attempts backoff_ms =
     (case r of
        Inr data \<Rightarrow> None
      | Inl err \<Rightarrow>
          let poll_attempts = poll_attempts + 1 in
          if poll_attempts \<ge> max_finalization_poll_retries cfg
          then Some (Submitting (unat (sub_initial_backoff_ms cfg)))
          else Some (Polling tx_hash poll_attempts (exponential_backoff backoff_ms (unat (sub_max_backoff_ms cfg)))))"

subsection \<open>Interleaving\<close>

inductive sub_step ::
  "('m list \<Rightarrow> 'tx list option) \<Rightarrow> ('m, 'tx, 'h) submitter \<Rightarrow> ('m, 'tx, 'h) submitter \<Rightarrow> bool"
  for tx_ctor where
  arrive: "\<not> sub_closed s \<Longrightarrow>
    sub_step tx_ctor s (s\<lparr>sub_channel := sub_channel s @ [m], sub_arrived := sub_arrived s @ [m]\<rparr>)"
| close: "sub_step tx_ctor s (s\<lparr>sub_closed := True\<rparr>)"
| batch: "sub_holding s = None \<Longrightarrow> sub_unsubmitted s \<noteq> [] \<or> sub_channel s \<noteq> [] \<Longrightarrow> collect tx_ctor s = Some s' \<Longrightarrow>
    sub_step tx_ctor s s'"
| spawn: "sub_holding s = Some tx \<Longrightarrow> 0 < sub_permits s \<Longrightarrow>
    sub_step tx_ctor s
      (s\<lparr>sub_holding := None, sub_permits := sub_permits s - 1,
         sub_tasks := sub_tasks s @ [task_start (sub_config s) tx], sub_spawned := sub_spawned s @ [tx]\<rparr>)"
| submit: "sub_tasks s = ts @ t # us \<Longrightarrow> task_phase t = Submitting b \<Longrightarrow>
    sub_step tx_ctor s
      (s\<lparr>sub_tasks := ts @ t\<lparr>task_phase := on_submit (sub_config s) r b\<rparr> # us\<rparr>)"
| poll: "sub_tasks s = ts @ t # us \<Longrightarrow> task_phase t = Polling h n b \<Longrightarrow>
    on_poll (sub_config s) (Inl err :: anyhow_error + ('tx, 'h) transaction_query_data) h n b = Some ph \<Longrightarrow>
    sub_step tx_ctor s (s\<lparr>sub_tasks := ts @ t\<lparr>task_phase := ph\<rparr> # us\<rparr>)"
| finalize: "sub_tasks s = ts @ t # us \<Longrightarrow> task_phase t = Polling h n b \<Longrightarrow>
    on_poll (sub_config s) (Inr (data :: ('tx, 'h) transaction_query_data)) h n b = None \<Longrightarrow>
    sub_step tx_ctor s
      (s\<lparr>sub_tasks := ts @ us, sub_permits := sub_permits s + 1, sub_done := sub_done s @ [task_tx t]\<rparr>)"

inductive_cases sub_stepE: "sub_step tx_ctor s s'"

subsection \<open>Invariant\<close>

definition holding_list :: "('m, 'tx, 'h) submitter \<Rightarrow> 'tx list" where
  "holding_list s = (case sub_holding s of Some tx \<Rightarrow> [tx] | None \<Rightarrow> [])"

text \<open>
  Permits and running tasks add up to the limit. Messages are batched in the order of arrival, the batches are what
  was built, transactions are spawned in the order they were built, and each spawned one is running or finalized.
  A polling task has fewer failed attempts than the limit.
\<close>

definition sub_inv :: "submitter_config \<Rightarrow> ('m list \<Rightarrow> 'tx list option) \<Rightarrow> ('m, 'tx, 'h) submitter \<Rightarrow> bool" where
  "sub_inv cfg tx_ctor s \<longleftrightarrow>
     sub_config s = cfg \<and>
     sub_permits s + length (sub_tasks s) = max_in_flight cfg \<and>
     concat (sub_batches s) @ sub_channel s = sub_arrived s \<and>
     (\<exists>built. map tx_ctor (sub_batches s) = map Some built \<and> concat built = sub_built s) \<and>
     sub_spawned s @ holding_list s @ sub_unsubmitted s = sub_built s \<and>
     mset (sub_spawned s) = mset (map task_tx (sub_tasks s)) + mset (sub_done s) \<and>
     (\<forall>t \<in> set (sub_tasks s). \<forall>h n b. task_phase t = Polling h n b \<longrightarrow>
        n = 0 \<or> n < max_finalization_poll_retries cfg)"

lemma sub_inv_new: "sub_inv cfg tx_ctor (submitter_new cfg)"
  by (simp add: sub_inv_def submitter_new_def holding_list_def)

lemma collect_effect:
  assumes "collect tx_ctor s = Some s'" and "sub_holding s = None"
  shows "\<exists>txs. (if sub_channel s = [] then txs = [] \<and> sub_batches s' = sub_batches s
        else tx_ctor (sub_channel s) = Some txs \<and> sub_batches s' = sub_batches s @ [sub_channel s]) \<and>
      sub_built s' = sub_built s @ txs \<and> holding_list s' @ sub_unsubmitted s' = sub_unsubmitted s @ txs \<and>
      sub_channel s' = [] \<and> sub_config s' = sub_config s \<and> sub_permits s' = sub_permits s \<and>
      sub_tasks s' = sub_tasks s \<and> sub_arrived s' = sub_arrived s \<and> sub_spawned s' = sub_spawned s \<and>
      sub_done s' = sub_done s"
proof -
  obtain txs where t: "(if sub_channel s = [] then Some [] else tx_ctor (sub_channel s)) = Some txs"
    using assms(1) by (auto simp: collect_def Let_def)
  show ?thesis
    by (rule exI [of _ txs], cases "sub_unsubmitted s @ txs")
       (use assms t in \<open>auto simp: collect_def Let_def holding_list_def split: if_splits\<close>)
qed

lemma sub_inv_batch:
  assumes "sub_inv cfg tx_ctor s" and "collect tx_ctor s = Some s'" and "sub_holding s = None"
  shows "sub_inv cfg tx_ctor s'"
proof -
  obtain txs where e: "if sub_channel s = [] then txs = [] \<and> sub_batches s' = sub_batches s
        else tx_ctor (sub_channel s) = Some txs \<and> sub_batches s' = sub_batches s @ [sub_channel s]"
      "sub_built s' = sub_built s @ txs" "holding_list s' @ sub_unsubmitted s' = sub_unsubmitted s @ txs"
      "sub_channel s' = []" "sub_config s' = sub_config s" "sub_permits s' = sub_permits s"
      "sub_tasks s' = sub_tasks s" "sub_arrived s' = sub_arrived s" "sub_spawned s' = sub_spawned s"
      "sub_done s' = sub_done s"
    using collect_effect [OF assms(2,3)] by blast
  obtain built where b: "map tx_ctor (sub_batches s) = map Some built" "concat built = sub_built s"
    using assms(1) by (auto simp: sub_inv_def)
  have "\<exists>built. map tx_ctor (sub_batches s') = map Some built \<and> concat built = sub_built s'"
  proof (cases "sub_channel s = []")
    case True
    then show ?thesis using e(1,2) b by auto
  next
    case False
    then show ?thesis using e(1,2) b by (intro exI [of _ "built @ [txs]"]) simp
  qed
  moreover have "concat (sub_batches s') @ sub_channel s' = sub_arrived s'"
    using assms(1) e by (cases "sub_channel s = []") (auto simp: sub_inv_def)
  moreover have "holding_list s = []" using assms(3) by (simp add: holding_list_def)
  ultimately show ?thesis using assms(1) e by (simp add: sub_inv_def)
qed

lemma sub_inv_task:
  assumes "sub_inv cfg tx_ctor s" and "sub_tasks s = ts @ t # us"
    and "\<forall>h n b. ph = Polling h n b \<longrightarrow> n = 0 \<or> n < max_finalization_poll_retries cfg"
  shows "sub_inv cfg tx_ctor (s\<lparr>sub_tasks := ts @ t\<lparr>task_phase := ph\<rparr> # us\<rparr>)"
  using assms unfolding sub_inv_def holding_list_def by (auto 0 3)

lemma sub_inv_step:
  assumes "sub_step tx_ctor s s'" and "sub_inv cfg tx_ctor s"
  shows "sub_inv cfg tx_ctor s'"
  using assms(1)
proof cases
  case (batch)
  then show ?thesis using sub_inv_batch [OF assms(2)] by blast
next
  case (submit ts t us b r)
  then show ?thesis
    using sub_inv_task [OF assms(2), of ts t us] by (auto simp: on_submit_def split: sum.split)
next
  case (poll ts t us h n b err ph)
  have "\<forall>h' n' b'. ph = Polling h' n' b' \<longrightarrow> n' = 0 \<or> n' < max_finalization_poll_retries cfg"
    using poll(4) assms(2) by (auto simp: on_poll_def Let_def sub_inv_def split: if_splits)
  then show ?thesis using sub_inv_task [OF assms(2) poll(2)] poll(1) by simp
next
  case (spawn tx)
  then show ?thesis
    using assms(2) by (auto simp: sub_inv_def holding_list_def task_start_def)
qed (use assms(2) in \<open>auto simp: sub_inv_def holding_list_def\<close>)

lemma sub_inv_reachable:
  "(sub_step tx_ctor)\<^sup>*\<^sup>* (submitter_new cfg) s \<Longrightarrow> sub_inv cfg tx_ctor s"
  by (induction rule: rtranclp_induct) (auto intro: sub_inv_new sub_inv_step)

subsection \<open>A task finishes\<close>

text \<open>The task against a list of answers: to a submission, or to a poll.\<close>

datatype ('tx, 'h) task_answer =
  SubmitAnswer "anyhow_error + 'h"
| PollAnswer "anyhow_error + ('tx, 'h) transaction_query_data"

fun task_run :: "submitter_config \<Rightarrow> 'h task_phase \<Rightarrow> ('tx, 'h) task_answer list \<Rightarrow> 'h task_phase option" where
  "task_run cfg ph [] = Some ph"
| "task_run cfg (Submitting b) (SubmitAnswer r # as) = task_run cfg (on_submit cfg r b) as"
| "task_run cfg (Polling h n b) (PollAnswer r # as) =
     (case on_poll cfg r h n b of None \<Rightarrow> None | Some ph \<Rightarrow> task_run cfg ph as)"
| "task_run cfg ph (a # as) = Some ph"

lemma task_run_submit_failures:
  "\<exists>b'. task_run cfg (Submitting b) (map (\<lambda>e. SubmitAnswer (Inl e)) es @ as) = task_run cfg (Submitting b') as"
  by (induction es arbitrary: b) (auto simp: on_submit_def)

lemma task_run_poll_failures:
  "n + length es < max_finalization_poll_retries cfg \<Longrightarrow>
     \<exists>b'. task_run cfg (Polling h n b) (map (\<lambda>e. PollAnswer (Inl e)) es @ as) =
       task_run cfg (Polling h (n + length es) b') as"
  by (induction es arbitrary: n b) (auto simp: on_poll_def Let_def simp flip: add_Suc)

lemma task_finishes:
  assumes "length polls < max_finalization_poll_retries cfg"
  shows "task_run cfg (Submitting b)
    (map (\<lambda>e. SubmitAnswer (Inl e)) errs @ SubmitAnswer (Inr h) # map (\<lambda>e. PollAnswer (Inl e)) polls @
     [PollAnswer (Inr d)]) = None"
proof -
  obtain b' where "task_run cfg (Submitting b) (map (\<lambda>e. SubmitAnswer (Inl e)) errs @
      SubmitAnswer (Inr h) # map (\<lambda>e. PollAnswer (Inl e)) polls @ [PollAnswer (Inr d)]) =
    task_run cfg (Submitting b') (SubmitAnswer (Inr h) # map (\<lambda>e. PollAnswer (Inl e)) polls @ [PollAnswer (Inr d)])"
    using task_run_submit_failures by blast
  also have "\<dots> = task_run cfg (Polling h 0 (unat (sub_initial_backoff_ms cfg)))
      (map (\<lambda>e. PollAnswer (Inl e)) polls @ [PollAnswer (Inr d)])"
    by (simp add: on_submit_def)
  also obtain b'' where "\<dots> = task_run cfg (Polling h (length polls) b'') [PollAnswer (Inr d)]"
    using task_run_poll_failures [of 0 polls cfg h "unat (sub_initial_backoff_ms cfg)" "[PollAnswer (Inr d)]"] assms
    by (auto simp del: task_run.simps)
  finally show ?thesis by (simp add: on_poll_def)
qed

text \<open>After as many failed polls as the limit allows, the task submits again.\<close>

lemma task_resubmits:
  assumes "length polls = max 1 (max_finalization_poll_retries cfg)"
  shows "task_run cfg (Polling h 0 b) (map (\<lambda>e. PollAnswer (Inl e) :: ('tx, 'h) task_answer) polls) =
    Some (Submitting (unat (sub_initial_backoff_ms cfg)))"
proof (cases polls rule: rev_cases)
  case (snoc ps p)
  show ?thesis
  proof (cases ps)
    case Nil
    then show ?thesis using assms snoc by (simp add: on_poll_def Let_def)
  next
    case (Cons q qs)
    then have "0 + length ps < max_finalization_poll_retries cfg" using assms snoc by simp
    then obtain b' where "task_run cfg (Polling h 0 b) (map (\<lambda>e. PollAnswer (Inl e) :: ('tx, 'h) task_answer) ps @ [PollAnswer (Inl p) :: ('tx, 'h) task_answer]) =
        task_run cfg (Polling h (0 + length ps) b') [PollAnswer (Inl p) :: ('tx, 'h) task_answer]"
      using task_run_poll_failures [of 0 ps cfg h b "[PollAnswer (Inl p) :: ('tx, 'h) task_answer]"] by (auto simp del: task_run.simps)
    then show ?thesis using assms snoc by (simp add: on_poll_def Let_def)
  qed
qed (use assms in simp)

end
