(* ===== verification/Feed_Message.thy ===== *)
theory Feed_Message
  imports Std_Io Nitro_Types
begin

text \<open>
  What both ends of the sequencer feed share: the frames of \<open>src/rollups/nitro/feed/message.rs\<close>, the handshake
  headers of \<open>feed/client.rs\<close>, and the reading of a decimal \<open>u64\<close> from a header.
\<close>

record broadcast_message =
  bm_version :: int
  bm_messages :: "broadcast_feed_message option list"
  bm_confirmed :: "u64 option"

text \<open>\<open>messages.iter().flatten()\<close>.\<close>

definition bm_flat :: "broadcast_message \<Rightarrow> broadcast_feed_message list" where
  "bm_flat bm = map the (filter (\<lambda>m. m \<noteq> None) (bm_messages bm))"

definition FEED_SERVER_VERSION :: u64 where
  "FEED_SERVER_VERSION = 2"

definition FEED_CLIENT_VERSION :: u64 where
  "FEED_CLIENT_VERSION = 2"

definition HEADER_FEED_SERVER_VERSION :: string where
  "HEADER_FEED_SERVER_VERSION = ''Arbitrum-Feed-Server-Version''"

definition HEADER_FEED_CLIENT_VERSION :: string where
  "HEADER_FEED_CLIENT_VERSION = ''Arbitrum-Feed-Client-Version''"

definition HEADER_REQUESTED_SEQ_NUM :: string where
  "HEADER_REQUESTED_SEQ_NUM = ''Arbitrum-Requested-Sequence-Number''"

definition HEADER_CHAIN_ID :: string where
  "HEADER_CHAIN_ID = ''Arbitrum-Chain-Id''"

definition MESSAGE_VERSION :: int where
  "MESSAGE_VERSION = 1"

subsection \<open>Header values\<close>

type_synonym headers = "(string \<times> string) list"

text \<open>\<open>HeaderValue::to_str\<close>: visible ASCII and tabs only.\<close>

definition to_str :: "string \<Rightarrow> string option" where
  "to_str v = (if list_all (\<lambda>c. (32 \<le> (of_char c :: nat) \<and> (of_char c :: nat) < 127) \<or> (of_char c :: nat) = 9) v then Some v else None)"

text \<open>\<open>str::parse::<u64>\<close>: an optional plus sign, then at least one digit, within 64 bits.\<close>

fun parse_digits :: "nat \<Rightarrow> string \<Rightarrow> nat option" where
  "parse_digits acc [] = Some acc"
| "parse_digits acc (c # cs) =
     (let d = of_char c :: nat; v = acc * 10 + d - 48 in
      if 48 \<le> d \<and> d \<le> 57 \<and> v < 2 ^ 64 then parse_digits v cs else None)"

definition parse_u64 :: "string \<Rightarrow> u64 option" where
  "parse_u64 s =
     (let ds = (case s of c # cs \<Rightarrow> if c = CHR ''+'' then cs else s | [] \<Rightarrow> s)
      in if ds = [] then None else map_option of_nat (parse_digits 0 ds))"

subsection \<open>Reading back a printed number\<close>

lemma parse_digits_snoc:
  "parse_digits a (ds @ [c]) = (case parse_digits a ds of None \<Rightarrow> None | Some v \<Rightarrow> parse_digits v [c])"
  by (induction ds arbitrary: a) (simp_all add: Let_def)

lemma digit_char_decimal:
  "d < 10 \<Longrightarrow> of_char (digit_char d) = (48 + d :: nat)"
  by (simp add: digit_char_def)

lemma parse_digits_show: "n < 2 ^ 64 \<Longrightarrow> parse_digits 0 (digits 8 n) = Some n"
proof (induction "8 :: nat" n rule: digits.induct)
  case (1 n)
  show ?case
  proof (cases "n < 10")
    case True
    then show ?thesis using "1.prems" by (simp add: digits.simps [of _ n] digit_char_decimal)
  next
    case False
    then have "parse_digits 0 (digits 8 (n div 10)) = Some (n div 10)"
      using 1 by (simp add: div_le_dividend le_less_trans)
    then show ?thesis
      using False "1.prems" by (simp add: digits.simps [of _ n] parse_digits_snoc digit_char_decimal)
  qed
qed

lemma digits_decimal: "\<exists>c cs. digits 8 n = c # cs \<and> 48 \<le> (of_char c :: nat)"
proof (induction "8 :: nat" n rule: digits.induct)
  case (1 n)
  show ?case
  proof (cases "n < 10")
    case True
    then show ?thesis by (simp add: digits.simps [of _ n] digit_char_decimal)
  next
    case False
    then show ?thesis using 1 by (auto simp: digits.simps [of _ n])
  qed
qed

lemma parse_show_u64: "parse_u64 (show_nat (unat n)) = Some n" for n :: u64
proof -
  obtain c cs where c: "digits 8 (unat n) = c # cs" "48 \<le> (of_char c :: nat)"
    using digits_decimal by blast
  then have "c \<noteq> CHR ''+''" by auto
  moreover have "parse_digits 0 (digits 8 (unat n)) = Some (unat n)"
    using unsigned_less [of n] by (intro parse_digits_show) simp
  ultimately show ?thesis
    using c(1) by (simp add: parse_u64_def show_nat_def Let_def)
qed

lemma digits_visible: "list_all (\<lambda>c. 48 \<le> (of_char c :: nat) \<and> (of_char c :: nat) \<le> 57) (digits 8 n)"
proof (induction "8 :: nat" n rule: digits.induct)
  case (1 n)
  show ?case
  proof (cases "n < 10")
    case True
    then show ?thesis by (simp add: digits.simps [of _ n] digit_char_decimal)
  next
    case False
    then show ?thesis using 1 by (simp add: digits.simps [of _ n] digit_char_decimal)
  qed
qed

lemma to_str_show [simp]: "to_str (show_nat n) = Some (show_nat n)"
proof -
  have "list_all (\<lambda>c. (32 \<le> (of_char c :: nat) \<and> (of_char c :: nat) < 127) \<or> (of_char c :: nat) = 9) (digits 8 n)"
    by (rule list.pred_mono_strong [OF digits_visible]) auto
  then show ?thesis by (simp add: to_str_def show_nat_def)
qed

lemma bm_flat_Some [simp]: "bm_flat (bm\<lparr>bm_messages := map Some ms\<rparr>) = ms"
  by (simp add: bm_flat_def filter_map comp_def)

end
