(* ===== verification/Feed_Server.thy ===== *)
theory Feed_Server
  imports Feed_Message "HOL-Library.AList"
begin

text \<open>
  The feed server (\<open>src/rollups/nitro/feed/ws_server.rs\<close>) and the broadcaster over it (\<open>feed/broadcaster.rs\<close>): the
  backlog, the broadcast to subscribers, the handshake, and the loop that serves one client. The socket, the
  WebSocket upgrade and the JSON serializer are parameters; what happens to a connection is a list of events.
\<close>

subsection \<open>Backlog\<close>

type_synonym backlog = "broadcast_feed_message list"

fun backlog_append_messages :: "backlog \<Rightarrow> broadcast_feed_message list \<Rightarrow> backlog" where
  "backlog_append_messages msgs [] = msgs"
| "backlog_append_messages msgs (m # ms) =
     (if msgs \<noteq> [] \<and> sequence_number m \<le> sequence_number (last msgs)
      then backlog_append_messages msgs ms
      else backlog_append_messages (msgs @ [m]) ms)"

definition backlog_append :: "backlog \<Rightarrow> broadcast_message \<Rightarrow> backlog" where
  "backlog_append msgs bm = backlog_append_messages msgs (bm_flat bm)"

definition backlog_confirm :: "backlog \<Rightarrow> u64 \<Rightarrow> backlog" where
  "backlog_confirm msgs confirmed = filter (\<lambda>m. sequence_number m > confirmed) msgs"

definition backlog_count :: "backlog \<Rightarrow> nat" where
  "backlog_count msgs = length msgs"

definition get_since :: "backlog \<Rightarrow> u64 \<Rightarrow> broadcast_feed_message list" where
  "get_since msgs from_seq = filter (\<lambda>m. sequence_number m \<ge> from_seq) msgs"

subsection \<open>Shared state and broadcast\<close>

text \<open>
  \<open>sh_sent\<close> is all that was sent on the broadcast channel; a receiver reads it from where it subscribed.
\<close>

record shared_state =
  sh_backlog :: backlog
  sh_sent :: "broadcast_message list"
  sh_client_count :: "32 word"
  sh_chain_id :: u64
  sh_config :: ws_broadcast_server_config

record ws_broadcast_server =
  ws_shared :: shared_state
  ws_state :: "string option"

definition ws_server_new :: "ws_broadcast_server_config \<Rightarrow> u64 \<Rightarrow> ws_broadcast_server" where
  "ws_server_new cfg chain =
     \<lparr>ws_shared = \<lparr>sh_backlog = [], sh_sent = [], sh_client_count = 0, sh_chain_id = chain, sh_config = cfg\<rparr>,
      ws_state = None\<rparr>"

datatype ws_server_error =
  WsIo string
| WsWebSocket string
| WsSerialization string
| UpgradeChannelClosed
| WsHttp string

text \<open>\<open>bind_listener\<close> opens the listener on an address and gives its local address.\<close>

definition ws_server_start ::
  "(string \<Rightarrow> r_error + string) \<Rightarrow> ws_broadcast_server \<Rightarrow> (ws_server_error + string) \<times> ws_broadcast_server" where
  "ws_server_start bind_listener srv =
     (let cfg = sh_config (ws_shared srv)
      in case bind_listener (ws_addr cfg @ '':'' @ show_nat (ws_port cfg)) of
           Inl e \<Rightarrow> (Inl (WsIo e), srv)
         | Inr local_addr \<Rightarrow> (Inr local_addr, srv\<lparr>ws_state := Some local_addr\<rparr>))"

definition ws_server_stop :: "ws_broadcast_server \<Rightarrow> ws_broadcast_server" where
  "ws_server_stop srv = srv\<lparr>ws_state := None\<rparr>"

definition ws_server_started :: "ws_broadcast_server \<Rightarrow> bool" where
  "ws_server_started srv \<longleftrightarrow> ws_state srv \<noteq> None"

definition broadcast :: "shared_state \<Rightarrow> broadcast_message \<Rightarrow> shared_state" where
  "broadcast sh bm =
     (let sh = (case bm_confirmed bm of
                  Some confirmed \<Rightarrow> sh\<lparr>sh_backlog := backlog_confirm (sh_backlog sh) confirmed\<rparr>
                | None \<Rightarrow> sh);
          sh = sh\<lparr>sh_backlog := backlog_append (sh_backlog sh) bm\<rparr>
      in sh\<lparr>sh_sent := sh_sent sh @ [bm]\<rparr>)"

subsection \<open>Broadcaster\<close>

definition broadcaster_new :: "broadcaster_config \<Rightarrow> u64 \<Rightarrow> ws_broadcast_server" where
  "broadcaster_new cfg chain = ws_server_new (ws_server_config cfg) chain"

definition broadcaster_start ::
  "(string \<Rightarrow> r_error + string) \<Rightarrow> ws_broadcast_server \<Rightarrow> (ws_server_error + string) \<times> ws_broadcast_server" where
  "broadcaster_start bind_listener srv = ws_server_start bind_listener srv"

definition broadcaster_stop :: "ws_broadcast_server \<Rightarrow> ws_broadcast_server" where
  "broadcaster_stop srv = ws_server_stop srv"

definition listener_addr :: "ws_broadcast_server \<Rightarrow> string option" where
  "listener_addr srv = ws_state srv"

definition client_count :: "ws_broadcast_server \<Rightarrow> 32 word" where
  "client_count srv = sh_client_count (ws_shared srv)"

definition get_cached_message_count :: "ws_broadcast_server \<Rightarrow> nat" where
  "get_cached_message_count srv = backlog_count (sh_backlog (ws_shared srv))"

definition feed_messages_bm :: "broadcast_feed_message list \<Rightarrow> broadcast_message" where
  "feed_messages_bm ms = \<lparr>bm_version = 1, bm_messages = map Some ms, bm_confirmed = None\<rparr>"

definition broadcast_feed_messages :: "shared_state \<Rightarrow> broadcast_feed_message list \<Rightarrow> shared_state" where
  "broadcast_feed_messages sh ms = broadcast sh (feed_messages_bm ms)"

definition broadcast_single_feed_message :: "shared_state \<Rightarrow> broadcast_feed_message \<Rightarrow> shared_state" where
  "broadcast_single_feed_message sh bfm = broadcast_feed_messages sh [bfm]"

definition confirm_bm :: "u64 \<Rightarrow> broadcast_message" where
  "confirm_bm msg_idx = \<lparr>bm_version = 1, bm_messages = [], bm_confirmed = Some msg_idx\<rparr>"

definition broadcaster_confirm :: "shared_state \<Rightarrow> u64 \<Rightarrow> shared_state" where
  "broadcaster_confirm sh msg_idx = broadcast sh (confirm_bm msg_idx)"

subsection \<open>Handshake\<close>

definition header_u64 :: "headers \<Rightarrow> string \<Rightarrow> u64 option" where
  "header_u64 hs name = Option.bind (Option.bind (map_of hs name) to_str) parse_u64"

definition SEC_WEBSOCKET_EXTENSIONS :: string where
  "SEC_WEBSOCKET_EXTENSIONS = ''sec-websocket-extensions''"

text \<open>
  \<open>upgrade\<close> performs the upgrade, with compression offered or not, and gives the response headers. The left side is
  the status of a refused request.
\<close>

definition handle_upgrade ::
  "ws_broadcast_server_config \<Rightarrow> u64 \<Rightarrow> (bool \<Rightarrow> headers \<Rightarrow> r_error + headers) \<Rightarrow> headers
     \<Rightarrow> nat + headers \<times> u64 \<times> bool" where
  "handle_upgrade cfg chain upgrade req =
     (let seq_num = (case header_u64 req HEADER_REQUESTED_SEQ_NUM of Some n \<Rightarrow> n | None \<Rightarrow> 0);
          client_version = header_u64 req HEADER_FEED_CLIENT_VERSION;
          version_ok = (case client_version of Some v \<Rightarrow> v \<ge> FEED_CLIENT_VERSION | None \<Rightarrow> False)
      in if require_version cfg \<and> \<not> version_ok then Inl 400
         else case upgrade (server_enable_compression cfg) req of
           Inl e \<Rightarrow> Inl 400
         | Inr response \<Rightarrow>
             let compression_accepted = map_of response SEC_WEBSOCKET_EXTENSIONS \<noteq> None;
                 response = AList.update HEADER_FEED_SERVER_VERSION (show_nat (unat FEED_SERVER_VERSION)) response;
                 response = AList.update HEADER_CHAIN_ID (show_nat (unat chain)) response
             in Inr (response, seq_num, compression_accepted))"

subsection \<open>Serving a client\<close>

definition should_send :: "broadcast_message \<Rightarrow> u64 option \<Rightarrow> bool" where
  "should_send bm last_sent_seq =
     (if bm_confirmed bm \<noteq> None then True
      else case last_sent_seq of
        None \<Rightarrow> bm_messages bm \<noteq> []
      | Some l \<Rightarrow> list_ex (\<lambda>m. case m of Some msg \<Rightarrow> sequence_number msg > l | None \<Rightarrow> False) (bm_messages bm))"

definition update_last_sent :: "broadcast_message \<Rightarrow> u64 option \<Rightarrow> u64 option" where
  "update_last_sent bm last_sent_seq =
     foldl (\<lambda>l msg. let current = (case l of Some n \<Rightarrow> n | None \<Rightarrow> 0)
                    in if sequence_number msg \<ge> current then Some (sequence_number msg) else l)
       last_sent_seq (bm_flat bm)"

text \<open>A write with its deadline: done, failed, or past the deadline. \<open>now\<close> is the time of an event.\<close>

datatype write_outcome = WriteOk | WriteErr | WriteTimeout

datatype client_event =
  Cancelled
| PingTick nat write_outcome
| Recv broadcast_message write_outcome
| RecvLagged
| RecvClosed
| CloseFrame
| StreamEnded
| OtherFrame nat

datatype client_outcome = Running | Break string | Failed ws_server_error

text \<open>\<open>cl_frames\<close> are the frames the client was sent, as the messages they hold.\<close>

record ws_client =
  last_sent_seq :: "u64 option"
  last_heard :: nat
  cl_frames :: "broadcast_message list"

definition client_step ::
  "ws_broadcast_server_config \<Rightarrow> (broadcast_message \<Rightarrow> string + string) \<Rightarrow> ws_client \<Rightarrow> client_event
     \<Rightarrow> ws_client \<times> client_outcome" where
  "client_step cfg ser c ev =
     (case ev of
        Cancelled \<Rightarrow> (c, Break ''cancelled'')
      | PingTick now w \<Rightarrow>
          if now - last_heard c > ws_client_timeout cfg then (c, Break ''client_timeout'')
          else if w = WriteTimeout then (c, Break ''ping_write_timeout'')
          else (c, Running)
      | Recv bm w \<Rightarrow>
          if should_send bm (last_sent_seq c) then
            let c = c\<lparr>last_sent_seq := update_last_sent bm (last_sent_seq c)\<rparr>
            in case ser bm of
                 Inl e \<Rightarrow> (c, Failed (WsSerialization e))
               | Inr payload \<Rightarrow>
                   (case w of
                      WriteOk \<Rightarrow> (c\<lparr>cl_frames := cl_frames c @ [bm]\<rparr>, Running)
                    | WriteErr \<Rightarrow> (c, Break ''send_error'')
                    | WriteTimeout \<Rightarrow> (c, Break ''send_timeout''))
          else (c, Running)
      | RecvLagged \<Rightarrow> (c, Break ''lagged'')
      | RecvClosed \<Rightarrow> (c, Break ''broadcast_closed'')
      | CloseFrame \<Rightarrow> (c, Break ''close_frame'')
      | StreamEnded \<Rightarrow> (c, Break ''stream_ended'')
      | OtherFrame now \<Rightarrow> (c\<lparr>last_heard := now\<rparr>, Running))"

fun client_loop ::
  "ws_broadcast_server_config \<Rightarrow> (broadcast_message \<Rightarrow> string + string) \<Rightarrow> ws_client \<Rightarrow> client_event list
     \<Rightarrow> ws_client \<times> client_outcome" where
  "client_loop cfg ser c [] = (c, Running)"
| "client_loop cfg ser c (ev # evs) =
     (case client_step cfg ser c ev of
        (c', Running) \<Rightarrow> client_loop cfg ser c' evs
      | (c', out) \<Rightarrow> (c', out))"

text \<open>
  The whole life of a client, from its backlog read: what it was sent, how its loop ended, and the client count
  afterwards. A failed backlog write other than a timeout is ignored, and a serialization failure returns without
  giving the count back, as in the source.
\<close>

definition run_ws_client ::
  "ws_broadcast_server_config \<Rightarrow> (broadcast_message \<Rightarrow> string + string) \<Rightarrow> backlog \<Rightarrow> u64 \<Rightarrow> nat \<Rightarrow> write_outcome
     \<Rightarrow> client_event list \<Rightarrow> 32 word \<Rightarrow> ws_client \<times> client_outcome \<times> 32 word" where
  "run_ws_client cfg ser bl seq_num start w evs count =
     (let msgs = get_since bl seq_num;
          c = \<lparr>last_sent_seq = None, last_heard = start, cl_frames = []\<rparr>;
          serve = (\<lambda>c. case client_loop cfg ser c evs of
              (c', Break reason) \<Rightarrow> (c', Break reason, count - 1)
            | (c', out) \<Rightarrow> (c', out, count))
      in if msgs = [] then serve c
         else
           let c = c\<lparr>last_sent_seq := Some (sequence_number (last msgs))\<rparr>;
               bm = feed_messages_bm msgs
           in case ser bm of
                Inl e \<Rightarrow> (c, Failed (WsSerialization e), count)
              | Inr payload \<Rightarrow>
                  (case w of
                     WriteTimeout \<Rightarrow> (c, Break ''backlog_write_timeout'', count - 1)
                   | WriteErr \<Rightarrow> serve c
                   | WriteOk \<Rightarrow> serve (c\<lparr>cl_frames := [bm]\<rparr>)))"

text \<open>
  A connection: the handshake, the compression check, and the client. \<open>read\<close> is the backlog when the client task
  reads it.
\<close>

definition handle_connection ::
  "shared_state \<Rightarrow> (broadcast_message \<Rightarrow> string + string) \<Rightarrow> (bool \<Rightarrow> headers \<Rightarrow> r_error + headers) \<Rightarrow> headers
     \<Rightarrow> r_error option \<Rightarrow> backlog \<Rightarrow> nat \<Rightarrow> write_outcome \<Rightarrow> client_event list
     \<Rightarrow> (ws_server_error + ws_client option) \<times> 32 word" where
  "handle_connection sh ser upgrade req upgrade_fails read start w evs =
     (let count = sh_client_count sh in
      case handle_upgrade (sh_config sh) (sh_chain_id sh) upgrade req of
        Inl status \<Rightarrow> (Inl UpgradeChannelClosed, count)
      | Inr (response, seq_num, compression_accepted) \<Rightarrow>
          (case upgrade_fails of
             Some e \<Rightarrow> (Inl (WsWebSocket e), count)
           | None \<Rightarrow>
               if require_compression (sh_config sh) \<and> \<not> compression_accepted then (Inr None, count)
               else case run_ws_client (sh_config sh) ser read seq_num start w evs (count + 1) of
                 (c, Failed e, count') \<Rightarrow> (Inl e, count')
               | (c, out, count') \<Rightarrow> (Inr (Some c), count')))"

text \<open>The accept loop: one task per accepted connection, until it is cancelled.\<close>

datatype 'conn accept_event = AcceptCancelled | Accepted 'conn | AcceptError string

fun accept_loop :: "'conn accept_event list \<Rightarrow> 'conn list" where
  "accept_loop [] = []"
| "accept_loop (AcceptCancelled # evs) = []"
| "accept_loop (Accepted conn # evs) = conn # accept_loop evs"
| "accept_loop (AcceptError e # evs) = accept_loop evs"

subsection \<open>Sequences of broadcaster calls\<close>

datatype broadcaster_op = Feed "broadcast_feed_message list" | Confirm u64

fun op_bm :: "broadcaster_op \<Rightarrow> broadcast_message" where
  "op_bm (Feed ms) = feed_messages_bm ms"
| "op_bm (Confirm c) = confirm_bm c"

fun op_messages :: "broadcaster_op \<Rightarrow> broadcast_feed_message list" where
  "op_messages (Feed ms) = ms"
| "op_messages (Confirm c) = []"

definition fed :: "broadcaster_op list \<Rightarrow> broadcast_feed_message list" where
  "fed ops = concat (map op_messages ops)"

definition run_ops :: "shared_state \<Rightarrow> broadcaster_op list \<Rightarrow> shared_state" where
  "run_ops sh ops = foldl (\<lambda>sh opn. case opn of Feed ms \<Rightarrow> broadcast_feed_messages sh ms
                                              | Confirm c \<Rightarrow> broadcaster_confirm sh c) sh ops"

definition confirms :: "broadcaster_op list \<Rightarrow> u64 set" where
  "confirms ops = {c. Confirm c \<in> set ops}"

text \<open>Specification of the backlog: what was fed and no later confirmation covers.\<close>

fun unconfirmed :: "broadcaster_op list \<Rightarrow> broadcast_feed_message list" where
  "unconfirmed [] = []"
| "unconfirmed (opn # ops) =
     filter (\<lambda>m. \<forall>c \<in> confirms ops. c < sequence_number m) (op_messages opn) @ unconfirmed ops"

definition increasing :: "broadcast_feed_message list \<Rightarrow> bool" where
  "increasing ms \<longleftrightarrow> sorted_wrt (\<lambda>a b. sequence_number a < sequence_number b) ms"

subsection \<open>Contract of the backlog\<close>

lemma fed_simps [simp]:
  "fed [] = []" "fed (opn # ops) = op_messages opn @ fed ops" "fed (ops @ ops') = fed ops @ fed ops'"
  by (simp_all add: fed_def)

lemma increasing_append:
  "increasing (xs @ ys) \<longleftrightarrow>
     increasing xs \<and> increasing ys \<and> (\<forall>x \<in> set xs. \<forall>y \<in> set ys. sequence_number x < sequence_number y)"
  by (simp add: increasing_def sorted_wrt_append)

lemma increasing_filter: "increasing ms \<Longrightarrow> increasing (filter P ms)"
  by (simp add: increasing_def sorted_wrt_filter)

lemma unconfirmed_sub: "x \<in> set (unconfirmed ops) \<Longrightarrow> x \<in> set (fed ops)"
  by (induction ops) auto

locale message_log =
  fixes app :: "'l \<Rightarrow> broadcast_feed_message list \<Rightarrow> 'l"
    and conf :: "'l \<Rightarrow> u64 \<Rightarrow> 'l"
    and contents :: "'l \<Rightarrow> broadcast_feed_message list"
    and empty :: 'l
  assumes contents_empty: "contents empty = []"
    and contents_app: "increasing (contents l @ ms) \<Longrightarrow> contents (app l ms) = contents l @ ms"
    and contents_conf: "contents (conf l c) = filter (\<lambda>m. c < sequence_number m) (contents l)"
begin

definition log_run :: "broadcaster_op list \<Rightarrow> 'l" where
  "log_run ops = foldl (\<lambda>l opn. case opn of Feed ms \<Rightarrow> app l ms | Confirm c \<Rightarrow> conf l c) empty ops"

lemma unconfirmed_Feed: "unconfirmed (ops @ [Feed ms]) = unconfirmed ops @ ms"
  by (induction ops) (auto simp: confirms_def)

lemma unconfirmed_Confirm:
  "unconfirmed (ops @ [Confirm c]) = filter (\<lambda>m. c < sequence_number m) (unconfirmed ops)"
proof (induction ops)
  case (Cons opn ops)
  have "confirms (ops @ [Confirm c]) = insert c (confirms ops)" by (auto simp: confirms_def)
  then show ?case using Cons by (auto intro: filter_cong)
qed simp

lemma unconfirmed_append_increasing:
  assumes "increasing (fed ops @ ms)"
  shows "increasing (unconfirmed ops @ ms)"
  using assms
proof (induction ops)
  case (Cons opn ops)
  then have "increasing (unconfirmed ops @ ms)" by (simp add: increasing_append)
  then show ?case
    using Cons.prems by (auto simp: increasing_append increasing_filter dest: unconfirmed_sub)
qed simp

lemma log_contents: "increasing (fed ops) \<Longrightarrow> contents (log_run ops) = unconfirmed ops"
proof (induction ops rule: rev_induct)
  case Nil
  show ?case by (simp add: log_run_def contents_empty)
next
  case (snoc opn ops)
  have inc: "increasing (fed ops @ op_messages opn)"
    using snoc.prems by simp
  then have IH: "contents (log_run ops) = unconfirmed ops"
    by (intro snoc.IH) (simp add: increasing_append)
  show ?case
  proof (cases opn)
    case (Feed ms)
    have "contents (app (log_run ops) ms) = unconfirmed ops @ ms"
      using contents_app [of "log_run ops" ms] unconfirmed_append_increasing [OF inc] Feed IH by simp
    then show ?thesis using Feed by (simp add: log_run_def unconfirmed_Feed)
  next
    case (Confirm c)
    have "contents (conf (log_run ops) c) = filter (\<lambda>m. c < sequence_number m) (unconfirmed ops)"
      using contents_conf IH by simp
    then show ?thesis using Confirm by (simp add: log_run_def unconfirmed_Confirm)
  qed
qed

end

lemma backlog_append_fresh:
  "increasing (msgs @ ms) \<Longrightarrow> backlog_append_messages msgs ms = msgs @ ms"
proof (induction ms arbitrary: msgs)
  case (Cons m ms)
  have "msgs \<noteq> [] \<Longrightarrow> sequence_number (last msgs) < sequence_number m"
    using Cons.prems last_in_set [of msgs] by (auto simp: increasing_append)
  moreover have "backlog_append_messages (msgs @ [m]) ms = (msgs @ [m]) @ ms"
    using Cons.prems by (intro Cons.IH) simp
  ultimately show ?case by (auto simp: not_le)
qed simp

lemma bm_flat_feed [simp]: "bm_flat (feed_messages_bm ms) = ms"
  by (simp add: bm_flat_def feed_messages_bm_def filter_map comp_def)

lemma bm_flat_confirm [simp]: "bm_flat (confirm_bm c) = []"
  by (simp add: bm_flat_def confirm_bm_def)

interpretation server_log: message_log
  broadcast_feed_messages broadcaster_confirm sh_backlog "ws_shared (ws_server_new cfg chain)"
proof unfold_locales
  show "sh_backlog (ws_shared (ws_server_new cfg chain)) = []" by (simp add: ws_server_new_def)
next
  fix sh :: shared_state and ms
  assume "increasing (sh_backlog sh @ ms)"
  then show "sh_backlog (broadcast_feed_messages sh ms) = sh_backlog sh @ ms"
    by (simp add: broadcast_feed_messages_def broadcast_def backlog_append_def backlog_append_fresh
        feed_messages_bm_def [THEN arg_cong, of bm_confirmed])
next
  fix sh :: shared_state and c
  show "sh_backlog (broadcaster_confirm sh c) = filter (\<lambda>m. c < sequence_number m) (sh_backlog sh)"
    by (simp add: broadcaster_confirm_def broadcast_def backlog_append_def backlog_confirm_def
        confirm_bm_def [THEN arg_cong, of bm_confirmed])
qed

lemma run_ops_log: "run_ops (ws_shared (ws_server_new cfg chain)) ops = server_log.log_run cfg chain ops"
  by (simp add: run_ops_def server_log.log_run_def)

lemma run_ops_backlog:
  "increasing (fed ops) \<Longrightarrow> sh_backlog (run_ops (ws_shared (ws_server_new cfg chain)) ops) = unconfirmed ops"
  by (simp add: run_ops_log server_log.log_contents)

lemma broadcast_sent [simp]: "sh_sent (broadcast sh bm) = sh_sent sh @ [bm]"
  by (simp add: broadcast_def Let_def split: option.split)

lemma run_ops_sent: "sh_sent (run_ops sh ops) = sh_sent sh @ map op_bm ops"
  by (induction ops arbitrary: sh)
     (auto simp: run_ops_def broadcast_feed_messages_def broadcaster_confirm_def split: broadcaster_op.split)

subsection \<open>The backlog is sorted whatever is broadcast\<close>

lemma backlog_append_increasing: "increasing msgs \<Longrightarrow> increasing (backlog_append_messages msgs ms)"
proof (induction ms arbitrary: msgs)
  case (Cons m ms)
  have "increasing (msgs @ [m])" if "\<not> (msgs \<noteq> [] \<and> sequence_number m \<le> sequence_number (last msgs))"
  proof (cases msgs rule: rev_cases)
    case (snoc xs x)
    then show ?thesis using Cons.prems that by (auto simp: increasing_append not_le) (auto simp: increasing_def)
  qed (simp add: increasing_def)
  then show ?case using Cons by auto
qed simp

lemma broadcast_increasing:
  assumes "increasing (sh_backlog sh)"
  shows "increasing (sh_backlog (broadcast sh bm))"
proof -
  have "increasing (backlog_confirm (sh_backlog sh) c)" for c
    using assms by (simp add: backlog_confirm_def increasing_filter)
  then show ?thesis
    using assms by (simp add: broadcast_def Let_def backlog_append_def backlog_append_increasing split: option.split)
qed

subsection \<open>What a client is sent\<close>

fun recvs :: "client_event list \<Rightarrow> broadcast_message list" where
  "recvs [] = []"
| "recvs (Recv bm w # evs) = bm # recvs evs"
| "recvs (ev # evs) = recvs evs"

text \<open>The frames a client with a given last sent number gets out of what it receives.\<close>

fun deliver :: "u64 option \<Rightarrow> broadcast_message list \<Rightarrow> broadcast_message list" where
  "deliver l [] = []"
| "deliver l (bm # bms) = (if should_send bm l then bm # deliver (update_last_sent bm l) bms else deliver l bms)"

lemma client_loop_frames:
  "client_loop cfg ser c evs = (c', Running) \<Longrightarrow>
     cl_frames c' = cl_frames c @ deliver (last_sent_seq c) (recvs evs)"
proof (induction evs arbitrary: c)
  case (Cons ev evs)
  then show ?case
    by (cases ev) (auto simp: client_step_def Let_def split: if_splits sum.splits write_outcome.splits)
qed simp

lemma update_last_sent_feed:
  assumes "increasing ms" and "ms \<noteq> []" and "\<And>n m. l = Some n \<Longrightarrow> m \<in> set ms \<Longrightarrow> n < sequence_number m"
  shows "update_last_sent (feed_messages_bm ms) l = Some (sequence_number (last ms))"
  using assms
proof (induction ms arbitrary: l)
  case (Cons m ms)
  let ?l = "Some (sequence_number m)"
  have step: "update_last_sent (feed_messages_bm (m # ms)) l = update_last_sent (feed_messages_bm ms) ?l"
    using Cons.prems(3) by (cases l) (auto simp: update_last_sent_def less_imp_le)
  show ?case
  proof (cases "ms = []")
    case True
    then show ?thesis using step by (simp add: update_last_sent_def)
  next
    case False
    then show ?thesis
      using step Cons.IH [of ?l] Cons.prems(1) by (auto simp: increasing_def)
  qed
qed simp

lemma update_last_sent_confirm [simp]: "update_last_sent (confirm_bm c) l = l"
  by (simp add: update_last_sent_def)

lemma should_send_confirm [simp]: "should_send (confirm_bm c) l"
  by (simp add: should_send_def confirm_bm_def)

lemma should_send_feed:
  "should_send (feed_messages_bm ms) l \<longleftrightarrow>
     (case l of None \<Rightarrow> ms \<noteq> [] | Some n \<Rightarrow> \<exists>m \<in> set ms. n < sequence_number m)"
  by (auto simp: should_send_def feed_messages_bm_def list_ex_iff split: option.split)

text \<open>Messages past the last sent number are all delivered; messages up to it are not repeated.\<close>

lemma deliver_fresh:
  assumes "increasing (fed ops)" and "\<And>n m. l = Some n \<Longrightarrow> m \<in> set (fed ops) \<Longrightarrow> n < sequence_number m"
  shows "concat (map bm_flat (deliver l (map op_bm ops))) = fed ops"
  using assms
proof (induction ops arbitrary: l)
  case (Cons opn ops)
  show ?case
  proof (cases opn)
    case (Confirm c)
    then show ?thesis using Cons by simp
  next
    case (Feed ms)
    show ?thesis
    proof (cases "ms = []")
      case True
      then have "\<not> should_send (feed_messages_bm ms) l" by (simp add: should_send_feed split: option.split)
      moreover have "concat (map bm_flat (deliver l (map op_bm ops))) = fed ops"
        using Cons.prems Feed True by (intro Cons.IH) auto
      ultimately show ?thesis using Feed True by simp
    next
      case False
      have "should_send (feed_messages_bm ms) l"
        using False Cons.prems(2) Feed by (cases l; cases ms) (auto simp: should_send_feed)
      moreover have "update_last_sent (feed_messages_bm ms) l = Some (sequence_number (last ms))"
        using Cons.prems Feed False by (intro update_last_sent_feed) (auto simp: increasing_append)
      moreover have "concat (map bm_flat (deliver (Some (sequence_number (last ms))) (map op_bm ops))) = fed ops"
        using Cons.prems Feed False last_in_set [of ms] by (intro Cons.IH) (auto simp: increasing_append)
      ultimately show ?thesis using Feed by simp
    qed
  qed
qed simp

lemma deliver_stale:
  assumes "\<forall>m \<in> set (fed ops). sequence_number m \<le> n"
  shows "concat (map bm_flat (deliver (Some n) (map op_bm ops @ bms))) = concat (map bm_flat (deliver (Some n) bms))"
  using assms
proof (induction ops)
  case (Cons opn ops)
  have "\<not> should_send (feed_messages_bm ms) (Some n)" if "opn = Feed ms" for ms
    using Cons.prems that by (auto simp: should_send_feed not_less)
  then show ?case using Cons by (cases opn) auto
qed simp

lemma unconfirmed_last:
  assumes "increasing (fed ops)" and "unconfirmed ops \<noteq> []" and "m \<in> set (fed ops)"
  shows "sequence_number m \<le> sequence_number (last (unconfirmed ops))"
  using assms
proof (induction ops arbitrary: m rule: rev_induct)
  case (snoc opn ops)
  have inc: "increasing (fed ops)" using snoc.prems(1) by (simp add: increasing_append)
  show ?case
  proof (cases opn)
    case (Feed ms)
    show ?thesis
    proof (cases "ms = []")
      case True
      then show ?thesis using snoc Feed inc by (simp add: server_log.unconfirmed_Feed)
    next
      case False
      have "sequence_number x \<le> sequence_number (last ms)" if "x \<in> set ms" for x
        using that False snoc.prems(1) Feed
        by (cases ms rule: rev_cases) (auto simp: increasing_append less_imp_le)
      moreover have "sequence_number x \<le> sequence_number (last ms)" if "x \<in> set (fed ops)" for x
        using that False snoc.prems(1) Feed last_in_set [of ms] by (auto simp: increasing_append less_imp_le)
      ultimately show ?thesis using snoc.prems(3) Feed False by (auto simp: server_log.unconfirmed_Feed)
    qed
  next
    case (Confirm c)
    have un: "unconfirmed (ops @ [opn]) = filter (\<lambda>m. c < sequence_number m) (unconfirmed ops)"
      using Confirm by (simp add: server_log.unconfirmed_Confirm)
    have ne: "unconfirmed ops \<noteq> []" using un snoc.prems(2) by auto
    let ?u = "last (unconfirmed ops)"
    have up: "sequence_number x \<le> sequence_number ?u" if "x \<in> set (fed ops)" for x
      using snoc.IH [OF inc ne that] .
    obtain x where x: "x \<in> set (unconfirmed ops)" "c < sequence_number x"
      using un snoc.prems(2) by (auto simp: filter_empty_conv)
    then have "c < sequence_number ?u" using up [OF unconfirmed_sub [OF x(1)]] by simp
    then have "last (unconfirmed (ops @ [opn])) = ?u"
      using un ne by (metis (no_types, lifting) append_butlast_last_id filter.simps filter_append last_snoc)
    then show ?thesis using up snoc.prems(3) Confirm by simp
  qed
qed simp

lemma client_frames_cases:
  assumes "increasing (fed (ops @ before @ after))"
    and "run_ws_client cfg ser (unconfirmed (ops @ before)) seq_num start WriteOk evs count = (c, Running, count')"
    and "recvs evs = map op_bm (before @ after)"
  shows "concat (map bm_flat (cl_frames c)) =
    (let replay = get_since (unconfirmed (ops @ before)) seq_num
     in if replay = [] then fed (before @ after) else replay @ fed after)"
proof -
  define replay where "replay = get_since (unconfirmed (ops @ before)) seq_num"
  define n where "n = sequence_number (last replay)"
  let ?c = "\<lparr>last_sent_seq = None, last_heard = start, cl_frames = []\<rparr>"
  have inc: "increasing (fed (ops @ before))" "increasing (fed after)" "increasing (fed (before @ after))"
    using assms(1) by (auto simp: increasing_append)
  show ?thesis
  proof (cases "replay = []")
    case True
    then have "client_loop cfg ser ?c evs = (c, Running)"
      using assms(2) by (simp add: run_ws_client_def replay_def split: prod.splits client_outcome.splits)
    then have "cl_frames c = deliver None (map op_bm (before @ after))"
      using client_loop_frames assms(3) by fastforce
    then show ?thesis
      using True deliver_fresh [OF inc(3), of None] by (simp add: replay_def)
  next
    case False
    then have "client_loop cfg ser (?c\<lparr>last_sent_seq := Some n, cl_frames := [feed_messages_bm replay]\<rparr>) evs =
        (c, Running)"
      using assms(2)
      by (simp add: run_ws_client_def Let_def replay_def n_def split: sum.splits prod.splits client_outcome.splits)
    then have f: "cl_frames c = feed_messages_bm replay # deliver (Some n) (map op_bm before @ map op_bm after)"
      using client_loop_frames assms(3) by fastforce
    have ne: "unconfirmed (ops @ before) \<noteq> []" using False by (auto simp: replay_def get_since_def)
    have "last replay = last (unconfirmed (ops @ before))"
    proof -
      obtain x where x: "x \<in> set (unconfirmed (ops @ before))" "seq_num \<le> sequence_number x"
        using False by (auto simp: replay_def get_since_def filter_empty_conv)
      then have "seq_num \<le> sequence_number (last (unconfirmed (ops @ before)))"
        using unconfirmed_last [OF inc(1) ne unconfirmed_sub [OF x(1)]] by simp
      then show ?thesis
        using ne unfolding replay_def get_since_def
        by (metis (no_types, lifting) append_butlast_last_id filter.simps filter_append last_snoc)
    qed
    then have le: "sequence_number m \<le> n" if "m \<in> set (fed (ops @ before))" for m
      using unconfirmed_last [OF inc(1) ne that] by (simp add: n_def)
    have "last replay \<in> set (fed (ops @ before))"
      using False last_in_set [of replay] by (auto simp: replay_def get_since_def dest!: unconfirmed_sub)
    then have "n < sequence_number m" if "m \<in> set (fed after)" for m
      using assms(1) that by (auto simp: n_def increasing_append)
    then have "concat (map bm_flat (deliver (Some n) (map op_bm after))) = fed after"
      by (intro deliver_fresh [OF inc(2)]) auto
    moreover have "concat (map bm_flat (deliver (Some n) (map op_bm before @ map op_bm after))) =
        concat (map bm_flat (deliver (Some n) (map op_bm after)))"
      by (intro deliver_stale) (use le in auto)
    ultimately show ?thesis using f False by (simp add: replay_def Let_def)
  qed
qed

lemma client_receives_once:
  assumes "increasing (fed (ops @ before @ after))"
    and "run_ws_client cfg ser (unconfirmed (ops @ before)) seq_num start WriteOk evs count = (c, Running, count')"
    and "recvs evs = map op_bm (before @ after)"
  shows "increasing (concat (map bm_flat (cl_frames c)))"
    and "{m \<in> set (unconfirmed (ops @ before)) \<union> set (fed after). seq_num \<le> sequence_number m}
           \<subseteq> set (concat (map bm_flat (cl_frames c)))"
    and "set (concat (map bm_flat (cl_frames c))) \<subseteq> set (fed (ops @ before @ after))"
proof -
  let ?replay = "get_since (unconfirmed (ops @ before)) seq_num"
  have R: "concat (map bm_flat (cl_frames c)) = (if ?replay = [] then fed (before @ after) else ?replay @ fed after)"
    using client_frames_cases [OF assms] by (simp add: Let_def)
  have sub: "m \<in> set (fed (ops @ before))" if "m \<in> set ?replay" for m
    using that by (auto simp: get_since_def dest: unconfirmed_sub simp del: fed_simps)
  have "increasing (unconfirmed (ops @ before) @ [])"
    using assms(1) by (intro server_log.unconfirmed_append_increasing) (simp add: increasing_append)
  then have "increasing ?replay" by (simp add: get_since_def increasing_filter)
  moreover have "increasing (fed (before @ after))" "increasing (fed after)"
    using assms(1) by (auto simp: increasing_append)
  moreover have "sequence_number x < sequence_number y" if "x \<in> set ?replay" "y \<in> set (fed after)" for x y
    using assms(1) sub [OF that(1)] that(2) by (auto simp: increasing_append)
  ultimately show "increasing (concat (map bm_flat (cl_frames c)))"
    unfolding R by (auto simp: increasing_append [of ?replay])
  show "{m \<in> set (unconfirmed (ops @ before)) \<union> set (fed after). seq_num \<le> sequence_number m}
      \<subseteq> set (concat (map bm_flat (cl_frames c)))"
    unfolding R by (auto simp: get_since_def filter_empty_conv)
  show "set (concat (map bm_flat (cl_frames c))) \<subseteq> set (fed (ops @ before @ after))"
    unfolding R using sub by auto
qed

end
