(* ===== verification/Feed_Client.thy ===== *)
theory Feed_Client
  imports Feed_Server Streamer_Loop
begin

text \<open>
  The upstream feed client (\<open>src/rollups/nitro/feed/client.rs\<close>): connecting with its preflight check, the read loop
  with its reconnection path, and the processing of a frame. URL parsing, the preflight request and the WebSocket
  connection are parameters over a world; a frame read with its deadline is an event. Durations are in milliseconds.
\<close>

subsection \<open>State and errors\<close>

datatype client_error =
  IncorrectFeedVersion u64 string
| IncorrectChainId u64 string
| MissingChainId
| MissingFeedServerVersion
| InvalidConfig string
| Connection string
| WebSocket string
| InvalidSignature u64 string
| ChannelSendError broadcast_feed_message
| InvalidMessage string

fun is_fatal :: "client_error \<Rightarrow> bool" where
  "is_fatal (IncorrectFeedVersion _ _) = True"
| "is_fatal (IncorrectChainId _ _) = True"
| "is_fatal MissingChainId = True"
| "is_fatal MissingFeedServerVersion = True"
| "is_fatal (InvalidConfig _) = True"
| "is_fatal _ = False"

type_synonym feed_message_verifier = "u64 \<Rightarrow> address list \<Rightarrow> broadcast_feed_message \<Rightarrow> r_error + unit"

text \<open>\<open>fc_submitted\<close> is what was sent on the submission channel.\<close>

record broadcaster_client =
  fc_config :: broadcaster_client_config
  fc_websocket_url :: string
  fc_chain_id :: u64
  fc_next_seq_num :: u64
  fc_first_reconnect_attempt :: bool
  fc_submitted :: "broadcast_feed_message list"
  fc_verify_signature :: feed_message_verifier

definition client_new_with_verifier ::
  "broadcaster_client_config \<Rightarrow> string \<Rightarrow> u64 \<Rightarrow> u64 \<Rightarrow> feed_message_verifier \<Rightarrow> broadcaster_client" where
  "client_new_with_verifier cfg websocket_url chain count verify_signature =
     \<lparr>fc_config = cfg, fc_websocket_url = websocket_url, fc_chain_id = chain, fc_next_seq_num = count,
      fc_first_reconnect_attempt = True, fc_submitted = [], fc_verify_signature = verify_signature\<rparr>"

subsection \<open>Connecting\<close>

text \<open>
  A parsed URL is its scheme and the rest. \<open>fn_set_scheme\<close> may refuse a scheme; \<open>fn_build\<close> builds the HTTP client;
  \<open>fn_debug\<close> is the debug text of a header value and \<open>fn_status_text\<close> the text of a status.
\<close>

datatype ws_failure = WsTimedOut | WsFailed string

record ('w, 'ws) feed_net =
  fn_parse :: "string \<Rightarrow> r_error + string \<times> string"
  fn_set_scheme :: "string \<Rightarrow> string \<times> string \<Rightarrow> (string \<times> string) option"
  fn_build :: "nat \<Rightarrow> r_error + unit"
  fn_random_key :: "('w, string) state"
  fn_get :: "string \<times> string \<Rightarrow> headers \<Rightarrow> ('w, r_error, nat \<times> headers) io"
  fn_connect :: "string \<times> string \<Rightarrow> headers \<Rightarrow> bool \<Rightarrow> nat \<Rightarrow> ('w, ws_failure, 'ws) io"
  fn_debug :: "string \<Rightarrow> string"
  fn_status_text :: "nat \<Rightarrow> string"
  fn_show_url :: "string \<times> string \<Rightarrow> string"
  fn_show_timeout :: "nat \<Rightarrow> string"

definition feed_request_headers :: "u64 \<Rightarrow> headers" where
  "feed_request_headers next_seq_num =
     [(HEADER_FEED_CLIENT_VERSION, show_nat (unat FEED_CLIENT_VERSION)),
      (HEADER_REQUESTED_SEQ_NUM, show_nat (unat next_seq_num))]"

text \<open>One required numeric header: missing, unreadable, not a number, or not the expected one.\<close>

definition check_header ::
  "(string \<Rightarrow> string) \<Rightarrow> headers \<Rightarrow> string \<Rightarrow> client_error \<Rightarrow> (u64 \<Rightarrow> string \<Rightarrow> client_error) \<Rightarrow> u64 \<Rightarrow> client_error + unit" where
  "check_header debug hs name missing incorrect expected =
     and_then (ok_or missing (map_of hs name)) (\<lambda>value.
     and_then (ok_or (incorrect expected (debug value)) (to_str value)) (\<lambda>s.
     and_then (ok_or (incorrect expected s) (parse_u64 s)) (\<lambda>n.
     if n \<noteq> expected then Inl (incorrect expected (show_nat (unat n))) else Inr ())))"

definition check_preflight_response ::
  "(string \<Rightarrow> string) \<Rightarrow> (nat \<Rightarrow> string) \<Rightarrow> broadcaster_client \<Rightarrow> nat \<times> headers \<Rightarrow> client_error + unit" where
  "check_preflight_response debug status_text c resp =
     (if fst resp \<noteq> 101
      then Inl (Connection (''preflight websocket request returned status '' @ status_text (fst resp)))
      else
        and_then (if require_feed_server_version (fc_config c)
                  then check_header debug (snd resp) HEADER_FEED_SERVER_VERSION MissingFeedServerVersion
                         IncorrectFeedVersion FEED_SERVER_VERSION
                  else Inr ()) (\<lambda>_.
        if require_chain_id (fc_config c)
        then check_header debug (snd resp) HEADER_CHAIN_ID MissingChainId IncorrectChainId (fc_chain_id c)
        else Inr ()))"

definition validate_preflight_headers ::
  "('w, 'ws) feed_net \<Rightarrow> broadcaster_client \<Rightarrow> string \<times> string \<Rightarrow> u64 \<Rightarrow> ('w, client_error, unit) io" where
  "validate_preflight_headers N c url next_seq_num =
     (let target_scheme = (if fst url = ''ws'' then Some ''http'' else if fst url = ''wss'' then Some ''https'' else None)
      in case target_scheme of
           None \<Rightarrow> ret (Inl (Connection (''unsupported websocket scheme for preflight: '' @ fst url)))
         | Some scheme \<Rightarrow>
             (case fn_set_scheme N scheme url of
                None \<Rightarrow> ret (Inl (Connection (''failed to convert websocket url to preflight url: '' @ fn_show_url N url)))
              | Some preflight_url \<Rightarrow>
                  io_then (ret (map_err (\<lambda>e. Connection (''failed to build preflight http client: '' @ e))
                     (fn_build N (client_io_timeout (fc_config c))))) (\<lambda>_.
                  State_Monad.bind (fn_random_key N) (\<lambda>sec_websocket_key.
                  io_then (io_map_err (\<lambda>e. Connection (''preflight websocket request failed for '' @
                        fc_websocket_url c @ '': '' @ e))
                     (fn_get N preflight_url
                       ([(''Connection'', ''Upgrade''), (''Upgrade'', ''websocket''),
                         (''Sec-Websocket-Version'', ''13''), (''Sec-Websocket-Key'', sec_websocket_key)] @
                        feed_request_headers next_seq_num))) (\<lambda>resp.
                  ret (check_preflight_response (fn_debug N) (fn_status_text N) c resp))))))"

definition connect ::
  "('w, 'ws) feed_net \<Rightarrow> broadcaster_client \<Rightarrow> u64 \<Rightarrow> 'w \<Rightarrow> (client_error + 'ws) \<times> broadcaster_client \<times> 'w" where
  "connect N c next_seq_num w =
     (let attempt =
        (if fc_websocket_url c = [] then ret (Inl (InvalidConfig ''empty websocket url''))
         else
           io_then (ret (map_err (\<lambda>e. InvalidConfig (''invalid websocket url: '' @ e))
              (fn_parse N (fc_websocket_url c)))) (\<lambda>url.
           io_then (validate_preflight_headers N c url next_seq_num) (\<lambda>_.
           io_map_err (\<lambda>e. case e of
               WsTimedOut \<Rightarrow> Connection (''connection to '' @ fc_websocket_url c @ '' timed out after '' @
                 fn_show_timeout N (client_io_timeout (fc_config c)))
             | WsFailed e \<Rightarrow> Connection e)
             (fn_connect N url (feed_request_headers next_seq_num) (client_enable_compression (fc_config c))
               (client_io_timeout (fc_config c))))))
      in case run_state attempt w of
           (Inl e, w') \<Rightarrow> (Inl e, c, w')
         | (Inr ws, w') \<Rightarrow> (Inr ws, c\<lparr>fc_first_reconnect_attempt := True\<rparr>, w'))"

text \<open>
  Reconnecting retries until it connects. The result has the waits before the attempts, in order; \<open>None\<close> means that
  it never connects.
\<close>

partial_function (option) retry_connect ::
  "('w, 'ws) feed_net \<Rightarrow> broadcaster_client \<Rightarrow> nat \<Rightarrow> 'w \<Rightarrow> ('ws \<times> broadcaster_client \<times> nat list \<times> 'w) option" where
  "retry_connect N c wait w =
     (case connect N c (fc_next_seq_num c) w of
        (Inr ws, c', w') \<Rightarrow> Some (ws, c', [wait], w')
      | (Inl e, c', w') \<Rightarrow>
          let wait' = (if wait < retry_connect_max_backoff (fc_config c)
                       then wait + retry_connect_backoff_step (fc_config c) else wait)
          in Option.bind (retry_connect N c' wait' w') (\<lambda>(ws, c'', waits, w''). Some (ws, c'', wait # waits, w'')))"

subsection \<open>Frames\<close>

text \<open>
  \<open>from_slice\<close> is the JSON parser; \<open>panicked\<close> is set when the verification task did not finish; \<open>accepts\<close> is how many
  messages the submission channel takes before it is closed.
\<close>

definition process_message ::
  "(bytes \<Rightarrow> string + broadcast_message) \<Rightarrow> string option \<Rightarrow> nat \<Rightarrow> broadcaster_client \<Rightarrow> bytes
     \<Rightarrow> (client_error + unit) \<times> broadcaster_client" where
  "process_message from_slice panicked accepts c payload =
     (case from_slice payload of
        Inl e \<Rightarrow> (Inl (InvalidMessage (''failed to unmarshal broadcast message: '' @ e)), c)
      | Inr msg \<Rightarrow>
          if bm_version msg \<noteq> MESSAGE_VERSION
          then (Inl (InvalidMessage (''unsupported message version: '' @
                 (if bm_version msg < 0 then ''-'' else []) @ show_nat (nat \<bar>bm_version msg\<bar>))), c)
          else case panicked of
            Some e \<Rightarrow> (Inl (InvalidMessage (''signature verification task panicked: '' @ e)), c)
          | None \<Rightarrow>
              let verified = filter (\<lambda>m. is_ok (fc_verify_signature c (fc_chain_id c)
                    (trusted_sequencer_addresses (fc_config c)) m)) (bm_flat msg);
                  next_seq = (if verified = [] then None else Some (sequence_number (last verified) + 1));
                  c' = c\<lparr>fc_submitted := fc_submitted c @ take accepts verified\<rparr>
              in if accepts < length verified then (Inl (ChannelSendError (verified ! accepts)), c')
                 else (Inr (), case next_seq of Some n \<Rightarrow> c'\<lparr>fc_next_seq_num := n\<rparr> | None \<Rightarrow> c'))"

datatype frame_event =
  ReadTimeout
| StreamEnd
| DataFrame bytes "string option" nat
| CloseOpcode
| OtherOpcode

text \<open>
  One round of the read loop: the client, its backoff and the world, with the backoff slept and the retry waits. The
  stream itself is not part of the state; the events are what the successive streams give.
\<close>

definition read_step ::
  "('w, 'ws) feed_net \<Rightarrow> (bytes \<Rightarrow> string + broadcast_message) \<Rightarrow> broadcaster_client \<times> nat \<times> 'w \<Rightarrow> frame_event
     \<Rightarrow> ((broadcaster_client \<times> nat \<times> 'w) \<times> nat list \<times> nat list) option" where
  "read_step N from_slice st ev =
     (case st of (c, delay, w) \<Rightarrow>
        (case ev of
           DataFrame payload panicked accepts \<Rightarrow>
             Some ((snd (process_message from_slice panicked accepts c payload),
                    reconnect_initial_backoff (fc_config c), w), [], [])
         | OtherOpcode \<Rightarrow> Some (st, [], [])
         | _ \<Rightarrow>
             let (slept, delay') =
                   (if fc_first_reconnect_attempt c then ([], delay)
                    else ([delay], exponential_backoff delay (reconnect_maximum_backoff (fc_config c))));
                 c' = c\<lparr>fc_first_reconnect_attempt := False\<rparr>
             in map_option (\<lambda>(ws, c'', waits, w'). ((c'', delay', w'), slept, waits)) (retry_connect N c' 0 w)))"

fun run_read_loop ::
  "('w, 'ws) feed_net \<Rightarrow> (bytes \<Rightarrow> string + broadcast_message) \<Rightarrow> broadcaster_client \<times> nat \<times> 'w \<Rightarrow> frame_event list
     \<Rightarrow> ((broadcaster_client \<times> nat \<times> 'w) \<times> nat list \<times> nat list) option" where
  "run_read_loop N from_slice st [] = Some (st, [], [])"
| "run_read_loop N from_slice st (ev # evs) =
     Option.bind (read_step N from_slice st ev) (\<lambda>(st', slept, waits).
     map_option (\<lambda>(st'', slept', waits'). (st'', slept @ slept', waits @ waits'))
       (run_read_loop N from_slice st' evs))"

text \<open>
  \<open>start\<close> up to the read loop, which it enters at the first connection: a fatal error ends it, and every other one
  is retried with a growing backoff. The result has the backoffs slept.
\<close>

partial_function (option) start_connect ::
  "('w, 'ws) feed_net \<Rightarrow> broadcaster_client \<Rightarrow> nat \<Rightarrow> 'w \<Rightarrow> ((client_error + broadcaster_client) \<times> nat list \<times> 'w) option" where
  "start_connect N c delay w =
     (case connect N c (fc_next_seq_num c) w of
        (Inr ws, c', w') \<Rightarrow> Some (Inr c', [], w')
      | (Inl e, c', w') \<Rightarrow>
          if is_fatal e then Some (Inl e, [], w')
          else Option.bind (start_connect N c'
                 (exponential_backoff delay (reconnect_maximum_backoff (fc_config c))) w')
               (\<lambda>(r, slept, w''). Some (r, delay # slept, w'')))"

definition client_start ::
  "('w, 'ws) feed_net \<Rightarrow> (bytes \<Rightarrow> string + broadcast_message) \<Rightarrow> broadcaster_client \<Rightarrow> 'w \<Rightarrow> frame_event list
     \<Rightarrow> (client_error + (broadcaster_client \<times> nat \<times> 'w) \<times> nat list \<times> nat list) option" where
  "client_start N from_slice c w evs =
     Option.bind (start_connect N c (reconnect_initial_backoff (fc_config c)) w) (\<lambda>(r, slept, w').
     case r of
       Inl e \<Rightarrow> Some (Inl e)
     | Inr c' \<Rightarrow> map_option Inr (run_read_loop N from_slice (c', reconnect_initial_backoff (fc_config c'), w') evs))"

subsection \<open>Only verified messages are submitted\<close>

definition verified_by :: "broadcaster_client \<Rightarrow> broadcast_feed_message \<Rightarrow> bool" where
  "verified_by c m \<longleftrightarrow>
     is_ok (fc_verify_signature c (fc_chain_id c) (trusted_sequencer_addresses (fc_config c)) m)"

definition same_setup :: "broadcaster_client \<Rightarrow> broadcaster_client \<Rightarrow> bool" where
  "same_setup c c' \<longleftrightarrow>
     fc_config c' = fc_config c \<and> fc_chain_id c' = fc_chain_id c \<and> fc_verify_signature c' = fc_verify_signature c \<and>
     fc_websocket_url c' = fc_websocket_url c"

lemma same_setup_trans: "same_setup a b \<Longrightarrow> same_setup b c \<Longrightarrow> same_setup a c"
  by (simp add: same_setup_def)

lemma same_setup_verified: "same_setup c c' \<Longrightarrow> verified_by c' = verified_by c"
  by (rule ext) (simp add: same_setup_def verified_by_def)

definition process_ok ::
  "broadcaster_client \<Rightarrow> broadcaster_client \<Rightarrow> bool \<Rightarrow> broadcast_feed_message list \<Rightarrow> bool" where
  "process_ok c c' ok ms \<longleftrightarrow>
     fc_submitted c' = fc_submitted c @ ms \<and> (\<forall>m \<in> set ms. verified_by c m) \<and> same_setup c c' \<and>
     fc_first_reconnect_attempt c' = fc_first_reconnect_attempt c \<and>
     fc_next_seq_num c' = (if ok \<and> ms \<noteq> [] then sequence_number (last ms) + 1 else fc_next_seq_num c)"

lemma process_ok_refl: "process_ok c c ok []"
  by (simp add: process_ok_def same_setup_def)

lemma process_verified:
  assumes "from_slice payload = Inr msg" and "bm_version msg = MESSAGE_VERSION"
  shows "process_message from_slice None accepts c payload =
    (let v = filter (verified_by c) (bm_flat msg); c' = c\<lparr>fc_submitted := fc_submitted c @ take accepts v\<rparr>
     in if accepts < length v then (Inl (ChannelSendError (v ! accepts)), c')
        else (Inr (), if v = [] then c' else c'\<lparr>fc_next_seq_num := sequence_number (last v) + 1\<rparr>))"
proof -
  have v: "(\<lambda>m. is_ok (fc_verify_signature c (fc_chain_id c) (trusted_sequencer_addresses (fc_config c)) m)) = verified_by c"
    by (rule ext) (simp add: verified_by_def)
  show ?thesis unfolding process_message_def v using assms by (simp add: Let_def)
qed

lemma process_message_effect:
  "\<exists>ms. process_ok c (snd (process_message from_slice panicked accepts c payload))
     (is_ok (fst (process_message from_slice panicked accepts c payload))) ms"
proof (cases "from_slice payload")
  case (Inl e)
  then have "snd (process_message from_slice panicked accepts c payload) = c" by (simp add: process_message_def)
  then show ?thesis using process_ok_refl by metis
next
  case (Inr msg)
  show ?thesis
  proof (cases "bm_version msg = MESSAGE_VERSION \<and> panicked = None")
    case False
    then have "snd (process_message from_slice panicked accepts c payload) = c"
      using Inr by (auto simp: process_message_def)
    then show ?thesis using process_ok_refl by metis
  next
    case True
    define v where "v = filter (verified_by c) (bm_flat msg)"
    have ver: "\<forall>m \<in> set (take accepts v). verified_by c m" by (auto simp: v_def dest: in_set_takeD)
    show ?thesis
      using True ver process_verified [of from_slice payload msg accepts c] Inr
      by (intro exI [of _ "take accepts v"]) (simp add: process_ok_def same_setup_def Let_def flip: v_def)
  qed
qed

lemma connect_effect:
  assumes "connect N c n w = (r, c', w')"
  shows "same_setup c c'" and "fc_submitted c' = fc_submitted c" and "fc_next_seq_num c' = fc_next_seq_num c"
    and "is_ok r \<Longrightarrow> fc_first_reconnect_attempt c'"
    and "\<not> is_ok r \<Longrightarrow> c' = c"
  using assms by (auto simp: connect_def same_setup_def Let_def split: prod.splits sum.splits)

definition retry_ok :: "broadcaster_client \<Rightarrow> nat \<Rightarrow> broadcaster_client \<Rightarrow> nat list \<Rightarrow> bool" where
  "retry_ok c wait c' waits \<longleftrightarrow>
     same_setup c c' \<and> fc_submitted c' = fc_submitted c \<and> fc_next_seq_num c' = fc_next_seq_num c \<and>
     fc_first_reconnect_attempt c' \<and>
     (\<forall>x \<in> set waits. x \<le> max wait (retry_connect_max_backoff (fc_config c) + retry_connect_backoff_step (fc_config c)))"

lemma retry_connect_ok:
  assumes "retry_connect N c wait w = Some y"
  shows "retry_ok c wait (fst (snd y)) (fst (snd (snd y)))"
proof (rule retry_connect.raw_induct
    [where P = "\<lambda>N c wait w y. retry_ok c wait (fst (snd y)) (fst (snd (snd y)))", OF _ assms])
  fix f N c wait w y
  assume IH: "\<And>N c wait w y. f N c wait w = Some y \<Longrightarrow> retry_ok c wait (fst (snd y)) (fst (snd (snd y)))"
    and eq: "(case connect N c (fc_next_seq_num c) w of
        (Inr ws, c', w') \<Rightarrow> Some (ws, c', [wait], w')
      | (Inl e, c', w') \<Rightarrow>
          let wait' = (if wait < retry_connect_max_backoff (fc_config c)
                       then wait + retry_connect_backoff_step (fc_config c) else wait)
          in Option.bind (f N c' wait' w') (\<lambda>(ws, c'', waits, w''). Some (ws, c'', wait # waits, w''))) = Some y"
  obtain r c1 w1 where con: "connect N c (fc_next_seq_num c) w = (r, c1, w1)"
    by (metis prod_cases3)
  note eff = connect_effect [OF con]
  show "retry_ok c wait (fst (snd y)) (fst (snd (snd y)))"
  proof (cases r)
    case (Inr ws1)
    then show ?thesis using eq con eff by (auto simp: retry_ok_def)
  next
    case (Inl e)
    then have c1: "c1 = c" using eff(5) by simp
    let ?wait = "if wait < retry_connect_max_backoff (fc_config c)
      then wait + retry_connect_backoff_step (fc_config c) else wait"
    obtain ws c' waits1 w' where f: "f N c ?wait w1 = Some (ws, c', waits1, w')" and y: "y = (ws, c', wait # waits1, w')"
      using eq con Inl c1 by (auto simp: bind_eq_Some_conv Let_def)
    show ?thesis using IH [OF f] y by (auto simp: retry_ok_def split: if_splits)
  qed
qed

lemma retry_connect_effect:
  "retry_connect N c wait w = Some (ws, c', waits, w') \<Longrightarrow> retry_ok c wait c' waits"
  using retry_connect_ok by fastforce

lemma read_step_effect:
  assumes "read_step N from_slice (c, b, w) ev = Some ((c', b', w'), slept, waits)" and "fc_first_reconnect_attempt c"
  shows "fc_first_reconnect_attempt c'" and "slept = []" and "same_setup c c'"
    and "\<exists>ms. fc_submitted c' = fc_submitted c @ ms \<and> (\<forall>m \<in> set ms. verified_by c m)"
    and "\<forall>x \<in> set waits. x \<le> retry_connect_max_backoff (fc_config c) + retry_connect_backoff_step (fc_config c)"
proof -
  consider (data) payload p a where "ev = DataFrame payload p a" | (other) "ev = OtherOpcode"
    | (reconnect) "slept = []"
        "\<exists>ws. retry_connect N (c\<lparr>fc_first_reconnect_attempt := False\<rparr>) 0 w = Some (ws, c', waits, w')"
    using assms by (cases ev) (auto simp: read_step_def)
  then have "fc_first_reconnect_attempt c' \<and> slept = [] \<and> same_setup c c' \<and>
    (\<exists>ms. fc_submitted c' = fc_submitted c @ ms \<and> (\<forall>m \<in> set ms. verified_by c m)) \<and>
    (\<forall>x \<in> set waits. x \<le> retry_connect_max_backoff (fc_config c) + retry_connect_backoff_step (fc_config c))"
  proof cases
    case data
    then have "c' = snd (process_message from_slice p a c payload)" "slept = []" "waits = []"
      using assms(1) by (auto simp: read_step_def)
    then show ?thesis
      using process_message_effect [of c from_slice p a payload] assms(2) by (auto simp: process_ok_def)
  next
    case other
    then show ?thesis using assms by (auto simp: read_step_def same_setup_def)
  next
    case reconnect
    then obtain ws where "retry_connect N (c\<lparr>fc_first_reconnect_attempt := False\<rparr>) 0 w = Some (ws, c', waits, w')"
      by blast
    from retry_connect_effect [OF this] show ?thesis
      using reconnect(1) by (auto simp: same_setup_def retry_ok_def)
  qed
  then show "fc_first_reconnect_attempt c'" and "slept = []" and "same_setup c c'"
    and "\<exists>ms. fc_submitted c' = fc_submitted c @ ms \<and> (\<forall>m \<in> set ms. verified_by c m)"
    and "\<forall>x \<in> set waits. x \<le> retry_connect_max_backoff (fc_config c) + retry_connect_backoff_step (fc_config c)"
    by blast+
qed

lemma run_read_loop_effect:
  assumes "run_read_loop N from_slice (c, b, w) evs = Some ((c', b', w'), slept, waits)"
    and "fc_first_reconnect_attempt c"
  shows "slept = [] \<and> same_setup c c' \<and>
    (\<exists>ms. fc_submitted c' = fc_submitted c @ ms \<and> (\<forall>m \<in> set ms. verified_by c m)) \<and>
    (\<forall>x \<in> set waits. x \<le> retry_connect_max_backoff (fc_config c) + retry_connect_backoff_step (fc_config c))"
  using assms
proof (induction evs arbitrary: c b w slept waits)
  case (Cons ev evs)
  obtain c1 b1 w1 s1 t1 s2 t2 where step: "read_step N from_slice (c, b, w) ev = Some ((c1, b1, w1), s1, t1)"
    and rest: "run_read_loop N from_slice (c1, b1, w1) evs = Some ((c', b', w'), s2, t2)"
    and eq: "slept = s1 @ s2" "waits = t1 @ t2"
    using Cons.prems(1) by (auto simp: bind_eq_Some_conv)
  note s = read_step_effect [OF step Cons.prems(2)]
  note r = Cons.IH [OF rest s(1)]
  obtain ms1 ms2 where "fc_submitted c1 = fc_submitted c @ ms1" "\<forall>m \<in> set ms1. verified_by c m"
    "fc_submitted c' = fc_submitted c1 @ ms2" "\<forall>m \<in> set ms2. verified_by c1 m"
    using s(4) r by blast
  then have "\<exists>ms. fc_submitted c' = fc_submitted c @ ms \<and> (\<forall>m \<in> set ms. verified_by c m)"
    using same_setup_verified [OF s(3)] by (intro exI [of _ "ms1 @ ms2"]) auto
  moreover have "fc_config c1 = fc_config c" using s(3) by (simp add: same_setup_def)
  ultimately show ?case using s r eq same_setup_trans by (auto 0 4)
qed (simp add: same_setup_def)

text \<open>Starting keeps the client's setup, and only a fatal error ends it.\<close>

definition start_ok :: "broadcaster_client \<Rightarrow> client_error + broadcaster_client \<Rightarrow> bool" where
  "start_ok c r \<longleftrightarrow>
     (case r of
        Inl e \<Rightarrow> is_fatal e
      | Inr c' \<Rightarrow> same_setup c c' \<and> fc_submitted c' = fc_submitted c \<and> fc_next_seq_num c' = fc_next_seq_num c \<and>
          fc_first_reconnect_attempt c')"

lemma start_connect_ok:
  assumes "start_connect N c delay w = Some y"
  shows "start_ok c (fst y)"
proof (rule start_connect.raw_induct [where P = "\<lambda>N c delay w y. start_ok c (fst y)", OF _ assms])
  fix f N c delay w y
  assume IH: "\<And>N c delay w y. f N c delay w = Some y \<Longrightarrow> start_ok c (fst y)"
    and eq: "(case connect N c (fc_next_seq_num c) w of
        (Inr ws, c', w') \<Rightarrow> Some (Inr c', [], w')
      | (Inl e, c', w') \<Rightarrow>
          if is_fatal e then Some (Inl e, [], w')
          else Option.bind (f N c' (exponential_backoff delay (reconnect_maximum_backoff (fc_config c))) w')
               (\<lambda>(r, slept, w''). Some (r, delay # slept, w''))) = Some y"
  obtain r c1 w1 where con: "connect N c (fc_next_seq_num c) w = (r, c1, w1)" by (metis prod_cases3)
  note eff = connect_effect [OF con]
  show "start_ok c (fst y)"
  proof (cases r)
    case (Inr ws1)
    then show ?thesis using eq con eff by (auto simp: start_ok_def)
  next
    case (Inl e)
    then have c1: "c1 = c" using eff(5) by simp
    show ?thesis
    proof (cases "is_fatal e")
      case True
      then show ?thesis using eq con Inl by (auto simp: start_ok_def)
    next
      case False
      then obtain z where "f N c (exponential_backoff delay (reconnect_maximum_backoff (fc_config c))) w1 = Some z"
        "fst y = fst z"
        using eq con Inl c1 by (auto simp: bind_eq_Some_conv)
      then show ?thesis using IH by metis
    qed
  qed
qed

lemma client_start_effect:
  assumes "client_start N from_slice c w evs = Some (Inr ((c', b', w'), slept, waits))"
  shows "slept = [] \<and> same_setup c c' \<and>
    (\<exists>ms. fc_submitted c' = fc_submitted c @ ms \<and> (\<forall>m \<in> set ms. verified_by c m)) \<and>
    (\<forall>x \<in> set waits. x \<le> retry_connect_max_backoff (fc_config c) + retry_connect_backoff_step (fc_config c))"
proof -
  obtain r s1 w1 where st0: "start_connect N c (reconnect_initial_backoff (fc_config c)) w = Some (r, s1, w1)"
    and k: "(case r of Inl e \<Rightarrow> Some (Inl e) | Inr c1 \<Rightarrow> map_option Inr
        (run_read_loop N from_slice (c1, reconnect_initial_backoff (fc_config c1), w1) evs)) =
      Some (Inr ((c', b', w'), slept, waits))"
    using assms by (auto simp: client_start_def bind_eq_Some_conv)
  obtain c1 where r: "r = Inr c1" using k by (cases r) auto
  have st: "start_connect N c (reconnect_initial_backoff (fc_config c)) w = Some (Inr c1, s1, w1)"
    and rl: "run_read_loop N from_slice (c1, reconnect_initial_backoff (fc_config c1), w1) evs =
      Some ((c', b', w'), slept, waits)"
    using st0 k r by auto
  have c1: "same_setup c c1" "fc_submitted c1 = fc_submitted c" "fc_first_reconnect_attempt c1"
    using start_connect_ok [OF st] by (simp_all add: start_ok_def)
  have "fc_config c1 = fc_config c" using c1(1) by (simp add: same_setup_def)
  then show ?thesis
    using run_read_loop_effect [OF rl c1(3)] same_setup_verified [OF c1(1)] same_setup_trans [OF c1(1)] c1(2) by auto
qed

subsection \<open>Reconnecting returns once the server accepts\<close>

definition world_after :: "('w, 'ws) feed_net \<Rightarrow> broadcaster_client \<Rightarrow> 'w \<Rightarrow> 'w" where
  "world_after N c w = snd (snd (connect N c (fc_next_seq_num c) w))"

lemma retry_connect_returns:
  assumes "is_ok (fst (connect N c (fc_next_seq_num c) ((world_after N c ^^ k) w)))"
  shows "\<exists>ws c' waits w'. retry_connect N c wait w = Some (ws, c', waits, w')"
  using assms
proof (induction k arbitrary: wait w)
  case 0
  obtain r c1 w1 where con: "connect N c (fc_next_seq_num c) w = (r, c1, w1)" by (metis prod_cases3)
  then show ?case using 0 by (cases r) (auto simp: retry_connect.simps [of N c wait w])
next
  case (Suc k)
  obtain r c1 w1 where con: "connect N c (fc_next_seq_num c) w = (r, c1, w1)" by (metis prod_cases3)
  show ?case
  proof (cases r)
    case (Inl e)
    have c1: "c1 = c" using connect_effect(5) [OF con] Inl by simp
    have w1: "w1 = world_after N c w" using con by (simp add: world_after_def)
    have "is_ok (fst (connect N c (fc_next_seq_num c) ((world_after N c ^^ k) w1)))"
      using Suc.prems unfolding w1 by (simp add: funpow_swap1)
    then have "\<exists>ws c' waits w'. retry_connect N c wait' w1 = Some (ws, c', waits, w')" for wait'
      by (rule Suc.IH)
    then obtain ws c' waits w' where
      "retry_connect N c (if wait < retry_connect_max_backoff (fc_config c)
        then wait + retry_connect_backoff_step (fc_config c) else wait) w1 = Some (ws, c', waits, w')"
      by blast
    then show ?thesis
      using con Inl c1 by (simp add: retry_connect.simps [of N c wait w] Let_def)
  qed (use con in \<open>auto simp: retry_connect.simps [of N c wait w]\<close>)
qed

subsection \<open>Handshake between this client and this server\<close>

lemmas feed_header_defs =
  HEADER_FEED_CLIENT_VERSION_def HEADER_REQUESTED_SEQ_NUM_def HEADER_FEED_SERVER_VERSION_def HEADER_CHAIN_ID_def

lemma header_u64_request:
  assumes "map_of extra HEADER_FEED_CLIENT_VERSION = None" and "map_of extra HEADER_REQUESTED_SEQ_NUM = None"
  shows "header_u64 (extra @ feed_request_headers n) HEADER_FEED_CLIENT_VERSION = Some FEED_CLIENT_VERSION"
    and "header_u64 (extra @ feed_request_headers n) HEADER_REQUESTED_SEQ_NUM = Some n"
  using assms
  by (simp_all add: header_u64_def feed_request_headers_def parse_show_u64 map_add_def)
     (simp_all add: feed_header_defs parse_show_u64)

lemma handle_upgrade_request:
  assumes "map_of extra HEADER_FEED_CLIENT_VERSION = None" and "map_of extra HEADER_REQUESTED_SEQ_NUM = None"
    and "upgrade (server_enable_compression cfg) (extra @ feed_request_headers n) = Inr hs"
  shows "handle_upgrade cfg chain upgrade (extra @ feed_request_headers n) =
    Inr (AList.update HEADER_CHAIN_ID (show_nat (unat chain))
           (AList.update HEADER_FEED_SERVER_VERSION (show_nat (unat FEED_SERVER_VERSION)) hs), n,
         map_of hs SEC_WEBSOCKET_EXTENSIONS \<noteq> None)"
  using assms header_u64_request [OF assms(1,2), of n] by (simp add: handle_upgrade_def Let_def)

lemma check_header_show:
  "map_of hs name = Some (show_nat (unat n)) \<Longrightarrow>
     check_header dbg hs name missing incorrect expected =
       (if n = expected then Inr () else Inl (incorrect expected (show_nat (unat n))))"
  by (simp add: check_header_def parse_show_u64)

lemma handshake:
  assumes "handle_upgrade cfg chain upgrade req = Inr (resp, n, compressed)"
  shows "check_preflight_response dbg st c (101, resp) =
    (if require_chain_id (fc_config c) \<and> fc_chain_id c \<noteq> chain
     then Inl (IncorrectChainId (fc_chain_id c) (show_nat (unat chain))) else Inr ())"
proof -
  obtain hs where resp: "resp = AList.update HEADER_CHAIN_ID (show_nat (unat chain))
      (AList.update HEADER_FEED_SERVER_VERSION (show_nat (unat FEED_SERVER_VERSION)) hs)"
    using assms by (auto simp: handle_upgrade_def Let_def split: if_splits sum.splits)
  have neq: "HEADER_CHAIN_ID \<noteq> HEADER_FEED_SERVER_VERSION" by (simp add: feed_header_defs)
  have v: "map_of resp HEADER_FEED_SERVER_VERSION = Some (show_nat (unat FEED_SERVER_VERSION))"
    and i: "map_of resp HEADER_CHAIN_ID = Some (show_nat (unat chain))"
    unfolding resp using neq by (simp_all add: update_conv)
  show ?thesis
    using check_header_show [OF v, of dbg MissingFeedServerVersion IncorrectFeedVersion FEED_SERVER_VERSION]
      check_header_show [OF i, of dbg MissingChainId IncorrectChainId "fc_chain_id c"]
    by (auto simp: check_preflight_response_def)
qed

end
