(* ===== verification/Feed_Relay.thy ===== *)
theory Feed_Relay
  imports Feed_Client
begin

text \<open>
  The feed relay (\<open>src/rollups/nitro/feed/relay.rs\<close>): it starts the broadcaster and the upstream client, and its
  select loop turns finalized indices into confirmations and finalized messages into broadcasts until one side ends.
\<close>

datatype feed_relay_error =
  RelayBroadcaster ws_server_error
| RelayClient client_error
| RelayJoin string

record feed_relay =
  fr_broadcaster :: ws_broadcast_server
  fr_client :: broadcaster_client

definition feed_relay_new_with_verifier :: "u64 \<Rightarrow> feed_config \<Rightarrow> feed_message_verifier \<Rightarrow> feed_relay" where
  "feed_relay_new_with_verifier chain cfg verify_signature =
     \<lparr>fr_broadcaster = broadcaster_new (feed_server cfg) chain,
      fr_client = client_new_with_verifier (feed_client cfg) (web_socket_url cfg) chain (current_message_count cfg)
        verify_signature\<rparr>"

text \<open>
  What the select loop sees: a new finalized index, the end of its sender, the end of the client task, the messages
  that are in the channel, or its end. The constructors of messages hold the first one and the drained rest.
\<close>

datatype relay_event =
  L1Finalized u64
| L1SenderDropped
| ClientExited "string + (client_error + unit)"
| EspressoMessages broadcast_feed_message "broadcast_feed_message list"
| EspressoClosed

datatype relay_outcome = RelayRunning | RelayDone "feed_relay_error + unit"

definition relay_step :: "ws_broadcast_server \<Rightarrow> relay_event \<Rightarrow> ws_broadcast_server \<times> relay_outcome" where
  "relay_step srv ev =
     (case ev of
        L1SenderDropped \<Rightarrow> (broadcaster_stop srv, RelayDone (Inr ()))
      | L1Finalized finalized \<Rightarrow>
          (srv\<lparr>ws_shared := broadcaster_confirm (ws_shared srv) finalized\<rparr>, RelayRunning)
      | ClientExited r \<Rightarrow>
          (srv, RelayDone (case r of Inl err \<Rightarrow> Inl (RelayJoin err) | Inr inner \<Rightarrow> map_err RelayClient inner))
      | EspressoClosed \<Rightarrow> (broadcaster_stop srv, RelayDone (Inr ()))
      | EspressoMessages first_msg rest \<Rightarrow>
          (srv\<lparr>ws_shared := broadcast_feed_messages (ws_shared srv) (first_msg # rest)\<rparr>, RelayRunning))"

fun relay_loop :: "ws_broadcast_server \<Rightarrow> relay_event list \<Rightarrow> ws_broadcast_server \<times> relay_outcome" where
  "relay_loop srv [] = (srv, RelayRunning)"
| "relay_loop srv (ev # evs) =
     (case relay_step srv ev of
        (srv', RelayRunning) \<Rightarrow> relay_loop srv' evs
      | (srv', RelayDone r) \<Rightarrow> (srv', RelayDone r))"

definition relay_start ::
  "(string \<Rightarrow> r_error + string) \<Rightarrow> feed_relay \<Rightarrow> relay_event list \<Rightarrow> ws_broadcast_server \<times> relay_outcome" where
  "relay_start bind_listener relay evs =
     (case broadcaster_start bind_listener (fr_broadcaster relay) of
        (Inl e, srv) \<Rightarrow> (srv, RelayDone (Inl (RelayBroadcaster e)))
      | (Inr addr, srv) \<Rightarrow> relay_loop srv evs)"

subsection \<open>The loop performs broadcaster calls\<close>

fun relay_ops :: "relay_event list \<Rightarrow> broadcaster_op list" where
  "relay_ops [] = []"
| "relay_ops (L1Finalized n # evs) = Confirm n # relay_ops evs"
| "relay_ops (EspressoMessages m ms # evs) = Feed (m # ms) # relay_ops evs"
| "relay_ops (ev # evs) = []"

lemma relay_loop_ops: "ws_shared (fst (relay_loop srv evs)) = run_ops (ws_shared srv) (relay_ops evs)"
proof (induction evs arbitrary: srv)
  case (Cons ev evs)
  then show ?case
    by (cases ev) (auto simp: relay_step_def run_ops_def broadcaster_stop_def ws_server_stop_def)
qed (simp add: run_ops_def)

lemma relay_start_ops:
  assumes "bind_listener (ws_addr (ws_server_config (feed_server cfg)) @ '':'' @
      show_nat (ws_port (ws_server_config (feed_server cfg)))) = Inr addr"
  shows "ws_shared (fst (relay_start bind_listener (feed_relay_new_with_verifier chain cfg verify) evs)) =
    run_ops (ws_shared (ws_server_new (ws_server_config (feed_server cfg)) chain)) (relay_ops evs)"
  using assms
  by (simp add: relay_start_def feed_relay_new_with_verifier_def broadcaster_new_def broadcaster_start_def ws_server_start_def Let_def
      ws_server_new_def relay_loop_ops)

text \<open>A relay that has ended, other than through its client, has stopped the broadcaster.\<close>

lemma relay_done_stopped:
  "relay_loop srv evs = (srv', RelayDone (Inr ())) \<Longrightarrow>
     \<not> ws_server_started srv' \<or> ClientExited (Inr (Inr ())) \<in> set evs"
proof (induction evs arbitrary: srv)
  case (Cons ev evs)
  then show ?case
    by (cases ev)
       (auto simp: relay_step_def broadcaster_stop_def ws_server_stop_def ws_server_started_def map_err_eq_Inr split: sum.splits)
qed simp

end
