(* ===== verification/Log_Filter.thy ===== *)
theory Log_Filter
  imports Rollup
begin

text \<open>
  The log filter and its runtime override (\<open>src/lib.rs\<close>). Parsing of levels and filters and the reload of the
  subscriber are parameters.
\<close>

definition is_whitespace :: "char \<Rightarrow> bool" where
  "is_whitespace c \<longleftrightarrow> c \<in> set [CHR 0x09, CHR 0x0A, CHR 0x0B, CHR 0x0C, CHR 0x0D, CHR '' '']"

definition str_trim :: "string \<Rightarrow> string" where
  "str_trim s = rev (dropWhile is_whitespace (rev (dropWhile is_whitespace s)))"

fun str_split :: "char \<Rightarrow> string \<Rightarrow> string list" where
  "str_split sep [] = [[]]"
| "str_split sep (c # s) =
     (if c = sep then [] # str_split sep s
      else case str_split sep s of [] \<Rightarrow> [[c]] | part # parts \<Rightarrow> (c # part) # parts)"

text \<open>\<open>is_level\<close> says that a text is a level; \<open>try_new\<close> parses a filter.\<close>

definition parse_override :: "(string \<Rightarrow> bool) \<Rightarrow> (string \<Rightarrow> r_error + 'flt) \<Rightarrow> string \<Rightarrow> r_error + 'flt" where
  "parse_override is_level try_new filter_text =
     (let sets_level = list_ex (\<lambda>directive. is_level (str_trim directive)) (str_split (CHR '','') filter_text)
      in if sets_level then try_new filter_text else try_new (''info,'' @ filter_text))"

text \<open>\<open>reload_ok\<close> is whether the subscriber takes the new filter; the result is the active filter.\<close>

definition apply_override ::
  "(string \<Rightarrow> bool) \<Rightarrow> (string \<Rightarrow> r_error + 'flt) \<Rightarrow> bool \<Rightarrow> string \<Rightarrow> 'flt \<Rightarrow> 'flt" where
  "apply_override is_level try_new reload_ok filter_text active =
     (if str_trim filter_text = [] then active
      else case parse_override is_level try_new filter_text of
        Inl err \<Rightarrow> active
      | Inr new_filter \<Rightarrow> if reload_ok then new_filter else active)"

definition init_logging :: "(string \<Rightarrow> string option) \<Rightarrow> (string \<Rightarrow> 'flt) \<Rightarrow> 'flt" where
  "init_logging var env_filter =
     env_filter (case var ''RUST_LOG'' of Some f \<Rightarrow> f | None \<Rightarrow> ''info'')"

subsection \<open>Overrides\<close>

lemma str_split_join: "concat (map (\<lambda>p. sep # p) (str_split sep s)) = sep # s"
proof (induction s)
  case (Cons c s)
  then show ?case by (cases "str_split sep s") auto
qed simp

lemma str_split_no_sep: "p \<in> set (str_split sep s) \<Longrightarrow> sep \<notin> set p"
  by (induction s arbitrary: p) (auto split: list.splits if_splits)

text \<open>
  An override without a level of its own is parsed behind \<open>info\<close>, so a targeted filter does not silence the rest, and
  one that does not parse changes nothing.
\<close>

lemma override_keeps_baseline:
  assumes "\<forall>directive \<in> set (str_split (CHR '','') f). \<not> is_level (str_trim directive)"
  shows "parse_override is_level try_new f = try_new (''info,'' @ f)"
  using assms by (auto simp: parse_override_def list_ex_iff)

lemma invalid_override_ignored:
  assumes "\<And>f. \<exists>e. try_new f = Inl e"
  shows "apply_override is_level try_new reload_ok f active = active"
proof -
  obtain e where "parse_override is_level try_new f = Inl e"
    using assms unfolding parse_override_def Let_def by metis
  then show ?thesis by (simp add: apply_override_def)
qed

end
