(* ===== verification/Service.thy ===== *)
theory Service
  imports Nitro Nitro_Json L1_Monitor Da_Server Submitter Feed_Relay Log_Filter
begin

text \<open>
  The service around the components: its configuration (\<open>src/config.rs\<close>), the secrets that complete it
  (\<open>src/secrets.rs\<close>), the Nitro part of startup (\<open>src/rollups/nitro/nitro.rs\<close>) and \<open>main\<close> with \<open>run\<close>
  (\<open>src/main.rs\<close>). Environment variables are a function; AWS, the L1 node and the TEE device are parameters.
\<close>

subsection \<open>Configuration\<close>

text \<open>\<open>'g\<close> is the light client's genesis.\<close>

record 'g light_client_config =
  genesis :: 'g
  fallback_query_urls :: "string list"
  db_path :: "string option"
  num_stake_tables_in_memory :: nat
  fallback_delay_ms :: u64

definition default_num_stake_tables_in_memory :: nat where
  "default_num_stake_tables_in_memory = 100"

definition default_fallback_delay_ms :: u64 where
  "default_fallback_delay_ms = 300"

record 'g espresso_config =
  ec_client :: espresso_client_config
  ec_light_client :: "'g light_client_config"

record advanced_config =
  espresso_finalized_message_channel_capacity :: nat
  verification_channel_capacity :: nat
  hotshot_transaction_channel_capacity :: nat
  submitter_input_channel_capacity :: nat

definition advanced_config_default :: advanced_config where
  "advanced_config_default =
     \<lparr>espresso_finalized_message_channel_capacity = 100, verification_channel_capacity = 100,
      hotshot_transaction_channel_capacity = 300, submitter_input_channel_capacity = 100\<rparr>"

record key_manager_config =
  kmc_tee_verifier_address :: address
  attestation_verifier_url :: string
  kmc_max_register_attempts :: u8
  attestation_client_timeout_secs :: u64
  kmc_tee_type :: tee_type

definition default_max_register_attempts :: u8 where
  "default_max_register_attempts = 3"

definition default_attestation_client_timeout_secs :: u64 where
  "default_attestation_client_timeout_secs = 5 * 60"

record 'g service_config =
  svc_espresso_client :: "'g espresso_config"
  svc_streamer :: streamer_config
  svc_rollup :: "nitro_config rollup_config"
  svc_da_server :: da_api_config
  svc_submitter :: submitter_config
  svc_advanced :: advanced_config
  svc_key_manager :: key_manager_config
  is_fresh_deployment :: bool

definition resolve_config_with_checkpoint ::
  "'g service_config \<Rightarrow> batch_cursor \<Rightarrow> u64 option \<Rightarrow> 'g service_config" where
  "resolve_config_with_checkpoint cfg cursor start_height =
     (let cfg = (case start_height of
                   Some h \<Rightarrow> cfg\<lparr>svc_streamer := (svc_streamer cfg)\<lparr>starting_hotshot_height := h\<rparr>\<rparr>
                 | None \<Rightarrow> cfg);
          st = stack (svc_rollup cfg);
          st = st\<lparr>feed := (feed st)\<lparr>current_message_count := next_batch_start_pos cursor\<rparr>\<rparr>;
          cfg = cfg\<lparr>svc_rollup := (svc_rollup cfg)\<lparr>stack := st\<rparr>\<rparr>
      in cfg\<lparr>svc_streamer := (svc_streamer cfg)\<lparr>starting_pos := next_batch_start_pos cursor\<rparr>\<rparr>)"

subsection \<open>Secrets\<close>

definition PLACEHOLDER_STR :: string where
  "PLACEHOLDER_STR = ''PLACEHOLDER''"

definition PLACEHOLDER_URL :: string where
  "PLACEHOLDER_URL = ''http://placeholder.invalid/''"

definition ENV_AWS_REGION :: string where
  "ENV_AWS_REGION = ''AWS_REGION''"

definition ENV_AWS_SECRET_ID :: string where
  "ENV_AWS_SECRET_ID = ''AWS_SECRET_ID''"

definition ENV_OPERATOR_PRIVATE_KEY :: string where
  "ENV_OPERATOR_PRIVATE_KEY = ''OPERATOR_PRIVATE_KEY''"

record secret_overrides =
  ov_espresso_base_url :: string
  ov_feed_ws_url :: string
  ov_l1_ws_url :: string
  ov_l1_http_url :: string
  ov_anytrust_endpoint :: string
  ov_starting_hotshot_height :: u64
  ov_is_fresh_deployment :: bool
  ov_operator_private_key :: "string option"
  ov_log_filter :: "string option"

text \<open>The JSON parsers: of the overrides themselves, and of the wrapper's \<open>parameters\<close>.\<close>

record secret_json =
  sj_overrides :: "string \<Rightarrow> secret_overrides option"
  sj_wrapper :: "string \<Rightarrow> string option"

definition parse_secret_overrides :: "secret_json \<Rightarrow> string \<Rightarrow> r_error + secret_overrides" where
  "parse_secret_overrides J secret_str =
     (case sj_overrides J secret_str of
        Some overrides \<Rightarrow> Inr overrides
      | None \<Rightarrow>
          and_then (ok_or ''parsing secret JSON (neither direct nor wrapped shape)'' (sj_wrapper J secret_str))
            (\<lambda>parameters. ok_or ''parsing inner `parameters` JSON'' (sj_overrides J parameters)))"

text \<open>\<open>get_secret\<close> asks AWS for a secret in a region; its payload may be absent.\<close>

definition fetch_secret_overrides ::
  "(string \<Rightarrow> string option) \<Rightarrow> (string \<Rightarrow> string \<Rightarrow> ('w, r_error, string option) io) \<Rightarrow> secret_json \<Rightarrow> tee_type
     \<Rightarrow> ('w, r_error, secret_overrides option) io" where
  "fetch_secret_overrides var get_secret J ty =
     (case (var ENV_AWS_REGION, var ENV_AWS_SECRET_ID) of
        (None, None) \<Rightarrow>
          if ty = TeeNitro then ret (Inl ''AWS_REGION and AWS_SECRET_ID not set but Tee type is Nitro'')
          else ret (Inr None)
      | (Some region, Some secret_id) \<Rightarrow>
          io_then (io_map_err (\<lambda>e. ''fetching secret '' @ secret_id) (get_secret region secret_id)) (\<lambda>resp.
          io_then (ret (ok_or ''secret has no SecretString payload'' resp)) (\<lambda>secret_str.
          io_then (ret (parse_secret_overrides J secret_str)) (\<lambda>overrides. ret (Inr (Some overrides)))))
      | _ \<Rightarrow> ret (Inl ''AWS_REGION and AWS_SECRET_ID must both be set or both unset''))"

text \<open>\<open>parse_url\<close> is \<open>Url::parse\<close> followed by printing.\<close>

definition apply_overrides_nitro ::
  "(string \<Rightarrow> string option) \<Rightarrow> secret_overrides \<Rightarrow> 'g service_config \<Rightarrow> r_error + 'g service_config" where
  "apply_overrides_nitro parse_url ov cfg =
     and_then (ok_or ''overrides.espresso_base_url is not a valid URL'' (parse_url (ov_espresso_base_url ov))) (\<lambda>url.
     let ec = svc_espresso_client cfg;
         ro = svc_rollup cfg;
         st = stack ro;
         st = st\<lparr>feed := (feed st)\<lparr>web_socket_url := ov_feed_ws_url ov\<rparr>\<rparr>;
         st = st\<lparr>l1_ws_url := ov_l1_ws_url ov, l1_http_url := ov_l1_http_url ov\<rparr>;
         da = svc_da_server cfg;
         providers = map (\<lambda>p. if is_anytrust p then p\<lparr>endpoint_url := ov_anytrust_endpoint ov\<rparr> else p) (da_providers da)
     in Inr (cfg\<lparr>svc_espresso_client := ec\<lparr>ec_client := (ec_client ec)\<lparr>base_url := url\<rparr>\<rparr>,
                 svc_rollup := ro\<lparr>stack := st\<rparr>,
                 svc_da_server := da\<lparr>da_providers := providers\<rparr>,
                 svc_streamer := (svc_streamer cfg)\<lparr>starting_hotshot_height := ov_starting_hotshot_height ov\<rparr>,
                 is_fresh_deployment := ov_is_fresh_deployment ov\<rparr>))"

definition resolve_operator_private_key ::
  "(string \<Rightarrow> string option) \<Rightarrow> secret_overrides option \<Rightarrow> r_error + string" where
  "resolve_operator_private_key var ovs =
     (case Option.bind ovs ov_operator_private_key of
        Some key \<Rightarrow> Inr key
      | None \<Rightarrow>
          ok_or ''operator_private_key not found in AWS secret and OPERATOR_PRIVATE_KEY env var is not set''
            (var ENV_OPERATOR_PRIVATE_KEY))"

text \<open>\<open>unverified\<close> is the \<open>unverified-reader\<close> feature; \<open>no_stake\<close> says that a genesis has an empty stake table.\<close>

definition assert_no_placeholders_nitro ::
  "bool \<Rightarrow> (string \<Rightarrow> string option) \<Rightarrow> ('g \<Rightarrow> bool) \<Rightarrow> 'g service_config \<Rightarrow> r_error + unit" where
  "assert_no_placeholders_nitro unverified parse_url no_stake cfg =
     (let st = stack (svc_rollup cfg) in
      if base_url (ec_client (svc_espresso_client cfg)) = PLACEHOLDER_URL
      then Inl ''espresso_client.base_url was not overridden - still placeholder sentinel''
      else if web_socket_url (feed st) = PLACEHOLDER_STR
      then Inl ''rollup.stack.feed.web_socket_url was not overridden - still PLACEHOLDER''
      else if l1_ws_url st = PLACEHOLDER_STR
      then Inl ''rollup.stack.l1_ws_url was not overridden - still PLACEHOLDER''
      else if l1_http_url st = PLACEHOLDER_STR
      then Inl ''rollup.stack.l1_http_url was not overridden - still PLACEHOLDER''
      else and_then (ok_or ''rollup.stack.l1_http_url is not a valid URL'' (parse_url (l1_http_url st))) (\<lambda>_.
        case find (\<lambda>p. is_anytrust p \<and> endpoint_url p = PLACEHOLDER_STR) (da_providers (svc_da_server cfg)) of
          Some p \<Rightarrow> Inl (''da_provider '' @ prov_name p @ '' endpoint_url not overridden - still PLACEHOLDER'')
        | None \<Rightarrow>
            if \<not> unverified \<and> kmc_tee_type (svc_key_manager cfg) = TeeNitro \<and>
               no_stake (genesis (ec_light_client (svc_espresso_client cfg)))
            then Inl (''espresso_client.light_client.genesis.stake_table is empty - genesis must be set in '' @
                      ''the config (it is the light client's root of trust and is part of CONFIG_HASH)'')
            else Inr ()))"

subsection \<open>Startup\<close>

datatype startup_error =
  StartConfig r_error
| StartChain r_error
| StartKeyManager key_manager_error
| StartL1 l1_monitor_error
| StartReader light_client_error

text \<open>
  The light client's library: opening its storage, the client over the query nodes, and the verifying client on top.
  \<open>'lc\<close> stands for its objects.
\<close>

record ('g, 'lc) light_client_lib =
  lc_connect :: "string option \<Rightarrow> anyhow_error + 'lc"
  lc_fallback_client :: "string list \<Rightarrow> u64 \<Rightarrow> r_error + 'lc"
  lc_from_genesis :: "'lc \<Rightarrow> 'lc \<Rightarrow> 'g \<Rightarrow> nat \<Rightarrow> 'lc"

text \<open>What \<open>main\<close> gets from outside, with the network calls as effects.\<close>

record ('w, 'h, 'log, 'g, 'lc) service_env =
  se_var :: "string \<Rightarrow> string option"
  se_get_secret :: "string \<Rightarrow> string \<Rightarrow> ('w, r_error, string option) io"
  se_json :: secret_json
  se_parse_url :: "string \<Rightarrow> string option"
  se_no_stake :: "'g \<Rightarrow> bool"
  se_unverified :: bool
  se_e2e :: bool
  se_light_client :: "('g, 'lc) light_client_lib"
  se_parse_signer :: "string \<Rightarrow> r_error + private_key_signer"
  se_contract_rpc :: "string \<Rightarrow> private_key_signer \<Rightarrow> ('w, 'h) contract_rpc"
  se_get_chain_id :: "string \<Rightarrow> ('w, r_error, u64) io"
  se_random_signer :: "('w, private_key_signer) state"
  se_attestation_client :: "string \<Rightarrow> u64 \<Rightarrow> r_error + 'w http_attestation_verifier_client"
  se_nsm :: "'w nsm_driver"
  se_sign :: sign_lib
  se_connect_l1 :: "string \<Rightarrow> r_error + 'log provider"

definition load_config ::
  "('w, 'h, 'log, 'g, 'lc) service_env \<Rightarrow> 'g service_config
     \<Rightarrow> ('w, startup_error, 'g service_config \<times> string) io" where
  "load_config E cfg =
     io_then (io_map_err StartConfig
       (fetch_secret_overrides (se_var E) (se_get_secret E) (se_json E) (kmc_tee_type (svc_key_manager cfg)))) (\<lambda>ovs.
     ret (map_err StartConfig (
       and_then (case ovs of Some ov \<Rightarrow> apply_overrides_nitro (se_parse_url E) ov cfg | None \<Rightarrow> Inr cfg) (\<lambda>cfg.
       and_then (assert_no_placeholders_nitro (se_unverified E) (se_parse_url E) (se_no_stake E) cfg) (\<lambda>_.
       and_then (resolve_operator_private_key (se_var E) ovs) (\<lambda>key.
       Inr (cfg, key)))))))"

definition build_key_manager ::
  "('w, 'h, 'log, 'g, 'lc) service_env \<Rightarrow> key_manager_config \<Rightarrow> 'w espresso_tee_verifier \<Rightarrow> u64
     \<Rightarrow> ('w, startup_error, 'w key_manager) io" where
  "build_key_manager E kmc verifier chain =
     (if kmc_tee_type kmc = TeeTest then
        State_Monad.bind (se_random_signer E) (\<lambda>signer.
        ret (map_err StartKeyManager (key_manager_new_for_test verifier (kmc_max_register_attempts kmc) chain
          (kmc_tee_verifier_address kmc) signer)))
      else
        io_then (ret (map_err StartConfig (se_attestation_client E (attestation_verifier_url kmc)
          (attestation_client_timeout_secs kmc)))) (\<lambda>attestation_client.
        State_Monad.bind (se_random_signer E) (\<lambda>signer.
        ret (map_err StartKeyManager (key_manager_new_nsm verifier (http_generate_zk_proof attestation_client)
          (se_nsm E) (kmc_max_register_attempts kmc) (kmc_tee_type kmc) chain
          (kmc_tee_verifier_address kmc) signer)))))"

definition setup_key_manager ::
  "('w, 'h, 'log, 'g, 'lc) service_env \<Rightarrow> 'g service_config \<Rightarrow> string \<Rightarrow> ('w, startup_error, 'w key_manager) io" where
  "setup_key_manager E cfg operator_key =
     io_then (ret (map_err StartConfig (se_parse_signer E operator_key))) (\<lambda>operator_signer.
     io_then (ret (map_err StartConfig (ok_or ''rollup.stack.l1_http_url is not a valid URL''
        (se_parse_url E (l1_http_url (stack (svc_rollup cfg))))))) (\<lambda>url.
     io_then (io_map_err StartChain (se_get_chain_id E url)) (\<lambda>chain.
     io_then (build_key_manager E (svc_key_manager cfg)
        (tee_verifier (se_contract_rpc E url operator_signer) (kmc_tee_verifier_address (svc_key_manager cfg)))
        chain) (\<lambda>km.
     io_then (io_map_err StartKeyManager (initialize (se_sign E) km)) (\<lambda>_.
     ret (Inr km))))))"

text \<open>The first part of \<open>run\<close>: where to resume, from the checkpoint or from the inbox.\<close>

definition resume_point ::
  "bool \<Rightarrow> 'log nitro_l1_monitor \<Rightarrow> l1_monitor_error + batch_cursor \<times> u64 option" where
  "resume_point fresh mon =
     (if \<not> fresh
      then and_then (fetch_latest_checkpoint_on_startup mon) (\<lambda>cp. Inr (cp_batch_cursor cp, Some (cp_hotshot_height cp)))
      else and_then (fetch_latest_batch_cursor_on_fresh_deployment mon) (\<lambda>cursor. Inr (cursor, None)))"

text \<open>The query nodes of the light client, primary first, and the reader over them.\<close>

definition reader_query_urls :: "'g espresso_config \<Rightarrow> string list" where
  "reader_query_urls ec = base_url (ec_client ec) # fallback_query_urls (ec_light_client ec)"

definition light_client_reader_new ::
  "('g, 'lc) light_client_lib \<Rightarrow> 'g \<Rightarrow> string list \<Rightarrow> string option \<Rightarrow> nat \<Rightarrow> u64 \<Rightarrow> light_client_error + 'lc" where
  "light_client_reader_new L genesis_state query_urls path num_stake_tables delay =
     and_then (map_err LcStorage (lc_connect L path)) (\<lambda>storage.
     and_then (map_err (\<lambda>e. LcClient (AnyMsg (''fallback client: '' @ e))) (lc_fallback_client L query_urls delay)) (\<lambda>server.
     Inr (lc_from_genesis L storage server genesis_state num_stake_tables)))"

datatype 'lc reader_impl = VerifiedReader 'lc | UnverifiedReader espresso_client_config

definition CAS_E2E_UNVERIFIED_READER :: string where
  "CAS_E2E_UNVERIFIED_READER = ''CAS_E2E_UNVERIFIED_READER''"

definition build_reader ::
  "('w, 'h, 'log, 'g, 'lc) service_env \<Rightarrow> 'g espresso_config \<Rightarrow> light_client_error + 'lc reader_impl" where
  "build_reader E ec =
     (if se_e2e E \<and> se_var E CAS_E2E_UNVERIFIED_READER \<noteq> None then Inr (UnverifiedReader (ec_client ec))
      else if se_unverified E then Inr (UnverifiedReader (ec_client ec))
      else
        let lc = ec_light_client ec in
        and_then (light_client_reader_new (se_light_client E) (genesis lc) (reader_query_urls ec) (db_path lc)
          (num_stake_tables_in_memory lc) (fallback_delay_ms lc)) (\<lambda>reader.
        Inr (VerifiedReader reader)))"

text \<open>The service as \<open>run\<close> puts it together, before its tasks start.\<close>

record ('w, 'h, 'log, 'g, 'lc) service =
  run_config :: "'g service_config"
  run_key_manager :: "'w key_manager"
  run_l1_monitor :: "'log nitro_l1_monitor"
  run_streamer :: "(nitro_rollup_queue_entry, nitro_config) streamer"
  run_submitter :: "(broadcast_feed_message, bytes, 'h) submitter"
  run_feed_relay :: feed_relay
  run_reader :: "'lc reader_impl"

text \<open>The constructors with the default verifier.\<close>

definition client_new ::
  "nitro_libs \<Rightarrow> broadcaster_client_config \<Rightarrow> string \<Rightarrow> u64 \<Rightarrow> u64 \<Rightarrow> broadcaster_client" where
  "client_new N cfg websocket_url chain current =
     client_new_with_verifier cfg websocket_url chain current
       (verify_broadcast_feed_message_signature (nl_crypto N) (nl_rlp N))"

definition feed_relay_new :: "nitro_libs \<Rightarrow> u64 \<Rightarrow> feed_config \<Rightarrow> feed_relay" where
  "feed_relay_new N chain cfg =
     \<lparr>fr_broadcaster = broadcaster_new (feed_server cfg) chain,
      fr_client = client_new N (feed_client cfg) (web_socket_url cfg) chain (current_message_count cfg)\<rparr>"

definition start_feed_relay :: "nitro_libs \<Rightarrow> nitro_config \<Rightarrow> feed_relay" where
  "start_feed_relay N cfg =
     feed_relay_new_with_verifier (chain_id cfg) (feed cfg)
       (verify_broadcast_feed_message_signature (nl_crypto N) (nl_rlp N))"

definition build_service ::
  "nitro_libs \<Rightarrow> ('w, 'h, 'log, 'g, 'lc) service_env \<Rightarrow> 'g service_config \<Rightarrow> 'w key_manager \<Rightarrow> 'log nitro_l1_monitor
     \<Rightarrow> startup_error + ('w, 'h, 'log, 'g, 'lc) service" where
  "build_service N E cfg km mon =
     and_then (map_err StartL1 (resume_point (is_fresh_deployment cfg) mon)) (\<lambda>(cursor, height).
     let cfg = resolve_config_with_checkpoint cfg cursor height
     in and_then (map_err StartReader (build_reader E (svc_espresso_client cfg))) (\<lambda>reader.
        Inr \<lparr>run_config = cfg, run_key_manager = km, run_l1_monitor = mon,
             run_streamer = streamer_new (svc_streamer cfg) (svc_rollup cfg),
             run_submitter = submitter_new (svc_submitter cfg),
             run_feed_relay = start_feed_relay N (stack (svc_rollup cfg)), run_reader = reader\<rparr>))"

definition main_nitro ::
  "nitro_libs \<Rightarrow> ('w, 'h, 'log, 'g, 'lc) service_env \<Rightarrow> 'g service_config
     \<Rightarrow> ('w, startup_error, ('w, 'h, 'log, 'g, 'lc) service) io" where
  "main_nitro N E cfg =
     io_then (load_config E cfg) (\<lambda>(cfg, operator_key).
     io_then (setup_key_manager E cfg operator_key) (\<lambda>km.
     io_then (ret (map_err StartL1 (create_l1_monitor (se_connect_l1 E) (stack (svc_rollup cfg))))) (\<lambda>mon.
     ret (build_service N E cfg km mon))))"

text \<open>The DA server \<open>run\<close> starts: the routes of every provider under the rollup's prefix.\<close>

definition ARBITRUM_NITRO :: string where
  "ARBITRUM_NITRO = ''arb''"

definition da_api_run ::
  "'w http_client \<Rightarrow> (bytes \<Rightarrow> ('w, r_error, verification_result) io) \<Rightarrow> ('w, 'h, 'log, 'g, 'lc) service
     \<Rightarrow> da_api_error + (string \<times> 'w server_state) list" where
  "da_api_run http verify svc =
     (let cfg = svc_da_server (run_config svc)
      in and_then (build_app http (da_providers cfg) verify ARBITRUM_NITRO (run_key_manager svc)
           (resolve_calldata_max_size (cfg_calldata_max_size cfg)))
         (\<lambda>routes. Inr (map (\<lambda>(path, st). (''/cas'' @ path, st)) routes)))"

subsection \<open>No placeholder gets past startup\<close>

definition placeholder_free :: "'g service_config \<Rightarrow> bool" where
  "placeholder_free cfg \<longleftrightarrow>
     base_url (ec_client (svc_espresso_client cfg)) \<noteq> PLACEHOLDER_URL \<and>
     web_socket_url (feed (stack (svc_rollup cfg))) \<noteq> PLACEHOLDER_STR \<and>
     l1_ws_url (stack (svc_rollup cfg)) \<noteq> PLACEHOLDER_STR \<and>
     l1_http_url (stack (svc_rollup cfg)) \<noteq> PLACEHOLDER_STR \<and>
     (\<forall>p \<in> set (da_providers (svc_da_server cfg)). is_anytrust p \<longrightarrow> endpoint_url p \<noteq> PLACEHOLDER_STR)"

lemma assert_no_placeholders_Inr:
  "assert_no_placeholders_nitro unverified parse_url no_stake cfg = Inr () \<longleftrightarrow>
     placeholder_free cfg \<and> parse_url (l1_http_url (stack (svc_rollup cfg))) \<noteq> None \<and>
     (unverified \<or> kmc_tee_type (svc_key_manager cfg) \<noteq> TeeNitro \<or>
      \<not> no_stake (genesis (ec_light_client (svc_espresso_client cfg))))"
  by (auto simp: assert_no_placeholders_nitro_def placeholder_free_def Let_def and_then_eq_Inr ok_or_eq_Inr
      find_None_iff find_Some_iff split: option.splits if_splits)

lemma load_config_Inr:
  assumes "run_state (load_config E cfg) w = (Inr (cfg', key), w')"
  shows "placeholder_free cfg'" and "se_parse_url E (l1_http_url (stack (svc_rollup cfg'))) \<noteq> None"
    and "svc_key_manager cfg' = svc_key_manager cfg"
proof -
  obtain ovs where a: "assert_no_placeholders_nitro (se_unverified E) (se_parse_url E) (se_no_stake E) cfg' = Inr ()"
    and ov: "(case ovs of Some ov \<Rightarrow> apply_overrides_nitro (se_parse_url E) ov cfg | None \<Rightarrow> Inr cfg) = Inr cfg'"
    using assms by (auto simp: load_config_def run_io_then_Inr run_ret_Inr result_eqs)
  show "placeholder_free cfg'" "se_parse_url E (l1_http_url (stack (svc_rollup cfg'))) \<noteq> None"
    using a by (simp_all add: assert_no_placeholders_Inr)
  show "svc_key_manager cfg' = svc_key_manager cfg"
    using ov by (auto simp: apply_overrides_nitro_def Let_def result_eqs split: option.splits)
qed

text \<open>With both AWS variables unset, only a test service starts.\<close>

lemma load_config_without_secrets:
  assumes "se_var E ENV_AWS_REGION = None" and "se_var E ENV_AWS_SECRET_ID = None"
    and "kmc_tee_type (svc_key_manager cfg) = TeeNitro"
  shows "\<exists>e. run_state (load_config E cfg) w = (Inl (StartConfig e), w)"
  using assms by (simp add: load_config_def fetch_secret_overrides_def run_io_then run_io_map_err)

lemma build_key_manager_Inr:
  assumes "run_state (build_key_manager E kmc verifier chain) w = (Inr km, w')"
  shows "km_tee_verifier km = verifier" and "km_tee_type km = kmc_tee_type kmc"
    and "max_register_attempts km = kmc_max_register_attempts kmc"
    and "0 < unat (max_register_attempts km)" and "unat (max_register_attempts km) \<le> 10"
proof -
  obtain sg w1 where sg: "run_state (se_random_signer E) w = (sg, w1)" by fastforce
  obtain zk attest ty signer where "ty = kmc_tee_type kmc"
    "key_manager_new verifier zk attest (kmc_max_register_attempts kmc) ty chain (kmc_tee_verifier_address kmc) signer = Inr km"
    using assms sg
    by (auto simp: build_key_manager_def key_manager_new_nsm_def key_manager_new_for_test_def run_io_then_Inr run_ret_Inr result_eqs split: if_splits)
  then show "km_tee_verifier km = verifier" and "km_tee_type km = kmc_tee_type kmc"
    and "max_register_attempts km = kmc_max_register_attempts kmc"
    and "0 < unat (max_register_attempts km)" and "unat (max_register_attempts km) \<le> 10"
    using key_manager_new_cases by metis+
qed

lemma setup_key_manager_Inr:
  assumes "run_state (setup_key_manager E cfg key) w = (Inr km, w')"
    and "\<And>url signer. truthful (tee_verifier (se_contract_rpc E url signer) (kmc_tee_verifier_address (svc_key_manager cfg))) valid"
  shows "valid w' (signer_addr (km_signer km)) (on_chain_tee_type km)"
proof -
  obtain url signer chain w1 w2 where
    b: "run_state (build_key_manager E (svc_key_manager cfg)
        (tee_verifier (se_contract_rpc E url signer) (kmc_tee_verifier_address (svc_key_manager cfg))) chain) w1 = (Inr km, w2)"
    and i: "run_state (initialize (se_sign E) km) w2 = (Inr (), w')"
    using assms(1)
    by (auto simp: setup_key_manager_def run_io_then_Inr run_io_map_err_Inr run_ret_Inr result_eqs)
  show ?thesis
    by (rule initialize_registered [OF _ i]) (simp add: build_key_manager_Inr(1) [OF b] assms(2))
qed

lemma resolve_config_frame [simp]:
  "starting_pos (svc_streamer (resolve_config_with_checkpoint cfg cursor h)) = next_batch_start_pos cursor"
  "current_message_count (feed (stack (svc_rollup (resolve_config_with_checkpoint cfg cursor h)))) =
     next_batch_start_pos cursor"
  "starting_hotshot_height (svc_streamer (resolve_config_with_checkpoint cfg cursor h)) =
     (case h of Some n \<Rightarrow> n | None \<Rightarrow> starting_hotshot_height (svc_streamer cfg))"
  "svc_espresso_client (resolve_config_with_checkpoint cfg cursor h) = svc_espresso_client cfg"
  "svc_da_server (resolve_config_with_checkpoint cfg cursor h) = svc_da_server cfg"
  "is_fresh_deployment (resolve_config_with_checkpoint cfg cursor h) = is_fresh_deployment cfg"
  "web_socket_url (feed (stack (svc_rollup (resolve_config_with_checkpoint cfg cursor h)))) =
     web_socket_url (feed (stack (svc_rollup cfg)))"
  "l1_ws_url (stack (svc_rollup (resolve_config_with_checkpoint cfg cursor h))) = l1_ws_url (stack (svc_rollup cfg))"
  "l1_http_url (stack (svc_rollup (resolve_config_with_checkpoint cfg cursor h))) = l1_http_url (stack (svc_rollup cfg))"
  by (simp_all add: resolve_config_with_checkpoint_def Let_def split: option.split)

lemma build_service_Inr:
  assumes "build_service N E cfg km mon = Inr svc"
  obtains cursor h where "resume_point (is_fresh_deployment cfg) mon = Inr (cursor, h)"
    and "run_config svc = resolve_config_with_checkpoint cfg cursor h"
    and "run_key_manager svc = km" and "run_l1_monitor svc = mon"
    and "config (run_streamer svc) = svc_streamer (run_config svc)"
    and "fc_next_seq_num (fr_client (run_feed_relay svc)) = next_batch_start_pos cursor"
    and "build_reader E (svc_espresso_client cfg) = Inr (run_reader svc)"
  using assms
  by (auto simp: build_service_def Let_def and_then_eq_Inr map_err_eq_Inr streamer_new_def start_feed_relay_def
      feed_relay_new_with_verifier_def client_new_with_verifier_def)

text \<open>The default build reads Espresso through the verifying client only.\<close>

lemma build_reader_verified:
  assumes "build_reader E ec = Inr r" and "\<not> se_e2e E" and "\<not> se_unverified E"
  shows "\<exists>storage server. lc_connect (se_light_client E) (db_path (ec_light_client ec)) = Inr storage \<and>
    lc_fallback_client (se_light_client E) (reader_query_urls ec) (fallback_delay_ms (ec_light_client ec)) = Inr server \<and>
    r = VerifiedReader (lc_from_genesis (se_light_client E) storage server (genesis (ec_light_client ec))
          (num_stake_tables_in_memory (ec_light_client ec)))"
  using assms
  by (auto simp: build_reader_def light_client_reader_new_def and_then_eq_Inr map_err_eq_Inr Let_def)

lemma main_nitro_Inr:
  assumes "run_state (main_nitro N E cfg) w = (Inr svc, w')"
  obtains cfg' key w1 where "run_state (load_config E cfg) w = (Inr (cfg', key), w1)"
    and "run_state (setup_key_manager E cfg' key) w1 = (Inr (run_key_manager svc), w')"
    and "build_service N E cfg' (run_key_manager svc) (run_l1_monitor svc) = Inr svc"
proof -
  obtain cfg' key w1 km mon where l: "run_state (load_config E cfg) w = (Inr (cfg', key), w1)"
    and s: "run_state (setup_key_manager E cfg' key) w1 = (Inr km, w')"
    and b: "build_service N E cfg' km mon = Inr svc"
    using assms by (auto simp: main_nitro_def run_io_then_Inr run_ret_Inr result_eqs)
  show ?thesis
    by (rule build_service_Inr [OF b]) (use that l s b in auto)
qed

subsection \<open>What the submitter builds is what the streamer reads\<close>

lemma built_payloads_read:
  assumes "json_inverts J" and "js_header_to_vec J V1 = Inr hb" and "length (frame hb) \<le> HOTSHOT_TX_PAYLOAD_MAX_SIZE"
    and "\<forall>m \<in> set (concat batches). fits J (length (frame hb)) m"
    and "map (build_tx_fn J) batches = map Some built"
  shows "concat (map (read_payload J ncfg verify) (concat built)) =
    delivered J (verify (chain_id ncfg) (trusted_sequencer_addresses (feed_client (feed ncfg)))) (concat batches)"
  using assms(4,5)
proof (induction batches arbitrary: built)
  case Nil
  then show ?case by (simp add: delivered_def)
next
  case (Cons b batches)
  obtain txs built' where built: "built = txs # built'" "build_tx_fn J b = Some txs"
    "map (build_tx_fn J) batches = map Some built'"
    using Cons.prems(2) by (auto simp: Cons_eq_map_conv)
  have "concat (map (read_payload J ncfg verify) txs) =
      delivered J (verify (chain_id ncfg) (trusted_sequencer_addresses (feed_client (feed ncfg)))) b"
    using build_tx_loop_total [OF assms(1,2,3), where ms = b and cfg = ncfg and verify = verify and txes = "[]"] Cons.prems(1) built(2)
    by (auto simp: build_tx_fn_def)
  moreover have "concat (map (read_payload J ncfg verify) (concat built')) =
      delivered J (verify (chain_id ncfg) (trusted_sequencer_addresses (feed_client (feed ncfg)))) (concat batches)"
    using Cons.prems(1) by (intro Cons.IH built(3)) auto
  ultimately show ?case by (simp add: built(1) delivered_def)
qed

end
