(* ===== verification/Net_Proxy.thy ===== *)
theory Net_Proxy
  imports Std_Io Rollup
begin

text \<open>
  The WebSocket connectors that go through the egress proxy (\<open>src/ws_proxy_connect.rs\<close>). URLs, TCP, the proxy's
  \<open>CONNECT\<close>, TLS and the WebSocket handshake are parameters.
\<close>

record net_url =
  nu_scheme :: string
  nu_host :: "string option"
  nu_port :: "nat option"

record ('w, 'tcp, 'ws) net =
  nt_var :: "string \<Rightarrow> string option"
  nt_parse :: "string \<Rightarrow> r_error + net_url"
  nt_tcp_connect :: "string \<Rightarrow> nat \<Rightarrow> ('w, r_error, 'tcp) io"
  nt_http_connect :: "'tcp \<Rightarrow> string \<Rightarrow> nat \<Rightarrow> ('w, r_error, unit) io"
  nt_server_name :: "string \<Rightarrow> bool"
  nt_tls :: "string \<Rightarrow> 'tcp \<Rightarrow> ('w, r_error, 'tcp) io"
  nt_client_request :: "string \<Rightarrow> r_error option"
  nt_client_async_tls :: "string \<Rightarrow> 'tcp \<Rightarrow> ('w, r_error, 'ws) io"
  nt_handshake :: "net_url \<Rightarrow> 'tcp \<Rightarrow> ('w, r_error, 'ws) io"

definition select_proxy :: "bool \<Rightarrow> (string \<Rightarrow> string option) \<Rightarrow> string option" where
  "select_proxy is_secure get =
     (let vars = (if is_secure then [''HTTPS_PROXY'', ''https_proxy''] else [''HTTP_PROXY'', ''http_proxy''])
      in case filter (\<lambda>v. v \<noteq> None \<and> v \<noteq> Some []) (map get vars) of
           [] \<Rightarrow> None
         | v # _ \<Rightarrow> v)"

definition open_tcp :: "('w, 'tcp, 'ws) net \<Rightarrow> string \<Rightarrow> nat \<Rightarrow> bool \<Rightarrow> ('w, r_error, 'tcp) io" where
  "open_tcp N target_host target_port is_secure =
     (case select_proxy is_secure (nt_var N) of
        None \<Rightarrow> nt_tcp_connect N target_host target_port
      | Some proxy_url \<Rightarrow>
          io_then (ret (nt_parse N proxy_url)) (\<lambda>proxy.
          io_then (ret (ok_or ''proxy url missing host'' (nu_host proxy))) (\<lambda>proxy_host.
          io_then (ret (ok_or ''proxy url missing port'' (nu_port proxy))) (\<lambda>proxy_port.
          io_then (nt_tcp_connect N proxy_host proxy_port) (\<lambda>tcp.
          io_then (nt_http_connect N tcp target_host target_port) (\<lambda>_.
          ret (Inr tcp)))))))"

text \<open>The connector of the L1 provider.\<close>

definition ws_proxy_connect :: "('w, 'tcp, 'ws) net \<Rightarrow> string \<Rightarrow> ('w, r_error, 'ws) io" where
  "ws_proxy_connect N url_text =
     io_then (ret (nt_parse N url_text)) (\<lambda>url.
     io_then (ret (ok_or ''ws url missing host'' (nu_host url))) (\<lambda>host.
     io_then (ret (ok_or ''ws url missing port'' (nu_port url))) (\<lambda>port.
     if nu_scheme url \<noteq> ''ws'' \<and> nu_scheme url \<noteq> ''wss''
     then ret (Inl (''unsupported scheme '' @ nu_scheme url))
     else
       io_then (open_tcp N host port (nu_scheme url = ''wss'')) (\<lambda>tcp.
       case nt_client_request N url_text of
         Some e \<Rightarrow> ret (Inl e)
       | None \<Rightarrow> nt_client_async_tls N url_text tcp))))"

text \<open>The connector of the feed client.\<close>

definition connect_yawc :: "('w, 'tcp, 'ws) net \<Rightarrow> net_url \<Rightarrow> ('w, r_error, 'ws) io" where
  "connect_yawc N url =
     io_then (ret (ok_or ''ws url missing host'' (nu_host url))) (\<lambda>host.
     io_then (ret (ok_or ''ws url missing port'' (nu_port url))) (\<lambda>port.
     io_then (io_map_err (\<lambda>e. ''open_tcp failed: '' @ e) (open_tcp N host port (nu_scheme url = ''wss''))) (\<lambda>tcp.
     io_then (if nu_scheme url = ''ws'' then ret (Inr tcp)
              else if nu_scheme url = ''wss'' then
                (if \<not> nt_server_name N host then ret (Inl (''invalid DNS name for SNI: '' @ host))
                 else io_map_err (\<lambda>e. ''TLS handshake to '' @ host @ '':'' @ show_nat port @ '' failed'')
                   (nt_tls N host tcp))
              else ret (Inl (''unsupported scheme '' @ nu_scheme url))) (\<lambda>stream.
     io_map_err (\<lambda>e. ''yawc handshake failed'') (nt_handshake N url stream)))))"

subsection \<open>Egress\<close>

text \<open>
  \<open>dialled w\<close> is the log of the hosts a TCP connection was opened to; only \<open>nt_tcp_connect\<close> adds to it. \<open>dials_only H m\<close>: a
  run of \<open>m\<close> adds hosts of \<open>H\<close> only.
\<close>

definition dials_only :: "('w \<Rightarrow> string list) \<Rightarrow> string set \<Rightarrow> ('w, 'a) state \<Rightarrow> bool" where
  "dials_only dialled H m \<longleftrightarrow>
     (\<forall>w. \<exists>hs. dialled (snd (run_state m w)) = dialled w @ hs \<and> set hs \<subseteq> H)"

definition logs_dials :: "('w \<Rightarrow> string list) \<Rightarrow> ('w, 'tcp, 'ws) net \<Rightarrow> bool" where
  "logs_dials dialled N \<longleftrightarrow>
     (\<forall>h p. dials_only dialled {h} (nt_tcp_connect N h p)) \<and>
     (\<forall>tcp h p. dials_only dialled {} (nt_http_connect N tcp h p)) \<and>
     (\<forall>h tcp. dials_only dialled {} (nt_tls N h tcp)) \<and>
     (\<forall>u tcp. dials_only dialled {} (nt_client_async_tls N u tcp)) \<and>
     (\<forall>u tcp. dials_only dialled {} (nt_handshake N u tcp))"

lemma io_then_ret [simp]:
  "io_then (ret (Inr x)) f = f x"
  "io_then (ret (Inl e)) f = ret (Inl e)"
  by (simp_all add: io_then_def)

lemma dials_ret [simp]: "dials_only dialled H (ret x)"
  by (simp add: dials_only_def)

lemma dials_none: "dials_only dialled {} m \<Longrightarrow> dials_only dialled H m"
  unfolding dials_only_def by (metis order_trans empty_subsetI)

lemma dials_then:
  assumes "dials_only dialled H m" and "\<And>x. dials_only dialled H (f x)"
  shows "dials_only dialled H (io_then m f)"
  unfolding dials_only_def
proof
  fix w
  obtain r w1 where m: "run_state m w = (r, w1)" by fastforce
  obtain hs where h: "dialled w1 = dialled w @ hs" "set hs \<subseteq> H"
    using assms(1) [unfolded dials_only_def, THEN spec, of w] m by auto
  show "\<exists>hs. dialled (snd (run_state (io_then m f) w)) = dialled w @ hs \<and> set hs \<subseteq> H"
  proof (cases r)
    case (Inl e)
    then show ?thesis using h m by (auto simp: run_io_then)
  next
    case (Inr x)
    obtain hs' where "dialled (snd (run_state (f x) w1)) = dialled w1 @ hs'" "set hs' \<subseteq> H"
      using assms(2) [unfolded dials_only_def, THEN spec, of x w1] by blast
    then show ?thesis using h m Inr by (intro exI [of _ "hs @ hs'"]) (simp add: run_io_then)
  qed
qed

lemma dials_map_err: "dials_only dialled H m \<Longrightarrow> dials_only dialled H (io_map_err g m)"
  unfolding dials_only_def by (auto simp: run_io_map_err split: prod.splits) (metis snd_conv)

lemma select_proxy_nonempty: "select_proxy is_secure get = Some p \<Longrightarrow> p \<noteq> []"
  by (auto simp: select_proxy_def Let_def split: if_splits)

text \<open>With a proxy, whatever the target is, only the proxy's host is dialled.\<close>

lemma open_tcp_proxied:
  assumes "logs_dials dialled N" and "select_proxy is_secure (nt_var N) = Some proxy_url"
    and "nt_parse N proxy_url = Inr proxy" and "nu_host proxy = Some host"
  shows "dials_only dialled {host} (open_tcp N target_host target_port is_secure)"
proof -
  have "dials_only dialled {host} (nt_tcp_connect N host p)" for p
    using assms(1) by (simp add: logs_dials_def)
  moreover have "dials_only dialled {host} (nt_http_connect N tcp h p)" for tcp h p
    using assms(1) by (simp add: logs_dials_def dials_none)
  ultimately have rest: "dials_only dialled {host}
    (io_then (nt_tcp_connect N host p) (\<lambda>tcp.
     io_then (nt_http_connect N tcp target_host target_port) (\<lambda>_. ret (Inr tcp))))" for p
    by (intro dials_then) simp_all
  show ?thesis
    using assms(2,3,4) rest by (cases "nu_port proxy") (simp_all add: open_tcp_def)
qed

lemma ws_proxy_connect_proxied:
  assumes "logs_dials dialled N" and "select_proxy is_secure (nt_var N) = Some proxy_url"
    and "nt_parse N proxy_url = Inr proxy" and "nu_host proxy = Some host"
    and "nt_parse N url_text = Inr url" and "is_secure = (nu_scheme url = ''wss'')"
  shows "dials_only dialled {host} (ws_proxy_connect N url_text)"
proof -
  have quiet: "dials_only dialled {host} (nt_client_async_tls N u tcp)" for u tcp
    using assms(1) by (simp add: logs_dials_def dials_none)
  have op: "dials_only dialled {host} (open_tcp N h p (nu_scheme url = ''wss''))" for h p
    using open_tcp_proxied [OF assms(1,2,3,4)] assms(6) by simp
  have "dials_only dialled {host} (io_then (open_tcp N h p (nu_scheme url = ''wss'')) (\<lambda>tcp.
       case nt_client_request N url_text of Some e \<Rightarrow> ret (Inl e) | None \<Rightarrow> nt_client_async_tls N url_text tcp))" for h p
    by (intro dials_then op) (simp add: quiet split: option.split)
  then show ?thesis
    using assms(5) by (cases "nu_host url"; cases "nu_port url") (simp_all add: ws_proxy_connect_def)
qed

lemma connect_yawc_proxied:
  assumes "logs_dials dialled N" and "select_proxy is_secure (nt_var N) = Some proxy_url"
    and "nt_parse N proxy_url = Inr proxy" and "nu_host proxy = Some host"
    and "is_secure = (nu_scheme url = ''wss'')"
  shows "dials_only dialled {host} (connect_yawc N url)"
proof -
  have quiet: "dials_only dialled {host} (nt_tls N h tcp)" "dials_only dialled {host} (nt_handshake N u tcp)" for h u tcp
    using assms(1) by (simp_all add: logs_dials_def dials_none)
  have op: "dials_only dialled {host} (open_tcp N h p (nu_scheme url = ''wss''))" for h p
    using open_tcp_proxied [OF assms(1,2,3,4)] assms(5) by simp
  show ?thesis
    unfolding connect_yawc_def by (intro dials_then dials_map_err op quiet) (auto intro!: dials_map_err quiet)
qed

end
