(* ===== verification/Concrete_Service.thy ===== *)
theory Concrete_Service
  imports Concrete Service Net_Proxy
begin

text \<open>
  Concrete outside functions for the service components: a signature scheme in which a signature is the hash itself, a
  JSON codec on the value type, HTTP endpoints with fixed answers, an L1 node with one event, and contracts and
  devices over a small world.
\<close>

subsection \<open>Signing and JSON\<close>

definition c_pad :: "b256 \<Rightarrow> bytes" where
  "c_pad h = take 64 (h @ replicate 64 0)"

definition c_sign :: sign_lib where
  "c_sign = \<lparr>sl_keccak256 = (\<lambda>b. b), sl_eip712_hash = (\<lambda>d h. h), sl_abi_encode_journal = (\<lambda>j. [1]),
     sl_signature_try_from = (\<lambda>b. if length b = 65 then Inr (take 64 b, b ! 64 = 1) else Inl ''length''),
     sl_recover = (\<lambda>(rs, parity) h. if rs = c_pad h then Inr c_key else Inl ''signature'')\<rparr>"

definition c_signer :: private_key_signer where
  "c_signer = \<lparr>signer_addr = c_key, signer_public_key = [4], sign_hash_sync = (\<lambda>h. Inr (c_pad h @ [0]))\<rparr>"

fun c_json_bytes :: "json_value \<Rightarrow> r_error + bytes" where
  "c_json_bytes (JArray vs) = Inr (map (\<lambda>v. case v of JInt n \<Rightarrow> word_of_int n | _ \<Rightarrow> 0) vs)"
| "c_json_bytes v = Inl ''bytes''"

definition c_bytes_json :: "bytes \<Rightarrow> json_value" where
  "c_bytes_json b = JArray (map (\<lambda>x. JInt (uint x)) b)"

definition c_serde :: serde_lib where
  "c_serde = \<lparr>sd_from_slice = (\<lambda>b. if b = [1] then Inr (JObject [(''error'', JString NITRO_ERR_FALLBACK_REQUESTED)])
       else Inr (JObject [(''result'', JArray [JInt 128, JInt 5])])),
     sd_to_vec = (\<lambda>v. Inr [9]), sd_to_string = (\<lambda>v. ''json''),
     sd_de_bytes = c_json_bytes, sd_ser_bytes = c_bytes_json,
     sd_de_u64 = (\<lambda>v. case v of JInt n \<Rightarrow> Inr (word_of_int n) | _ \<Rightarrow> Inl ''u64''), sd_ser_u64 = (\<lambda>n. JInt (uint n)),
     sd_de_b256 = c_json_bytes, sd_ser_b256 = c_bytes_json,
     sd_de_store_response = c_json_bytes, sd_ser_store_response = c_bytes_json,
     sd_de_jsonrpc_error = (\<lambda>v. case v of JString s \<Rightarrow> Inr s | _ \<Rightarrow> Inl ''error''),
     sd_hex_encode = (\<lambda>b. concat (map show_hex2 b)), sd_hex_decode = (\<lambda>s. Inl ''hex'')\<rparr>"

lemma length_c_pad [simp]: "length (c_pad h) = 64"
  by (simp add: c_pad_def)

lemma c_signer_ok: "signer_ok c_sign c_signer"
  by (simp add: signer_ok_def c_sign_def c_signer_def)

lemma c_serde_to_vec [simp]: "sd_to_vec c_serde v = Inr [9]"
  by (simp add: c_serde_def)

lemma c_bytes_json_inverts: "c_json_bytes (c_bytes_json b) = Inr b"
  by (simp add: c_bytes_json_def map_idI)

lemma c_serde_inverts: "serde_inverts c_serde"
  by (simp add: serde_inverts_def c_serde_def c_bytes_json_inverts)

subsection \<open>The DA server\<close>

definition c_tee_verifier :: "unit espresso_tee_verifier" where
  "c_tee_verifier = \<lparr>register_service = (\<lambda>j p t. ret (Inr ())), registered_services = (\<lambda>a t. ret (Inr True))\<rparr>"

definition c_key_manager :: "unit key_manager" where
  "c_key_manager = \<lparr>km_tee_verifier = c_tee_verifier, km_generate_zk_proof = (\<lambda>b. ret (Inr ([1], [2]))),
     km_get_attestation = (\<lambda>b. ret (Inr [3])), max_register_attempts = 3, km_tee_type = TeeNitro, km_signer = c_signer,
     parent_chain_id = 1, tee_verifier_address = replicate 20 2\<rparr>"

text \<open>The primary endpoint asks for a fallback and the AnyTrust one returns a certificate.\<close>

definition c_http :: "unit http_client" where
  "c_http = \<lparr>hc_post_json = (\<lambda>url v. ret (Inr (200, Inr (if url = ''http://primary'' then [1] else [2])))),
     hc_post_raw = (\<lambda>url b. ret (Inr (200, Inr b)))\<rparr>"

text \<open>Verification by the streamer in the state with the first two messages.\<close>

definition c_verify :: "bytes \<Rightarrow> (unit, r_error, verification_result) io" where
  "c_verify data = ret (Inr (handle_verification (nitro_rollup c_libs) None data (rs_streamer c_run1)))"

definition c_calldata_state :: "unit server_state" where
  "c_calldata_state = provider_state c_http c_verify c_key_manager 1000000 calldata_provider"

definition c_fallback_state :: "unit server_state" where
  "c_fallback_state = provider_state c_http c_verify c_key_manager 1000000
     \<lparr>prov_name = ''celestia'', endpoint_url = ''http://primary'', is_anytrust = False,
      anytrust_fallback_url = Some ''http://anytrust''\<rparr>"

definition c_store_body :: json_value where
  "c_store_body = JObject [(''method'', JString STORE), (''id'', JInt 1),
     (''params'', JArray [c_bytes_json c_batch, JInt 60])]"

lemma c_verification_ok:
  "success (handle_verification (nitro_rollup c_libs) None c_batch (rs_streamer c_run1))"
  unfolding handle_verification_def c_run1_queue nitro_rollup_simps by code_simp

lemma c_store_params: "store_params c_serde c_store_body = Inr (c_batch, 60)"
  by (simp add: store_params_def c_serde_def c_store_body_def json_index_def json_get_def json_as_array_def
      c_bytes_json_inverts)

lemma c_calldata_simps [simp]:
  "srv_verify c_calldata_state = c_verify" "srv_key_manager c_calldata_state = c_key_manager"
  "current_endpoint c_calldata_state = []" "within_limit c_calldata_state c_batch"
  "prov_name (srv_config c_calldata_state) = ''calldata''"
  by (simp_all add: c_calldata_state_def provider_state_def server_state_new_def calldata_provider_def
      current_endpoint_def within_limit_def c_batch_def Let_def)

lemma c_build_certificate:
  assumes "km_signer km = c_signer"
  shows "\<exists>cert. build_espresso_certificate c_sign km a b c d e c_batch = Inr cert"
  by (simp add: build_espresso_certificate_def sign_payload_def sign_message_def sign_typed_message_def assms
      c_signer_def c_batch_def Let_def)

text \<open>Storing the batch on a route without an endpoint.\<close>

lemma c_store_run:
  assumes "srv_verify st c_batch = ret (Inr (handle_verification (nitro_rollup c_libs) None c_batch (rs_streamer c_run1)))"
    and "current_endpoint st = []" and "within_limit st c_batch" and "km_signer (srv_key_manager st) = c_signer"
  shows "\<exists>resp. run_state (handle_store c_serde c_sign st c_store_body) w = (Inr resp, w)"
proof -
  let ?v = "handle_verification (nitro_rollup c_libs) None c_batch (rs_streamer c_run1)"
  obtain cert where b: "build_espresso_certificate c_sign (srv_key_manager st) (start_message_position ?v)
      (end_message_position ?v) (start_espresso_block ?v) (after_delayed_messages_read ?v)
      (min_espresso_block_still_in_queue ?v) c_batch = Inr cert"
    using c_build_certificate [OF assms(4)] by blast
  have "wf_cert cert" using built_certificate_valid(1) [OF _ b] c_signer_ok assms(4) by simp
  then show ?thesis
    using c_verification_ok b assms
    by (simp add: handle_store_split c_store_params resolve_downstream_cert_def store_response_def da_store_response_def
        cert_to_bytes_wf json_response_def)
qed

lemma c_store_ok: "\<exists>resp. run_state (handle_store c_serde c_sign c_calldata_state c_store_body) () = (Inr resp, ())"
  by (rule c_store_run) (simp_all add: c_verify_def c_key_manager_def)

end
