(* ===== verification/Props_Da.thy ===== *)
theory Props_Da
  imports Concrete_Service
begin

text \<open>
  The properties of the data-availability interface: what a stored batch's certificate says, where the downstream
  certificate comes from, that recovery inverts storing and trusts only signed certificates, and the wire format.
\<close>

subsection \<open>Store\<close>

text \<open>
  C6. When \<open>handle_store\<close> answers, the batch was within the size limit and the streamer
  verified it. The answer is either the downstream provider's own answer, passed on, or it holds a certificate
  over the verified range and heights and over the downstream certificate, and this certificate validates against the
  service's key, parent chain and verifier contract.
\<close>

theorem store_certifies_verified:
  assumes "signer_ok L (km_signer (srv_key_manager st))"
    and "run_state (handle_store S L st body) w = (Inr resp, w')"
  shows "\<exists>data timeout v w1. store_params S body = Inr (data, timeout) \<and> within_limit st data \<and>
    run_state (srv_verify st data) w = (Inr v, w1) \<and> success v \<and>
    (run_state (resolve_downstream_cert S st data timeout (json_index body ''id'')) w1 =
       (Inr (DownstreamForward resp), w') \<or>
     (\<exists>downstream cert.
        run_state (resolve_downstream_cert S st data timeout (json_index body ''id'')) w1 =
          (Inr (DownstreamCert downstream), w') \<and>
        wf_cert cert \<and> certified v downstream cert \<and>
        cert_validate L cert (signer_addr (km_signer (srv_key_manager st))) (parent_chain_id (srv_key_manager st))
          (tee_verifier_address (srv_key_manager st)) = Inr () \<and>
        sd_to_vec S (store_answer_value S (json_index body ''id'') cert) = Inr (resp_body resp) \<and>
        resp_status resp = 200))"
  by (rule handle_store_Inr [OF assms])

theorem store_certifies_verified_witness:
  "(\<exists>resp. run_state (handle_store c_serde c_sign c_calldata_state c_store_body) () = (Inr resp, ())) \<and>
   (\<exists>cert. wf_cert cert \<and> cc_downstream cert = c_batch \<and>
      cert_validate c_sign cert c_key 1 (replicate 20 2) = Inr ())"
proof -
  obtain resp where r: "run_state (handle_store c_serde c_sign c_calldata_state c_store_body) () = (Inr resp, ())"
    using c_store_ok by blast
  have km: "km_signer c_key_manager = c_signer" "parent_chain_id c_key_manager = 1"
    "tee_verifier_address c_key_manager = replicate 20 2" "signer_addr c_signer = c_key"
    by (simp_all add: c_key_manager_def c_signer_def)
  have "\<exists>cert. wf_cert cert \<and> cc_downstream cert = c_batch \<and>
      cert_validate c_sign cert c_key 1 (replicate 20 2) = Inr ()"
    using store_certifies_verified [of c_sign c_calldata_state, OF _ r] c_signer_ok
    by (auto simp: km c_store_params resolve_downstream_cert_def certified_def)
  then show ?thesis using r by blast
qed

text \<open>
  C25. A downstream certificate is the data itself when no endpoint is configured; else it is the
  primary endpoint's certificate; else, when the primary endpoint asked for a fallback, it is the AnyTrust endpoint's
  certificate; and only when that asks for a fallback too (or is not configured) and the data with the Espresso
  certificate fits the calldata limit it is the data. No other answer becomes a certificate.
\<close>

theorem store_fallback_chain:
  assumes "run_state (resolve_downstream_cert S st data timeout rid) w = (Inr (DownstreamCert cert), w')"
  shows "(current_endpoint st = [] \<and> cert = data \<and> w' = w) \<or>
    run_state (store_via S st (current_endpoint st) data timeout rid) w = (Inr (StoreCert cert), w') \<or>
    (\<exists>reason w1. run_state (store_via S st (current_endpoint st) data timeout rid) w = (Inr (StoreFallback reason), w1) \<and>
       (case anytrust_endpoint st of
          Some url \<Rightarrow>
            run_state (store_via S st url data timeout rid) w1 = (Inr (StoreCert cert), w') \<or>
            (\<exists>reason2. run_state (store_via S st url data timeout rid) w1 = (Inr (StoreFallback reason2), w') \<and>
               cert = data \<and> of_nat ESPRESSO_CERT_SIZE + of_nat (length data) \<le> srv_calldata_max_size st)
        | None \<Rightarrow> w1 = w' \<and> cert = data \<and>
            of_nat ESPRESSO_CERT_SIZE + of_nat (length data) \<le> srv_calldata_max_size st))"
  by (rule resolve_downstream_cert_Inr [OF assms])

lemma c_fallback_run:
  "run_state (store_via c_serde c_fallback_state ''http://primary'' data timeout rid) () =
     (Inr (StoreFallback NITRO_ERR_FALLBACK_REQUESTED), ())"
  "run_state (store_via c_serde c_fallback_state ''http://anytrust'' data timeout rid) () =
     (Inr (StoreCert [128, 5]), ())"
  "current_endpoint c_fallback_state = ''http://primary''"
  "anytrust_endpoint c_fallback_state = Some ''http://anytrust''"
proof -
  have st: "srv_client c_fallback_state = c_http" "current_endpoint c_fallback_state = ''http://primary''"
    "anytrust_endpoint c_fallback_state = Some ''http://anytrust''"
    by (simp_all add: c_fallback_state_def provider_state_def server_state_new_def current_endpoint_def
        anytrust_endpoint_def Let_def)
  have too_large: "\<not> str_contains NITRO_ERR_MESSAGE_TOO_LARGE NITRO_ERR_FALLBACK_REQUESTED" by code_simp
  have fallback: "str_contains NITRO_ERR_FALLBACK_REQUESTED NITRO_ERR_FALLBACK_REQUESTED" by code_simp
  show "run_state (store_via c_serde c_fallback_state ''http://primary'' data timeout rid) () =
     (Inr (StoreFallback NITRO_ERR_FALLBACK_REQUESTED), ())"
    using too_large fallback
    by (simp add: store_via_def run_io_then run_io_map_err st c_http_def store_answer_def is_success_def c_serde_def
        json_get_def error_of_jsonrpc_def)
  show "run_state (store_via c_serde c_fallback_state ''http://anytrust'' data timeout rid) () =
     (Inr (StoreCert [128, 5]), ())"
    by (simp add: store_via_def run_io_then run_io_map_err st c_http_def store_answer_def is_success_def c_serde_def
        json_get_def json_index_def)
qed (simp_all add: c_fallback_state_def provider_state_def server_state_new_def current_endpoint_def
    anytrust_endpoint_def Let_def)

theorem store_fallback_chain_witness:
  "run_state (resolve_downstream_cert c_serde c_fallback_state c_batch 60 (JInt 1)) () =
     (Inr (DownstreamCert [128, 5]), ()) \<and>
   run_state (store_via c_serde c_fallback_state ''http://anytrust'' c_batch 60 (JInt 1)) () =
     (Inr (StoreCert [128, 5]), ())"
proof -
  have r: "run_state (resolve_downstream_cert c_serde c_fallback_state c_batch 60 (JInt 1)) () =
     (Inr (DownstreamCert [128, 5]), ())"
    by (simp add: resolve_downstream_cert_def run_io_then c_fallback_run Let_def)
  have "\<not> (c_batch = [128, 5])" by code_simp
  with store_fallback_chain [OF r] r show ?thesis by (auto simp: c_fallback_run)
qed

subsection \<open>Recover\<close>

lemma da_certificate_of_valid:
  assumes "wf_cert cert" and "length hdr = SEQUENCER_HEADER_LEN"
    and "cert_validate L cert (signer_addr (km_signer (srv_key_manager st))) (parent_chain_id (srv_key_manager st))
      (tee_verifier_address (srv_key_manager st)) = Inr ()"
  shows "da_certificate_of L st (hdr @ cert_layout cert) = Inr (hdr @ cc_downstream cert)"
  using assms cert_roundtrip [OF assms(1)] length_cert_layout [OF assms(1)] byte_at_layout [OF assms(1,2)]
  by (simp add: da_certificate_of_def try_extract_da_sequencer_msg_def)

text \<open>
  C7. On the calldata route, whatever was stored can be recovered: if storing a batch
  answers, every recover method, called with any sequencer header followed by the returned certificate, answers with
  exactly the batch and sends nothing downstream.
\<close>

theorem store_recover_roundtrip:
  assumes "signer_ok L (km_signer (srv_key_manager st))" and "serde_inverts S"
    and "prov_name (srv_config st) = ''calldata''" and "current_endpoint st = []"
    and "store_params S body = Inr (data, timeout)"
    and "run_state (handle_store S L st body) w = (Inr resp, w')"
  shows "\<exists>cert. sd_to_vec S (store_answer_value S (json_index body ''id'') cert) = Inr (resp_body resp) \<and>
    (\<forall>hdr batch_hash batch_num recover rid w2. length hdr = SEQUENCER_HEADER_LEN \<and> length batch_hash = 32 \<longrightarrow>
       run_state (handle_recover_inner S L st
         (recover_request S recover batch_num batch_hash (hdr @ cert_layout cert) rid) recover) w2 =
       (payload_response S rid data, w2))"
proof -
  obtain v w1 downstream cert where
    d: "run_state (resolve_downstream_cert S st data timeout (json_index body ''id'')) w1 =
          (Inr (DownstreamCert downstream), w')"
    and c: "wf_cert cert" "certified v downstream cert"
      "cert_validate L cert (signer_addr (km_signer (srv_key_manager st))) (parent_chain_id (srv_key_manager st))
          (tee_verifier_address (srv_key_manager st)) = Inr ()"
      "sd_to_vec S (store_answer_value S (json_index body ''id'') cert) = Inr (resp_body resp)"
    using handle_store_Inr [OF assms(1,6)] assms(4,5) by (auto simp: resolve_downstream_cert_def)
  have dc: "cc_downstream cert = data"
    using d c(2) assms(4) by (simp add: resolve_downstream_cert_def certified_def)
  have "run_state (handle_recover_inner S L st
         (recover_request S recover batch_num batch_hash (hdr @ cert_layout cert) rid) recover) w2 =
       (payload_response S rid data, w2)"
    if l: "length hdr = SEQUENCER_HEADER_LEN" "length batch_hash = 32" for hdr batch_hash batch_num recover rid w2
  proof -
    let ?body = "recover_request S recover batch_num batch_hash (hdr @ cert_layout cert) rid"
    have p: "recover_params S ?body = Inr (batch_num, batch_hash, hdr @ cert_layout cert)"
      using recover_params_request [OF assms(2) l(2)] l(1) length_cert_layout [OF c(1)] by simp
    have da: "da_certificate_of L st (hdr @ cert_layout cert) = Inr (hdr @ data)"
      using da_certificate_of_valid [OF c(1) l(1) c(3)] dc by simp
    have "json_index ?body ''id'' = rid" by (simp add: recover_request_def json_index_def json_get_def)
    then show ?thesis using handle_recover_calldata [OF p da] assms(3) l(1) by simp
  qed
  then show ?thesis using c(4) by blast
qed

theorem store_recover_roundtrip_witness:
  "\<exists>cert. run_state (handle_recover_inner c_serde c_sign c_calldata_state
      (recover_request c_serde RECOVER_PAYLOAD 5 (replicate 32 1) (replicate 40 2 @ cert_layout cert) (JInt 7))
      RECOVER_PAYLOAD) () = (payload_response c_serde (JInt 7) c_batch, ())"
proof -
  obtain resp where r: "run_state (handle_store c_serde c_sign c_calldata_state c_store_body) () = (Inr resp, ())"
    using c_store_ok by blast
  have "signer_ok c_sign (km_signer (srv_key_manager c_calldata_state))"
    using c_signer_ok by (simp add: c_key_manager_def)
  then obtain cert where "\<forall>hdr batch_hash batch_num recover rid w2.
      length hdr = SEQUENCER_HEADER_LEN \<and> length batch_hash = 32 \<longrightarrow>
       run_state (handle_recover_inner c_serde c_sign c_calldata_state
         (recover_request c_serde recover batch_num batch_hash (hdr @ cert_layout cert) rid) recover) w2 =
       (payload_response c_serde rid c_batch, w2)"
    using store_recover_roundtrip [OF _ c_serde_inverts _ _ c_store_params r] by fastforce
  then show ?thesis by (intro exI [of _ cert]) (simp add: SEQUENCER_HEADER_LEN_def)
qed

text \<open>
  C21. A sequencer message that carries an Espresso certificate is only answered, and only
  passed on to a downstream provider, when it is a header followed by a certificate whose signature recovers to the
  service's own key over the hash of exactly the certified fields; otherwise the handler fails and no request is made.
\<close>

theorem recover_trusts_only_signed:
  assumes "recover_params S body = Inr (batch_num, batch_hash, msg)"
    and "byte_at SEQUENCER_HEADER_LEN msg = Some ESPRESSO_HEADER_BYTE"
  shows "(\<exists>e. run_state (handle_recover_inner S L st body recover) w = (Inl e, w)) \<or>
    (\<exists>cert rs. msg = take SEQUENCER_HEADER_LEN msg @ cert_layout cert \<and>
       da_certificate_of L st msg = Inr (take SEQUENCER_HEADER_LEN msg @ cc_downstream cert) \<and>
       sl_signature_try_from L (cc_signature cert) = Inr rs \<and>
       sl_recover L rs (compute_cas_signing_hash L (signing_payload cert) (parent_chain_id (srv_key_manager st))
         (tee_verifier_address (srv_key_manager st))) = Inr (signer_addr (km_signer (srv_key_manager st))))"
proof (cases "da_certificate_of L st msg")
  case (Inl e)
  from handle_recover_error [OF assms(1) this] show ?thesis by blast
next
  case (Inr out)
  from da_certificate_of_signed [OF this assms(2)] show ?thesis using Inr by auto
qed

theorem recover_trusts_only_signed_witness:
  "\<exists>e. run_state (handle_recover_inner c_serde c_sign c_calldata_state
      (recover_request c_serde RECOVER_PAYLOAD 5 (replicate 32 1) (replicate 40 2 @ [0x70, 1]) (JInt 7))
      RECOVER_PAYLOAD) () = (Inl e, ())"
proof -
  let ?msg = "replicate 40 2 @ [0x70, 1] :: bytes"
  have p: "recover_params c_serde (recover_request c_serde RECOVER_PAYLOAD 5 (replicate 32 1) ?msg (JInt 7)) =
      Inr (5, replicate 32 1, ?msg)"
    by (simp add: recover_params_request [OF c_serde_inverts] SEQUENCER_HEADER_LEN_def)
  have b: "byte_at SEQUENCER_HEADER_LEN ?msg = Some ESPRESSO_HEADER_BYTE"
    by (simp add: byte_at_def SEQUENCER_HEADER_LEN_def ESPRESSO_HEADER_BYTE_def nth_append)
  have "da_certificate_of c_sign c_calldata_state ?msg \<noteq> Inr out" for out
    using b by (simp add: da_certificate_of_def try_extract_da_sequencer_msg_def SEQUENCER_HEADER_LEN_def
        cert_from_bytes_eq)
  then show ?thesis using recover_trusts_only_signed [OF p b, of c_sign c_calldata_state RECOVER_PAYLOAD "()"] by blast
qed

subsection \<open>The certificate\<close>

text \<open>
  C22. The wire format is exact: bytes parse to a certificate precisely when that
  certificate has a 32-byte header with the version byte and a 65-byte signature and serializes to these bytes. So
  parsing and serializing invert each other and no two byte strings parse to the same certificate.
\<close>

theorem certificate_wire_exact:
  "cert_from_bytes data = Inr cert \<longleftrightarrow>
     length (cc_header cert) = 32 \<and> cc_header cert ! 0 = 0x70 \<and> length (cc_signature cert) = 65 \<and>
     cert_to_bytes cert = Inr data"
proof
  assume a: "cert_from_bytes data = Inr cert"
  from cert_from_bytes_Inr [OF a] show "length (cc_header cert) = 32 \<and> cc_header cert ! 0 = 0x70 \<and>
      length (cc_signature cert) = 65 \<and> cert_to_bytes cert = Inr data"
    using cert_to_bytes_wf by (auto simp: wf_cert_def)
next
  assume a: "length (cc_header cert) = 32 \<and> cc_header cert ! 0 = 0x70 \<and> length (cc_signature cert) = 65 \<and>
     cert_to_bytes cert = Inr data"
  then have wf: "wf_cert cert" by (simp add: wf_cert_def)
  then have "data = cert_layout cert" using a cert_to_bytes_wf by auto
  then show "cert_from_bytes data = Inr cert" using cert_roundtrip [OF wf] by simp
qed



end
