(* ===== verification/System.thy ===== *)
theory System
  imports Service
begin

text \<open>
  The running service: the tasks \<open>run\<close> selects over (\<open>src/main.rs\<close>), interleaved in any order and connected by their
  channels. The upstream client sends to the submitter, the poller to the streamer, the streamer to the relay, the L1
  monitor to both through a watch channel, and the DA server asks the streamer. The channel between streamer and relay
  is a parameter.
\<close>

subsection \<open>How the service ends\<close>

text \<open>The first task that ends decides. The submitter only ends with an error, and the L1 monitor only without one.\<close>

datatype task_exit =
  SubmitterExit submitter_error
| FeedExit "feed_relay_error + unit"
| StreamerExit "string + unit"
| DaExit "da_api_error + unit"
| L1MonitorExit

datatype run_error =
  RunSubmitter submitter_error
| RunFeed feed_relay_error
| RunStreamer string
| RunDa da_api_error

definition run_select :: "task_exit \<Rightarrow> run_error + unit" where
  "run_select e = (case e of
       SubmitterExit err \<Rightarrow> Inl (RunSubmitter err)
     | FeedExit res \<Rightarrow> map_err RunFeed res
     | StreamerExit res \<Rightarrow> map_err RunStreamer res
     | DaExit res \<Rightarrow> map_err RunDa res
     | L1MonitorExit \<Rightarrow> Inr ())"

subsection \<open>State\<close>

text \<open>
  What the tasks call outside the service. \<open>'c\<close> is the channel to the relay, \<open>ev_reader\<close> the answers that the Espresso
  reader may give at a time.
\<close>

record ('w, 'n, 'ws, 'c) system_env =
  ev_libs :: nitro_libs
  ev_net :: "('n, 'ws) feed_net"
  ev_from_slice :: "bytes \<Rightarrow> string + broadcast_message"
  ev_serde :: serde_lib
  ev_sign :: sign_lib
  ev_http :: "'w http_client"
  ev_reader :: "bytes espresso_reader \<Rightarrow> bool"
  ev_try_send :: "'c \<Rightarrow> broadcast_feed_message \<Rightarrow> try_send_error + 'c"
  ev_try_recv :: "'c \<Rightarrow> (broadcast_feed_message \<times> 'c) option"

text \<open>
  \<open>sys_blocks\<close> is the channel from the poller to the loop. \<open>sys_outbox\<close> holds the verified messages of a frame that the
  client is still sending, \<open>sys_pending\<close> what the relay has taken from its channel and not broadcast yet, \<open>sys_requests\<close>
  the store requests that the loop has replied to and the DA server has not answered yet, with the reply. The watch
  channel is its value with a version, and the versions its two receivers have seen. The last four fields record the
  history.
\<close>

record ('n, 'h, 'c) system =
  sys_client :: broadcaster_client
  sys_connected :: bool
  sys_backoff :: nat
  sys_net :: 'n
  sys_outbox :: "broadcast_feed_message list"
  sys_submitter :: "(broadcast_feed_message, bytes, 'h) submitter"
  sys_poll :: poll_state
  sys_blocks :: "(bytes list list \<times> u64) list"
  sys_loop :: "(nitro_rollup_queue_entry, nitro_config, 'c) run_state"
  sys_relay :: ws_broadcast_server
  sys_pending :: "broadcast_feed_message list"
  sys_last_finalized_block :: u64
  sys_watch :: u64
  sys_version :: nat
  sys_loop_seen :: nat
  sys_relay_seen :: nat
  sys_requests :: "(json_value \<times> verification_result) list"
  sys_exit :: "task_exit option"
  sys_events :: "relay_event list"
  sys_published :: "u64 list"
  sys_received :: "(bytes list list \<times> u64) list"
  sys_answers :: "(json_value \<times> http_response) list"

definition system_init ::
  "(string \<Rightarrow> r_error + string) \<Rightarrow> ('w, 'h, 'log, 'g, 'lc) service \<Rightarrow> 'n \<Rightarrow> 'c \<Rightarrow> ('n, 'h, 'c) system" where
  "system_init bind_listener svc net ch =
     (case broadcaster_start bind_listener (fr_broadcaster (run_feed_relay svc)) of (r, srv) \<Rightarrow>
       \<lparr>sys_client = fr_client (run_feed_relay svc), sys_connected = False,
        sys_backoff = reconnect_initial_backoff (fc_config (fr_client (run_feed_relay svc))), sys_net = net,
        sys_outbox = [], sys_submitter = run_submitter svc,
        sys_poll = \<lparr>from_block = starting_hotshot_height (svc_streamer (run_config svc)),
          backoff = unat (initial_backoff_ms (svc_streamer (run_config svc)))\<rparr>, sys_blocks = [],
        sys_loop = run_init (svc_streamer (run_config svc)) (svc_rollup (run_config svc)) 0 ch,
        sys_relay = srv, sys_pending = [], sys_last_finalized_block = 0, sys_watch = 0, sys_version = 0,
        sys_loop_seen = 0, sys_relay_seen = 0, sys_requests = [],
        sys_exit = (case r of Inl e \<Rightarrow> Some (FeedExit (Inl (RelayBroadcaster e))) | Inr addr \<Rightarrow> None),
        sys_events = [], sys_published = [], sys_received = [], sys_answers = []\<rparr>)"

subsection \<open>Steps\<close>

definition relay_on :: "relay_event \<Rightarrow> ('n, 'h, 'c) system \<Rightarrow> ('n, 'h, 'c) system" where
  "relay_on ev s =
     (case relay_step (sys_relay s) ev of (srv, out) \<Rightarrow>
        s\<lparr>sys_relay := srv, sys_events := sys_events s @ [ev],
          sys_exit := (case out of RelayRunning \<Rightarrow> sys_exit s | RelayDone r \<Rightarrow> Some (FeedExit r))\<rparr>)"

definition publish :: "u64 option \<Rightarrow> ('n, 'h, 'c) system \<Rightarrow> ('n, 'h, 'c) system" where
  "publish sent s =
     (case sent of
        None \<Rightarrow> s
      | Some idx \<Rightarrow> s\<lparr>sys_watch := idx, sys_version := sys_version s + 1, sys_published := sys_published s @ [idx]\<rparr>)"

text \<open>The verification channel as the handler of one request sees it: the loop's reply arrives.\<close>

definition loop_reply :: "verification_result \<Rightarrow> bytes \<Rightarrow> ('w, r_error, verification_result) io" where
  "loop_reply v data = ret (Inr v)"

inductive sys_step ::
  "('w, 'n, 'ws, 'c) system_env \<Rightarrow> ('w, 'h, 'log, 'g, 'lc) service \<Rightarrow> ('n, 'h, 'c) system \<Rightarrow> ('n, 'h, 'c) system \<Rightarrow> bool"
  for E :: "('w, 'n, 'ws, 'c) system_env" and svc :: "('w, 'h, 'log, 'g, 'lc) service" where
  client_connected: "sys_exit s = None \<Longrightarrow> \<not> sys_connected s \<Longrightarrow>
    start_connect (ev_net E) (sys_client s) (sys_backoff s) (sys_net s) = Some (Inr c, slept, n) \<Longrightarrow>
    sys_step E svc s (s\<lparr>sys_client := c, sys_connected := True,
      sys_backoff := reconnect_initial_backoff (fc_config c), sys_net := n\<rparr>)"
| client_fatal: "sys_exit s = None \<Longrightarrow> \<not> sys_connected s \<Longrightarrow> sys_pending s = [] \<Longrightarrow>
    start_connect (ev_net E) (sys_client s) (sys_backoff s) (sys_net s) = Some (Inl e, slept, n) \<Longrightarrow>
    sys_step E svc s (relay_on (ClientExited (Inr (Inl e))) (s\<lparr>sys_net := n\<rparr>))"
| client_frame: "sys_exit s = None \<Longrightarrow> sys_connected s \<Longrightarrow> sys_outbox s = [] \<Longrightarrow>
    read_step (ev_net E) (ev_from_slice E) (sys_client s, sys_backoff s, sys_net s) ev =
      Some ((c, b, n), slept, waits) \<Longrightarrow>
    sys_step E svc s (s\<lparr>sys_client := c, sys_backoff := b, sys_net := n,
      sys_outbox := drop (length (fc_submitted (sys_client s))) (fc_submitted c)\<rparr>)"
| client_send: "sys_exit s = None \<Longrightarrow> sys_outbox s = m # rest \<Longrightarrow> \<not> sub_closed (sys_submitter s) \<Longrightarrow>
    length (sub_channel (sys_submitter s)) < submitter_input_channel_capacity (svc_advanced (run_config svc)) \<Longrightarrow>
    sys_step E svc s (s\<lparr>sys_outbox := rest, sys_submitter := (sys_submitter s)
      \<lparr>sub_channel := sub_channel (sys_submitter s) @ [m], sub_arrived := sub_arrived (sys_submitter s) @ [m]\<rparr>\<rparr>)"
| submitter: "sys_exit s = None \<Longrightarrow>
    sub_step (build_tx_fn (nl_json (ev_libs E))) (sys_submitter s) t \<Longrightarrow>
    sub_arrived t = sub_arrived (sys_submitter s) \<Longrightarrow> sub_closed t = sub_closed (sys_submitter s) \<Longrightarrow>
    sys_step E svc s (s\<lparr>sys_submitter := t\<rparr>)"
| loop_finalized: "sys_exit s = None \<Longrightarrow> sys_loop_seen s < sys_version s \<Longrightarrow> ev_reader E reader \<Longrightarrow>
    sys_step E svc s (s\<lparr>sys_loop_seen := sys_version s,
      sys_loop := on_finalized (nitro_rollup (ev_libs E)) reader (sys_watch s) (sys_loop s)\<rparr>)"
| loop_verification: "sys_exit s = None \<Longrightarrow> store_params (ev_serde E) body = Inr (data, timeout) \<Longrightarrow>
    sys_step E svc s (s\<lparr>sys_loop := on_verification (nitro_rollup (ev_libs E)) fetched data (sys_loop s),
      sys_requests := sys_requests s @
        [(body, handle_verification (nitro_rollup (ev_libs E)) fetched data (rs_streamer (sys_loop s)))]\<rparr>)"
| poll_sleep: "sys_exit s = None \<Longrightarrow> ev_reader E reader \<Longrightarrow>
    poll_iteration (svc_streamer (run_config svc)) (namespace_id (svc_rollup (run_config svc)))
      \<lparr>pi_reader = (reader :: bytes espresso_reader), pi_channel_open = True\<rparr> (sys_poll s) = (p, PollSleep d) \<Longrightarrow>
    sys_step E svc s (s\<lparr>sys_poll := p\<rparr>)"
| poll_send: "sys_exit s = None \<Longrightarrow> ev_reader E reader \<Longrightarrow>
    length (sys_blocks s) < hotshot_transaction_channel_capacity (svc_advanced (run_config svc)) \<Longrightarrow>
    poll_iteration (svc_streamer (run_config svc)) (namespace_id (svc_rollup (run_config svc)))
      \<lparr>pi_reader = (reader :: bytes espresso_reader), pi_channel_open = True\<rparr> (sys_poll s) = (p, PollSend txns height) \<Longrightarrow>
    sys_step E svc s (s\<lparr>sys_poll := p, sys_blocks := sys_blocks s @ [(txns, height)]\<rparr>)"
| loop_transactions: "sys_exit s = None \<Longrightarrow> sys_blocks s = (txns, height) # blocks \<Longrightarrow>
    sys_step E svc s (s\<lparr>sys_blocks := blocks, sys_received := sys_received s @ [(txns, height)], sys_loop :=
      on_transactions (nitro_rollup (ev_libs E)) (ev_try_send E) txns height (sys_loop s)\<rparr>)"
| loop_timer: "sys_exit s = None \<Longrightarrow> sleepers (rs_retry (sys_loop s)) = xs @ d # ys \<Longrightarrow> rs_signals (sys_loop s) = 0 \<Longrightarrow>
    sys_step E svc s (s\<lparr>sys_loop := (sys_loop s)
      \<lparr>rs_retry := (rs_retry (sys_loop s))\<lparr>sleepers := xs @ ys\<rparr>, rs_signals := 1\<rparr>\<rparr>)"
| loop_retry: "sys_exit s = None \<Longrightarrow> 0 < rs_signals (sys_loop s) \<Longrightarrow>
    sys_step E svc s (s\<lparr>sys_loop := on_retry_signal (nitro_rollup (ev_libs E)) (ev_try_send E) (sys_loop s)\<rparr>)"
| relay_finalized: "sys_exit s = None \<Longrightarrow> sys_pending s = [] \<Longrightarrow> sys_relay_seen s < sys_version s \<Longrightarrow>
    sys_step E svc s (relay_on (L1Finalized (sys_watch s)) (s\<lparr>sys_relay_seen := sys_version s\<rparr>))"
| relay_receive: "sys_exit s = None \<Longrightarrow> ev_try_recv E (rs_chan (sys_loop s)) = Some (m, ch) \<Longrightarrow>
    sys_step E svc s (s\<lparr>sys_pending := sys_pending s @ [m], sys_loop := (sys_loop s)\<lparr>rs_chan := ch\<rparr>\<rparr>)"
| relay_broadcast: "sys_exit s = None \<Longrightarrow> sys_pending s = first_msg # rest \<Longrightarrow>
    ev_try_recv E (rs_chan (sys_loop s)) = None \<Longrightarrow>
    sys_step E svc s (relay_on (EspressoMessages first_msg rest) (s\<lparr>sys_pending := []\<rparr>))"
| l1_tick: "sys_exit s = None \<Longrightarrow>
    finalized_tick (mon_bridge_address (run_l1_monitor svc)) (tick :: (r_error + u64 option) \<times> 'log provider)
      (sys_last_finalized_block s) = (block, sent) \<Longrightarrow>
    sys_step E svc s (publish sent (s\<lparr>sys_last_finalized_block := block\<rparr>))"
| store: "sys_exit s = None \<Longrightarrow> sys_requests s = waiting @ (body, v) # waiting' \<Longrightarrow>
    da_api_run (ev_http E) (loop_reply v) svc = Inr routes \<Longrightarrow> (path, st) \<in> set routes \<Longrightarrow>
    run_state (handle_store (ev_serde E) (ev_sign E) st body) w = (Inr resp, w') \<Longrightarrow>
    sys_step E svc s (s\<lparr>sys_requests := waiting @ waiting', sys_answers := sys_answers s @ [(body, resp)]\<rparr>)"
| store_failed: "sys_exit s = None \<Longrightarrow> sys_requests s = waiting @ (body, v) # waiting' \<Longrightarrow>
    da_api_run (ev_http E) (loop_reply v) svc = Inr routes \<Longrightarrow> (path, st) \<in> set routes \<Longrightarrow>
    run_state (handle_store (ev_serde E) (ev_sign E) st body) w = (Inl e, w') \<Longrightarrow>
    sys_step E svc s (s\<lparr>sys_requests := waiting @ waiting'\<rparr>)"
| submitter_exit: "sys_exit s = None \<Longrightarrow> submit_exit (sys_submitter s) = Some e \<Longrightarrow>
    sys_step E svc s (s\<lparr>sys_exit := Some (SubmitterExit e)\<rparr>)"
| poller_exit: "sys_exit s = None \<Longrightarrow> sys_step E svc s (s\<lparr>sys_exit := Some (StreamerExit (run_exit r))\<rparr>)"
| da_exit: "sys_exit s = None \<Longrightarrow> sys_step E svc s (s\<lparr>sys_exit := Some (DaExit r)\<rparr>)"
| monitor_exit: "sys_exit s = None \<Longrightarrow> sys_step E svc s (s\<lparr>sys_exit := Some L1MonitorExit\<rparr>)"

inductive_cases sys_stepE: "sys_step E svc s s'"

subsection \<open>Steps of the system are steps of its parts\<close>

lemma relay_on_simps [simp]:
  "sys_client (relay_on ev s) = sys_client s" "sys_connected (relay_on ev s) = sys_connected s"
  "sys_outbox (relay_on ev s) = sys_outbox s" "sys_submitter (relay_on ev s) = sys_submitter s"
  "sys_loop (relay_on ev s) = sys_loop s" "sys_pending (relay_on ev s) = sys_pending s"
  "sys_relay (relay_on ev s) = fst (relay_step (sys_relay s) ev)" "sys_events (relay_on ev s) = sys_events s @ [ev]"
  "sys_watch (relay_on ev s) = sys_watch s" "sys_version (relay_on ev s) = sys_version s"
  "sys_published (relay_on ev s) = sys_published s" "sys_answers (relay_on ev s) = sys_answers s"
  "sys_requests (relay_on ev s) = sys_requests s"
  "sys_poll (relay_on ev s) = sys_poll s" "sys_blocks (relay_on ev s) = sys_blocks s"
  "sys_received (relay_on ev s) = sys_received s"
  "sys_last_finalized_block (relay_on ev s) = sys_last_finalized_block s"
  by (simp_all add: relay_on_def split: prod.split)

lemma relay_on_exit: "sys_exit (relay_on ev s) = None \<longleftrightarrow>
    sys_exit s = None \<and> snd (relay_step (sys_relay s) ev) = RelayRunning"
  by (auto simp: relay_on_def split: prod.split relay_outcome.split)

lemma publish_simps [simp]:
  "sys_client (publish p s) = sys_client s" "sys_connected (publish p s) = sys_connected s"
  "sys_outbox (publish p s) = sys_outbox s" "sys_submitter (publish p s) = sys_submitter s"
  "sys_loop (publish p s) = sys_loop s" "sys_pending (publish p s) = sys_pending s"
  "sys_relay (publish p s) = sys_relay s" "sys_events (publish p s) = sys_events s"
  "sys_exit (publish p s) = sys_exit s" "sys_answers (publish p s) = sys_answers s"
  "sys_poll (publish p s) = sys_poll s" "sys_blocks (publish p s) = sys_blocks s"
  "sys_received (publish p s) = sys_received s" "sys_requests (publish p s) = sys_requests s"
  "sys_last_finalized_block (publish p s) = sys_last_finalized_block s"
  by (simp_all add: publish_def split: option.split)

lemma sys_step_running: "sys_step E svc s s' \<Longrightarrow> sys_exit s = None"
  by (cases rule: sys_step.cases) auto

lemma sys_step_loop:
  assumes "sys_step E svc s s'"
  shows "sys_loop s' = sys_loop s \<or> run_step (nitro_rollup (ev_libs E)) (ev_try_send E) (sys_loop s) (sys_loop s')"
  using assms by (cases rule: sys_step.cases) (auto intro: run_step.intros simp del: One_nat_def)

lemma sys_step_submitter:
  assumes "sys_step E svc s s'"
  shows "sys_submitter s' = sys_submitter s \<or>
    sub_step (build_tx_fn (nl_json (ev_libs E))) (sys_submitter s) (sys_submitter s')"
  using assms by (cases rule: sys_step.cases) (auto intro: sub_step.arrive)

lemma sys_step_relay:
  assumes "sys_step E svc s s'"
  shows "sys_relay s' = sys_relay s \<and> sys_events s' = sys_events s \<or>
    (\<exists>ev. sys_relay s' = fst (relay_step (sys_relay s) ev) \<and> sys_events s' = sys_events s @ [ev] \<and>
       (sys_exit s' = None \<longrightarrow> snd (relay_step (sys_relay s) ev) = RelayRunning))"
  using assms by (cases rule: sys_step.cases) (auto simp: relay_on_exit)

lemma sys_loop_reachable:
  assumes "(sys_step E svc)\<^sup>*\<^sup>* s0 s"
  shows "(run_step (nitro_rollup (ev_libs E)) (ev_try_send E))\<^sup>*\<^sup>* (sys_loop s0) (sys_loop s)"
  using assms
proof (induction rule: rtranclp_induct)
  case (step y z)
  then show ?case using sys_step_loop [OF step.hyps(2)] by (metis rtranclp.rtrancl_into_rtrancl)
qed simp

lemma sys_submitter_reachable:
  assumes "(sys_step E svc)\<^sup>*\<^sup>* s0 s"
  shows "(sub_step (build_tx_fn (nl_json (ev_libs E))))\<^sup>*\<^sup>* (sys_submitter s0) (sys_submitter s)"
  using assms
proof (induction rule: rtranclp_induct)
  case (step y z)
  then show ?case using sys_step_submitter [OF step.hyps(2)] by (metis rtranclp.rtrancl_into_rtrancl)
qed simp

subsection \<open>The channel to the relay\<close>

text \<open>What a first-in first-out channel promises: \<open>contents\<close> are the messages in it, oldest first.\<close>

definition fifo ::
  "('c \<Rightarrow> 'm \<Rightarrow> try_send_error + 'c) \<Rightarrow> ('c \<Rightarrow> ('m \<times> 'c) option) \<Rightarrow> ('c \<Rightarrow> 'm list) \<Rightarrow> bool" where
  "fifo send recv contents \<longleftrightarrow>
     (\<forall>c m c'. send c m = Inr c' \<longrightarrow> contents c' = contents c @ [m]) \<and>
     (\<forall>c m c'. recv c = Some (m, c') \<longrightarrow> contents c = m # contents c')"

lemma broadcast_entries_contents:
  assumes "fifo send recv contents" and "broadcast_entries R send es s rt ch = (s', rt', ch', sent)"
  shows "contents ch' = contents ch @ map (r_convert_entry_to_feed_message R) sent"
  using assms(2)
proof (induction es arbitrary: s ch s' sent)
  case (Cons e es)
  show ?case
  proof (cases "send ch (r_convert_entry_to_feed_message R e)")
    case (Inl err)
    then show ?thesis using Cons.prems by (cases err) auto
  next
    case (Inr ch1)
    then obtain sent1 where rest: "broadcast_entries R send es
        (s\<lparr>last_broadcast_position := r_sequence_number R e\<rparr>) rt ch1 = (s', rt', ch', sent1)"
      and sent: "sent = e # sent1"
      using Cons.prems by (auto split: prod.splits)
    have "contents ch1 = contents ch @ [r_convert_entry_to_feed_message R e]"
      using assms(1) Inr by (simp add: fifo_def)
    then show ?thesis using Cons.IH [OF rest] sent by simp
  qed
qed simp

lemma try_broadcast_contents:
  assumes "fifo send recv contents" and "try_broadcast_feed_message R send s rt ch = (s', rt', ch', sent)"
  shows "contents ch' = contents ch @ map (r_convert_entry_to_feed_message R) sent"
  using broadcast_entries_contents [OF assms(1)] assms(2) unfolding try_broadcast_feed_message_def by blast

lemma on_transactions_contents:
  assumes "fifo send recv contents"
  shows "\<exists>new. rs_sent (on_transactions R send txns height r) = rs_sent r @ new \<and>
    contents (rs_chan (on_transactions R send txns height r)) =
      contents (rs_chan r) @ map (r_convert_entry_to_feed_message R) new"
proof -
  let ?s = "filter_messages R (r_parse_hotshot_transactions R (stack (rollup_config (rs_streamer r))) txns height)
    (rs_streamer r)"
  obtain st rt ch new where tb: "try_broadcast_feed_message R send ?s (rs_retry r) (rs_chan r) = (st, rt, ch, new)"
    by (metis prod_cases4)
  show ?thesis
    using try_broadcast_contents [OF assms tb] tb
    by (simp add: on_transactions_def handle_hotshot_transactions_def)
qed

lemma on_retry_contents:
  assumes "fifo send recv contents"
  shows "\<exists>new. rs_sent (on_retry_signal R send r) = rs_sent r @ new \<and>
    contents (rs_chan (on_retry_signal R send r)) =
      contents (rs_chan r) @ map (r_convert_entry_to_feed_message R) new"
proof -
  obtain st rt ch new where tb: "try_broadcast_feed_message R send (rs_streamer r)
      ((rs_retry r)\<lparr>scheduled := False\<rparr>) (rs_chan r) = (st, rt, ch, new)"
    by (metis prod_cases4)
  show ?thesis using try_broadcast_contents [OF assms tb] tb by (simp add: on_retry_signal_def)
qed

subsection \<open>The relay's events\<close>

lemma relay_loop_append:
  "relay_loop srv (evs @ evs') =
     (case relay_loop srv evs of
        (srv', RelayRunning) \<Rightarrow> relay_loop srv' evs'
      | (srv', RelayDone r) \<Rightarrow> (srv', RelayDone r))"
proof (induction evs arbitrary: srv)
  case (Cons ev evs)
  then show ?case by (auto split: prod.split relay_outcome.split)
qed simp

lemma relay_loop_snoc:
  assumes "snd (relay_loop srv evs) = RelayRunning"
  shows "relay_loop srv (evs @ [ev]) = relay_step (fst (relay_loop srv evs)) ev"
  using assms by (cases "relay_loop srv evs") (auto simp: relay_loop_append split: prod.split relay_outcome.split)

lemma relay_ops_snoc:
  "snd (relay_loop srv evs) = RelayRunning \<Longrightarrow> relay_ops (evs @ [ev]) = relay_ops evs @ relay_ops [ev]"
proof (induction evs arbitrary: srv)
  case (Cons e evs)
  then show ?case by (cases e) (auto simp: relay_step_def)
qed simp

definition relay_inv :: "ws_broadcast_server \<Rightarrow> ('n, 'h, 'c) system \<Rightarrow> bool" where
  "relay_inv srv s \<longleftrightarrow>
     sys_relay s = fst (relay_loop srv (sys_events s)) \<and>
     (sys_exit s = None \<longrightarrow> snd (relay_loop srv (sys_events s)) = RelayRunning)"

lemma relay_inv_step:
  assumes "sys_step E svc s s'" and "relay_inv srv s"
  shows "relay_inv srv s'"
proof -
  note run = sys_step_running [OF assms(1)]
  then have R: "snd (relay_loop srv (sys_events s)) = RelayRunning" "sys_relay s = fst (relay_loop srv (sys_events s))"
    using assms(2) by (simp_all add: relay_inv_def)
  show ?thesis
    using sys_step_relay [OF assms(1)] R relay_loop_snoc [OF R(1)] by (auto simp: relay_inv_def)
qed

definition chan_inv :: "('c \<Rightarrow> broadcast_feed_message list) \<Rightarrow> ('n, 'h, 'c) system \<Rightarrow> bool" where
  "chan_inv contents s \<longleftrightarrow>
     fed (relay_ops (sys_events s)) @ sys_pending s @ contents (rs_chan (sys_loop s)) =
       map feed_message (rs_sent (sys_loop s))"

lemma chan_inv_step:
  assumes "fifo (ev_try_send E) (ev_try_recv E) contents" and "sys_step E svc s s'"
    and "chan_inv contents s" and "relay_inv srv s"
  shows "chan_inv contents s'"
proof -
  let ?R = "nitro_rollup (ev_libs E)"
  have run: "snd (relay_loop srv (sys_events s)) = RelayRunning"
    using assms(4) sys_step_running [OF assms(2)] by (simp add: relay_inv_def)
  note ops = relay_ops_snoc [OF run]
  show ?thesis
    using assms(2)
  proof (cases rule: sys_step.cases)
    case (loop_transactions txns height blocks)
    then show ?thesis
      using assms(3) on_transactions_contents [OF assms(1), of ?R txns height "sys_loop s"] by (auto simp: chan_inv_def)
  next
    case loop_retry
    then show ?thesis
      using assms(3) on_retry_contents [OF assms(1), of ?R "sys_loop s"] by (auto simp: chan_inv_def)
  next
    case (relay_receive m ch)
    then show ?thesis using assms(1,3) by (simp add: chan_inv_def fifo_def)
  qed (use assms(3) ops in \<open>auto simp: chan_inv_def on_finalized_def on_verification_def\<close>)
qed

subsection \<open>The client and the submitter\<close>

text \<open>What the client has submitted is what has arrived at the submitter, followed by its outbox.\<close>

definition client_inv :: "broadcaster_client \<Rightarrow> ('n, 'h, 'c) system \<Rightarrow> bool" where
  "client_inv c0 s \<longleftrightarrow>
     same_setup c0 (sys_client s) \<and> fc_first_reconnect_attempt (sys_client s) \<and>
     fc_submitted (sys_client s) = sub_arrived (sys_submitter s) @ sys_outbox s \<and>
     (\<forall>m \<in> set (fc_submitted (sys_client s)). verified_by c0 m)"

lemma client_inv_step:
  assumes "sys_step E svc s s'" and "client_inv c0 s"
  shows "client_inv c0 s'"
  using assms(1)
proof (cases rule: sys_step.cases)
  case (client_connected c slept n)
  then have "start_ok (sys_client s) (Inr c)" using start_connect_ok by fastforce
  then show ?thesis
    using client_connected assms(2) same_setup_trans by (auto simp: client_inv_def start_ok_def)
next
  case (client_frame ev c b n slept waits)
  have first: "fc_first_reconnect_attempt (sys_client s)" using assms(2) by (simp add: client_inv_def)
  note eff = read_step_effect [OF client_frame(5) first]
  obtain ms where ms: "fc_submitted c = fc_submitted (sys_client s) @ ms" "\<forall>m \<in> set ms. verified_by (sys_client s) m"
    using eff(4) by blast
  have "same_setup c0 (sys_client s)" using assms(2) by (simp add: client_inv_def)
  then show ?thesis
    using client_frame assms(2) eff(1,3) ms same_setup_verified same_setup_trans
    by (fastforce simp: client_inv_def)
qed (use assms(2) in \<open>auto simp: client_inv_def\<close>)

subsection \<open>The watch channel and the poller\<close>

text \<open>Both receivers act on published indices only, and the monitor and the poller run as on their own.\<close>

definition watch_inv :: "ws_broadcast_server \<Rightarrow> ('n, 'h, 'c) system \<Rightarrow> bool" where
  "watch_inv srv s \<longleftrightarrow>
     (0 < sys_version s \<longrightarrow> sys_watch s \<in> set (sys_published s)) \<and>
     set (rs_finals (sys_loop s)) \<subseteq> set (sys_published s) \<and>
     confirms (relay_ops (sys_events s)) \<subseteq> set (sys_published s)"

lemma confirms_append: "confirms (ops @ ops') = confirms ops \<union> confirms ops'"
  by (auto simp: confirms_def)

lemma rs_finals_frame [simp]:
  "rs_finals (on_transactions R send txns height r) = rs_finals r"
  "rs_finals (on_retry_signal R send r) = rs_finals r"
  "rs_finals (on_verification R fetched data r) = rs_finals r"
  "rs_finals (on_finalized R reader idx r) = rs_finals r @ [idx]"
  by (simp_all add: on_transactions_def on_retry_signal_def on_verification_def on_finalized_def split: prod.split)

lemma watch_inv_step:
  assumes "sys_step E svc s s'" and "relay_inv srv s" and "watch_inv srv s"
  shows "watch_inv srv s'"
proof -
  have "snd (relay_loop srv (sys_events s)) = RelayRunning"
    using assms(2) sys_step_running [OF assms(1)] by (simp add: relay_inv_def)
  note ops = relay_ops_snoc [OF this]
  show ?thesis
    using assms(1)
  proof (cases rule: sys_step.cases)
    case (l1_tick tick block sent)
    then show ?thesis using assms(3) by (auto simp: watch_inv_def publish_def split: option.split)
  qed (use assms(3) ops in \<open>auto simp: watch_inv_def confirms_append confirms_def\<close>)
qed

lemma monitor_start_append:
  "monitor_start bridge (ticks @ ticks') lfb =
     (let (b, out) = monitor_start bridge ticks lfb; (b', out') = monitor_start bridge ticks' b in (b', out @ out'))"
  by (induction ticks arbitrary: lfb) (auto simp: Let_def split: prod.splits option.splits)

definition monitor_inv :: "('w, 'h, 'log, 'g, 'lc) service \<Rightarrow> ('n, 'h, 'c) system \<Rightarrow> bool" where
  "monitor_inv svc s \<longleftrightarrow>
     (\<exists>ticks :: ((r_error + u64 option) \<times> 'log provider) list.
        monitor_start (mon_bridge_address (run_l1_monitor svc)) ticks 0 =
          (sys_last_finalized_block s, sys_published s))"

lemma monitor_inv_step:
  fixes svc :: "('w, 'h, 'log, 'g, 'lc) service"
  assumes "sys_step E svc s s'" and "monitor_inv svc s"
  shows "monitor_inv svc s'"
  using assms(1)
proof (cases rule: sys_step.cases)
  case (l1_tick tick block sent)
  obtain ticks :: "((r_error + u64 option) \<times> 'log provider) list" where t: "monitor_start (mon_bridge_address (run_l1_monitor svc)) ticks 0 =
      (sys_last_finalized_block s, sys_published s)"
    using assms(2) by (auto simp: monitor_inv_def)
  have "monitor_start (mon_bridge_address (run_l1_monitor svc)) (ticks @ [tick]) 0 =
      (sys_last_finalized_block s', sys_published s')"
    using t l1_tick by (auto simp: monitor_start_append publish_def split: option.split)
  then show ?thesis unfolding monitor_inv_def by blast
qed (use assms(2) in \<open>auto simp: monitor_inv_def\<close>)

lemma poll_append:
  assumes "poll_hotshot_blocks cfg ns inps st = (st', sent)" and "\<forall>inp \<in> set inps. pi_channel_open inp"
  shows "poll_hotshot_blocks cfg ns (inps @ inps') st =
    (case poll_hotshot_blocks cfg ns inps' st' of (st'', sent') \<Rightarrow> (st'', sent @ sent'))"
  using assms
proof (induction inps arbitrary: st sent)
  case (Cons inp inps)
  obtain p act where it: "poll_iteration cfg ns inp st = (p, act)" by fastforce
  have "act \<noteq> PollExit"
    using it Cons.prems(2) by (auto simp: poll_iteration_def Let_def split: sum.splits if_splits)
  then show ?case
    using Cons it by (cases act) (auto split: prod.splits)
qed simp

definition poll_inv :: "('w, 'h, 'log, 'g, 'lc) service \<Rightarrow> ('n, 'h, 'c) system \<Rightarrow> bool" where
  "poll_inv svc s \<longleftrightarrow>
     (\<exists>inps. (\<forall>inp \<in> set inps. pi_channel_open inp) \<and>
        poll_hotshot_blocks (svc_streamer (run_config svc)) (namespace_id (svc_rollup (run_config svc))) inps
          \<lparr>from_block = starting_hotshot_height (svc_streamer (run_config svc)),
           backoff = unat (initial_backoff_ms (svc_streamer (run_config svc)))\<rparr> =
        (sys_poll s, sys_received s @ sys_blocks s))"

lemma poll_inv_step:
  assumes "sys_step E svc s s'" and "poll_inv svc s"
  shows "poll_inv svc s'"
proof -
  let ?cfg = "svc_streamer (run_config svc)" and ?ns = "namespace_id (svc_rollup (run_config svc))"
  let ?st = "\<lparr>from_block = starting_hotshot_height ?cfg, backoff = unat (initial_backoff_ms ?cfg)\<rparr>"
  obtain inps where i: "\<forall>inp \<in> set inps. pi_channel_open inp"
    "poll_hotshot_blocks ?cfg ?ns inps ?st = (sys_poll s, sys_received s @ sys_blocks s)"
    using assms(2) by (auto simp: poll_inv_def)
  have ext: "poll_inv svc s'" if "poll_iteration ?cfg ?ns \<lparr>pi_reader = reader, pi_channel_open = True\<rparr> (sys_poll s) = (p, act)"
    "act \<noteq> PollExit" "sys_poll s' = p" "sys_received s' @ sys_blocks s' = sys_received s @ sys_blocks s @
      (case act of PollSend txns height \<Rightarrow> [(txns, height)] | _ \<Rightarrow> [])" for reader p act
    unfolding poll_inv_def
    using that poll_append [OF i(2,1), of "[\<lparr>pi_reader = reader, pi_channel_open = True\<rparr>]"] i(1)
    by (intro exI [of _ "inps @ [\<lparr>pi_reader = reader, pi_channel_open = True\<rparr>]"]) (auto split: poll_action.splits)
  show ?thesis
    using assms(1)
  proof (cases rule: sys_step.cases)
    case (poll_sleep reader p d)
    then show ?thesis by (intro ext [of reader p "PollSleep d"]) auto
  next
    case (poll_send reader p txns height)
    then show ?thesis by (intro ext [of reader p "PollSend txns height"]) auto
  qed (use assms(2) in \<open>auto simp: poll_inv_def\<close>)
qed

subsection \<open>Reachable states\<close>

definition started :: "nitro_libs \<Rightarrow> ('w, 'h, 'log, 'g, 'lc) service \<Rightarrow> bool" where
  "started N svc \<longleftrightarrow>
     run_submitter svc = submitter_new (svc_submitter (run_config svc)) \<and>
     run_feed_relay svc = start_feed_relay N (stack (svc_rollup (run_config svc)))"

lemma build_service_started: "build_service N SE cfg km mon = Inr svc \<Longrightarrow> started N svc"
  by (auto simp: started_def build_service_def Let_def and_then_eq_Inr)

lemma main_nitro_started:
  assumes "run_state (main_nitro N SE cfg) w = (Inr svc, w')"
  shows "started N svc"
  by (rule main_nitro_Inr [OF assms]) (rule build_service_started)

lemma system_init_simps:
  "sys_loop (system_init bind_listener svc net ch) =
     run_init (svc_streamer (run_config svc)) (svc_rollup (run_config svc)) 0 ch"
  "sys_submitter (system_init bind_listener svc net ch) = run_submitter svc"
  "sys_client (system_init bind_listener svc net ch) = fr_client (run_feed_relay svc)"
  "sys_outbox (system_init bind_listener svc net ch) = []" "sys_pending (system_init bind_listener svc net ch) = []"
  "sys_events (system_init bind_listener svc net ch) = []" "sys_published (system_init bind_listener svc net ch) = []"
  "sys_answers (system_init bind_listener svc net ch) = []" "sys_requests (system_init bind_listener svc net ch) = []"
  "sys_blocks (system_init bind_listener svc net ch) = []" "sys_version (system_init bind_listener svc net ch) = 0"
  "sys_relay (system_init bind_listener svc net ch) =
     snd (broadcaster_start bind_listener (fr_broadcaster (run_feed_relay svc)))"
  by (simp_all add: system_init_def split: prod.split)

lemma relay_inv_reachable:
  assumes "(sys_step E svc)\<^sup>*\<^sup>* (system_init bind_listener svc net ch) s"
  shows "relay_inv (snd (broadcaster_start bind_listener (fr_broadcaster (run_feed_relay svc)))) s"
  using assms
  by (induction rule: rtranclp_induct) (auto simp: relay_inv_def [of _ "system_init _ _ _ _"] system_init_simps
      intro: relay_inv_step)

lemma chan_inv_reachable:
  assumes "(sys_step E svc)\<^sup>*\<^sup>* (system_init bind_listener svc net ch) s"
    and "fifo (ev_try_send E) (ev_try_recv E) contents" and "contents ch = []"
  shows "chan_inv contents s"
  using assms(1)
proof (induction rule: rtranclp_induct)
  case base
  then show ?case using assms(3) by (simp add: chan_inv_def system_init_simps run_init_def)
next
  case (step y z)
  show ?case by (rule chan_inv_step [OF assms(2) step.hyps(2) step.IH relay_inv_reachable [OF step.hyps(1)]])
qed

lemma client_inv_reachable:
  assumes "(sys_step E svc)\<^sup>*\<^sup>* (system_init bind_listener svc net ch) s" and "started N svc"
  shows "client_inv (fr_client (run_feed_relay svc)) s"
  using assms(1)
proof (induction rule: rtranclp_induct)
  case base
  then show ?case
    using assms(2)
    by (simp add: client_inv_def system_init_simps started_def submitter_new_def start_feed_relay_def same_setup_def
        feed_relay_new_with_verifier_def client_new_with_verifier_def)
qed (rule client_inv_step)

lemma watch_inv_reachable:
  assumes "(sys_step E svc)\<^sup>*\<^sup>* (system_init bind_listener svc net ch) s"
  shows "watch_inv (snd (broadcaster_start bind_listener (fr_broadcaster (run_feed_relay svc)))) s"
  using assms
proof (induction rule: rtranclp_induct)
  case base
  then show ?case by (simp add: watch_inv_def system_init_simps run_init_def confirms_def)
next
  case (step y z)
  show ?case by (rule watch_inv_step [OF step.hyps(2) relay_inv_reachable [OF step.hyps(1)] step.IH])
qed

lemma monitor_inv_reachable:
  assumes "(sys_step E svc)\<^sup>*\<^sup>* (system_init bind_listener svc net ch) s"
  shows "monitor_inv svc s"
  using assms
proof (induction rule: rtranclp_induct)
  case base
  show ?case unfolding monitor_inv_def by (intro exI [of _ "[]"]) (simp add: system_init_def split: prod.split)
qed (rule monitor_inv_step)

lemma poll_inv_reachable:
  assumes "(sys_step E svc)\<^sup>*\<^sup>* (system_init bind_listener svc net ch) s"
  shows "poll_inv svc s"
  using assms
proof (induction rule: rtranclp_induct)
  case base
  show ?case unfolding poll_inv_def by (intro exI [of _ "[]"]) (simp add: system_init_def split: prod.split)
qed (rule poll_inv_step)

lemma relay_shared_reachable:
  assumes "(sys_step E svc)\<^sup>*\<^sup>* (system_init bind_listener svc net ch) s" and "started N svc"
  shows "\<exists>cfg chain_id. ws_shared (sys_relay s) = run_ops (ws_shared (ws_server_new cfg chain_id)) (relay_ops (sys_events s))"
proof -
  let ?b = "fr_broadcaster (run_feed_relay svc)"
  have "ws_shared (snd (broadcaster_start bind_listener ?b)) = ws_shared ?b"
    by (simp add: broadcaster_start_def ws_server_start_def Let_def split: sum.split)
  moreover obtain cfg chain_id where "?b = ws_server_new cfg chain_id"
    using assms(2) by (auto simp: started_def start_feed_relay_def feed_relay_new_with_verifier_def broadcaster_new_def)
  ultimately show ?thesis
    using relay_inv_reachable [OF assms(1)] by (auto simp: relay_inv_def relay_loop_ops)
qed

lemma relay_backlog_reachable:
  assumes "(sys_step E svc)\<^sup>*\<^sup>* (system_init bind_listener svc net ch) s" and "started N svc"
    and "increasing (fed (relay_ops (sys_events s)))"
  shows "sh_backlog (ws_shared (sys_relay s)) = unconfirmed (relay_ops (sys_events s))"
  using relay_shared_reachable [OF assms(1,2)] run_ops_backlog [OF assms(3)] by auto

lemma relay_sent_reachable:
  assumes "(sys_step E svc)\<^sup>*\<^sup>* (system_init bind_listener svc net ch) s" and "started N svc"
  shows "sh_sent (ws_shared (sys_relay s)) = map op_bm (relay_ops (sys_events s))"
  using relay_shared_reachable [OF assms] by (auto simp: run_ops_sent ws_server_new_def)

text \<open>Broadcaster calls are only ever added.\<close>

lemma relay_ops_grow:
  assumes "(sys_step E svc)\<^sup>*\<^sup>* (system_init bind_listener svc net ch) s" and "(sys_step E svc)\<^sup>*\<^sup>* s s'"
  shows "\<exists>ops. relay_ops (sys_events s') = relay_ops (sys_events s) @ ops"
  using assms(2)
proof (induction rule: rtranclp_induct)
  case (step y z)
  let ?srv = "snd (broadcaster_start bind_listener (fr_broadcaster (run_feed_relay svc)))"
  have "relay_inv ?srv y" using relay_inv_reachable assms(1) step.hyps(1) by (metis rtranclp_trans)
  then have "snd (relay_loop ?srv (sys_events y)) = RelayRunning"
    using sys_step_running [OF step.hyps(2)] by (simp add: relay_inv_def)
  note ops = relay_ops_snoc [OF this]
  show ?case using sys_step_relay [OF step.hyps(2)] step.IH ops by fastforce
qed simp

subsection \<open>What Espresso finalized\<close>

text \<open>
  The readers serve one chain: each answer is an error or blocks of the chain. Then the blocks in the poller's channel,
  the queue, and what was sent to the relay come from the chain.
\<close>

definition reads_chain ::
  "('w, 'n, 'ws, 'c) system_env \<Rightarrow> ('w, 'h, 'log, 'g, 'lc) service \<Rightarrow> (u64 \<Rightarrow> bytes list) \<Rightarrow> bool" where
  "reads_chain E svc chain \<longleftrightarrow>
     (\<forall>reader. ev_reader E reader \<longrightarrow> honest_reader chain (namespace_id (svc_rollup (run_config svc))) reader)"

definition chain_inv ::
  "nitro_libs \<Rightarrow> ('w, 'h, 'log, 'g, 'lc) service \<Rightarrow> (u64 \<Rightarrow> bytes list) \<Rightarrow> ('n, 'h, 'c) system \<Rightarrow> bool" where
  "chain_inv N svc chain s \<longleftrightarrow>
     rollup_config (rs_streamer (sys_loop s)) = svc_rollup (run_config svc) \<and>
     (\<forall>(txns, height) \<in> set (sys_blocks s).
        set (r_parse_hotshot_transactions (nitro_rollup N) (stack (svc_rollup (run_config svc))) txns height) \<subseteq>
          chain_entries (nitro_rollup N) (stack (svc_rollup (run_config svc))) chain) \<and>
     set (queue (rs_streamer (sys_loop s))) \<union> set (rs_sent (sys_loop s)) \<subseteq>
       chain_entries (nitro_rollup N) (stack (svc_rollup (run_config svc))) chain"

lemma poll_send_reads:
  assumes "poll_iteration cfg ns \<lparr>pi_reader = reader, pi_channel_open = True\<rparr> st = (p, PollSend txns height)"
  shows "\<exists>stop. namespace_transactions_in_range reader ns height stop = Inr txns"
  using assms by (auto simp: poll_iteration_def Let_def split: sum.splits if_splits)

lemma chain_inv_step:
  assumes "sys_step E svc s s'" and "reads_chain E svc chain" and "run_inv (nitro_rollup (ev_libs E)) (sys_loop s)"
    and "chain_inv (ev_libs E) svc chain s"
  shows "chain_inv (ev_libs E) svc chain s'"
proof -
  let ?R = "nitro_rollup (ev_libs E)" and ?rc = "svc_rollup (run_config svc)"
  let ?P = "\<lambda>e. e \<in> chain_entries ?R (stack ?rc) chain"
  note inv = assms(4) [unfolded chain_inv_def]
  have q: "\<forall>e \<in> set (queue (rs_streamer (sys_loop s))). ?P e" using inv by blast
  have honest: "honest_reader chain (namespace_id ?rc) reader" if "ev_reader E reader" for reader
    using assms(2) that by (simp add: reads_chain_def)
  have sent: "set (rs_sent (sys_loop s')) \<subseteq> set (rs_sent (sys_loop s)) \<union> set (queue (rs_streamer (sys_loop s')))"
    using sys_step_loop [OF assms(1)] run_step_sent [of "nitro_rollup (ev_libs E)" "ev_try_send E" "sys_loop s"] by auto
  have *: "chain_inv (ev_libs E) svc chain s'"
    if "rollup_config (rs_streamer (sys_loop s')) = ?rc" "\<forall>e \<in> set (queue (rs_streamer (sys_loop s'))). ?P e"
      "set (sys_blocks s') \<subseteq> set (sys_blocks s)"
    using that inv sent unfolding chain_inv_def by blast
  show ?thesis
    using assms(1)
  proof (cases rule: sys_step.cases)
    case (loop_finalized reader)
    have si: "streamer_inv ?R (rs_streamer (sys_loop s))" using assms(3) by (simp add: run_inv_def)
    have rc: "rollup_config (rs_streamer (sys_loop s)) = ?rc" using inv by blast
    have "\<forall>e \<in> set (queue (handle_finalization ?R reader (sys_watch s) (rs_streamer (sys_loop s)))). ?P e"
      using nitro.honest_reader_all [OF honest [OF loop_finalized(4)], of "ev_libs E"] q
      by (intro handle_finalization_all [OF si]) (simp_all add: rc)
    then show ?thesis
      using loop_finalized(1) rc handle_finalization_fields(4) [OF si]
      by (intro *) (simp_all add: on_finalized_def)
  next
    case (poll_send reader p txns height)
    obtain stop where "namespace_transactions_in_range reader (namespace_id ?rc) height stop = Inr txns"
      using poll_send_reads [OF poll_send(5)] by blast
    from nitro.honest_entries [OF honest [OF poll_send(3)] this, of "ev_libs E"] show ?thesis
      using poll_send inv by (auto simp: chain_inv_def)
  next
    case (loop_transactions txns height blocks)
    have rc: "rollup_config (rs_streamer (sys_loop s)) = ?rc" using inv by blast
    have "(txns, height) \<in> set (sys_blocks s)" using loop_transactions by simp
    then have "\<forall>e \<in> set (r_parse_hotshot_transactions ?R (stack ?rc) txns height). ?P e"
      using inv by blast
    note all = on_transactions_all [OF this [folded rc] q [folded rc], of "ev_try_send E"]
    show ?thesis
      by (rule *) (use all(1,3) rc loop_transactions in \<open>simp_all add: subset_iff\<close>)
  next
    case loop_retry
    then show ?thesis using inv q on_retry_signal_frame [of ?R "ev_try_send E" "sys_loop s"] by (intro *) auto
  qed (rule *; use inv q in \<open>simp add: on_verification_def\<close>)+
qed

lemma chain_inv_reachable:
  assumes "(sys_step E svc)\<^sup>*\<^sup>* (system_init bind_listener svc net ch) s" and "reads_chain E svc chain"
  shows "chain_inv (ev_libs E) svc chain s"
  using assms(1)
proof (induction rule: rtranclp_induct)
  case base
  then show ?case by (simp add: chain_inv_def system_init_simps run_init_def streamer_new_def)
next
  case (step y z)
  have "run_inv (nitro_rollup (ev_libs E)) (sys_loop y)"
    using run_inv_reachable [OF sys_loop_reachable [OF step.hyps(1), unfolded system_init_simps]] .
  then show ?case by (rule chain_inv_step [OF step.hyps(2) assms(2) _ step.IH])
qed

lemma queue_on_chain:
  assumes "(sys_step E svc)\<^sup>*\<^sup>* (system_init bind_listener svc net ch) s"
  shows "\<forall>chain. reads_chain E svc chain \<longrightarrow> set (queue (rs_streamer (sys_loop s))) \<subseteq>
    chain_entries (nitro_rollup (ev_libs E)) (stack (svc_rollup (run_config svc))) chain"
  using chain_inv_reachable [OF assms] by (auto simp: chain_inv_def)

lemma sent_increasing:
  assumes "(run_step (nitro_rollup N) try_send)\<^sup>*\<^sup>* (run_init cfg rcfg idx ch) s"
  shows "increasing (map feed_message (rs_sent s))"
proof -
  have "feed_chain (unat ` set (rs_finals s)) 0 (positions (nitro_rollup N) (rs_sent s))"
    using run_inv_reachable [OF assms] by (simp add: run_inv_def feed_at_def)
  then have "sorted_wrt (<) (positions (nitro_rollup N) (rs_sent s))" using feed_chain_sorted by fastforce
  then show ?thesis
    by (simp add: increasing_def positions_def sorted_wrt_map entry_sequence_number_def word_less_nat_alt)
qed

text \<open>A message that a trusted sequencer (or a legacy signer) signed, and that Espresso holds when the readers serve a chain.\<close>

definition espresso_message ::
  "('w, 'n, 'ws, 'c) system_env \<Rightarrow> ('w, 'h, 'log, 'g, 'lc) service \<Rightarrow> broadcast_feed_message \<Rightarrow> bool" where
  "espresso_message E svc m \<longleftrightarrow>
     (\<exists>e. authentic (ev_libs E) (stack (svc_rollup (run_config svc))) e \<and> feed_message e = m \<and>
        (\<forall>chain. reads_chain E svc chain \<longrightarrow>
           e \<in> chain_entries (nitro_rollup (ev_libs E)) (stack (svc_rollup (run_config svc))) chain))"

lemma relay_fed:
  assumes "(sys_step E svc)\<^sup>*\<^sup>* (system_init bind_listener svc net ch) s"
    and "fifo (ev_try_send E) (ev_try_recv E) contents" and "contents ch = []"
  shows "\<exists>undelivered. map feed_message (rs_sent (sys_loop s)) = fed (relay_ops (sys_events s)) @ undelivered"
    and "increasing (fed (relay_ops (sys_events s)))"
    and "\<forall>m \<in> set (fed (relay_ops (sys_events s))). espresso_message E svc m"
proof -
  note loop = sys_loop_reachable [OF assms(1), unfolded system_init_simps]
  have chan: "map feed_message (rs_sent (sys_loop s)) =
      fed (relay_ops (sys_events s)) @ sys_pending s @ contents (rs_chan (sys_loop s))"
    using chan_inv_reachable [OF assms] by (simp add: chan_inv_def)
  then show "\<exists>undelivered. map feed_message (rs_sent (sys_loop s)) = fed (relay_ops (sys_events s)) @ undelivered" by blast
  show "increasing (fed (relay_ops (sys_events s)))"
    using sent_increasing [OF loop] unfolding chan by (simp add: increasing_append)
  show "\<forall>m \<in> set (fed (relay_ops (sys_events s))). espresso_message E svc m"
  proof
    fix m assume "m \<in> set (fed (relay_ops (sys_events s)))"
    then have "m \<in> set (map feed_message (rs_sent (sys_loop s)))" unfolding chan by simp
    then obtain e where e: "e \<in> set (rs_sent (sys_loop s))" "feed_message e = m" by auto
    then show "espresso_message E svc m"
      using run_sent_all [OF loop nitro_parsed_all] chain_inv_reachable [OF assms(1)]
      unfolding espresso_message_def chain_inv_def by blast
  qed
qed

subsection \<open>Answers to store requests\<close>

lemma da_api_routes:
  assumes "da_api_run http verify svc = Inr routes" and "(path, st) \<in> set routes"
  shows "srv_verify st = verify" and "srv_key_manager st = run_key_manager svc"
  using assms
  by (auto simp: da_api_run_def build_app_def provider_state_def server_state_new_def Let_def and_then_eq_Inr
      split: option.splits)

text \<open>
  A reply given to a request: in a state of the loop it is the outcome of the check of the request's batch. When the
  readers serve one chain, the queue it was checked against holds entries of that chain only.
\<close>

definition replied ::
  "('w, 'n, 'ws, 'c) system_env \<Rightarrow> ('w, 'h, 'log, 'g, 'lc) service \<Rightarrow> 'c \<Rightarrow> json_value \<Rightarrow> verification_result
     \<Rightarrow> bytes \<Rightarrow> u64 \<Rightarrow> (r_error + batch_cursor) option
     \<Rightarrow> (nitro_rollup_queue_entry, nitro_config, 'c) run_state \<Rightarrow> bool" where
  "replied E svc ch body v data timeout fetched r \<longleftrightarrow>
     store_params (ev_serde E) body = Inr (data, timeout) \<and>
     (run_step (nitro_rollup (ev_libs E)) (ev_try_send E))\<^sup>*\<^sup>*
       (run_init (svc_streamer (run_config svc)) (svc_rollup (run_config svc)) 0 ch) r \<and>
     v = handle_verification (nitro_rollup (ev_libs E)) fetched data (rs_streamer r) \<and>
     (\<forall>chain. reads_chain E svc chain \<longrightarrow> set (queue (rs_streamer r)) \<subseteq>
        chain_entries (nitro_rollup (ev_libs E)) (stack (svc_rollup (run_config svc))) chain)"

lemma requests_replied:
  assumes "(sys_step E svc)\<^sup>*\<^sup>* (system_init bind_listener svc net ch) s"
  shows "\<forall>(body, v) \<in> set (sys_requests s). \<exists>data timeout fetched r. replied E svc ch body v data timeout fetched r"
  using assms
proof (induction rule: rtranclp_induct)
  case base
  then show ?case by (simp add: system_init_simps)
next
  case (step y z)
  note loop = sys_loop_reachable [OF step.hyps(1), unfolded system_init_simps]
  note chain = queue_on_chain [OF step.hyps(1)]
  show ?case
    using step.hyps(2)
  proof (cases rule: sys_step.cases)
    case (loop_verification body data timeout fetched)
    then have "replied E svc ch body (handle_verification (nitro_rollup (ev_libs E)) fetched data (rs_streamer (sys_loop y)))
        data timeout fetched (sys_loop y)"
      using loop chain by (simp add: replied_def)
    then show ?thesis using step.IH loop_verification by auto
  qed (use step.IH in auto)
qed

text \<open>
  An answer is backed: in a state of the loop the batch matched signed entries from the cursor on, and the answer is the
  downstream provider's own or holds a valid certificate over the range of the batch.
\<close>

definition backed_answer ::
  "('w, 'n, 'ws, 'c) system_env \<Rightarrow> ('w, 'h, 'log, 'g, 'lc) service \<Rightarrow> 'c \<Rightarrow> json_value \<Rightarrow> http_response \<Rightarrow> bool" where
  "backed_answer E svc ch body resp \<longleftrightarrow>
     (\<exists>data timeout r v fetched ms.
        replied E svc ch body v data timeout fetched r \<and>
        batch_backed (ev_libs E) (stack (svc_rollup (run_config svc))) (queue (rs_streamer r))
          (batch_context (nitro_rollup (ev_libs E)) fetched) data \<and>
        parse_batch (nl_brotli (ev_libs E)) (nl_rlp_bytes (ev_libs E)) data = Inr ms \<and>
        ((\<exists>routes path st w1 w'. da_api_run (ev_http E) (loop_reply v) svc = Inr routes \<and>
            (path, st) \<in> set routes \<and>
            run_state (resolve_downstream_cert (ev_serde E) st data timeout (json_index body ''id'')) w1 =
              (Inr (DownstreamForward resp), w' :: 'w)) \<or>
         (\<exists>cert. cert_validate (ev_sign E) cert (signer_addr (km_signer (run_key_manager svc)))
            (parent_chain_id (run_key_manager svc)) (tee_verifier_address (run_key_manager svc)) = Inr () \<and>
          cc_start_message_pos cert = next_batch_start_pos (batch_context (nitro_rollup (ev_libs E)) fetched) \<and>
          cc_end_message_pos cert =
            next_batch_start_pos (batch_context (nitro_rollup (ev_libs E)) fetched) + of_nat (length ms) - 1 \<and>
          sd_to_vec (ev_serde E) (store_answer_value (ev_serde E) (json_index body ''id'') cert) = Inr (resp_body resp))))"

lemma store_backed:
  assumes "signer_ok (ev_sign E) (km_signer (run_key_manager svc))" and "replied E svc ch body v data timeout fetched r"
    and "da_api_run (ev_http E) (loop_reply v) svc = Inr routes" and "(path, st) \<in> set routes"
    and "run_state (handle_store (ev_serde E) (ev_sign E) st body) w = (Inr resp, w')"
  shows "backed_answer E svc ch body resp"
proof -
  note st = da_api_routes [OF assms(3,4)]
  note rep = assms(2) [unfolded replied_def]
  obtain w1 where v: "run_state (srv_verify st data) w = (Inr v, w1)" "success v"
    and out: "run_state (resolve_downstream_cert (ev_serde E) st data timeout (json_index body ''id'')) w1 =
       (Inr (DownstreamForward resp), w') \<or>
     (\<exists>downstream cert. certified v downstream cert \<and>
        cert_validate (ev_sign E) cert (signer_addr (km_signer (srv_key_manager st))) (parent_chain_id (srv_key_manager st))
          (tee_verifier_address (srv_key_manager st)) = Inr () \<and>
        sd_to_vec (ev_serde E) (store_answer_value (ev_serde E) (json_index body ''id'') cert) = Inr (resp_body resp))"
    using handle_store_Inr [OF _ assms(5)] assms(1) rep unfolding st
    by (auto simp: loop_reply_def)
  have reach: "(run_step (nitro_rollup (ev_libs E)) (ev_try_send E))\<^sup>*\<^sup>*
      (run_init (svc_streamer (run_config svc)) (svc_rollup (run_config svc)) 0 ch) r" and
    ok: "success (handle_verification (nitro_rollup (ev_libs E)) fetched data (rs_streamer r))"
    using rep v(2) by simp_all
  obtain ms where ms: "parse_batch (nl_brotli (ev_libs E)) (nl_rlp_bytes (ev_libs E)) data = Inr ms"
    "start_message_position v = next_batch_start_pos (batch_context (nitro_rollup (ev_libs E)) fetched)"
    "end_message_position v =
       next_batch_start_pos (batch_context (nitro_rollup (ev_libs E)) fetched) + of_nat (length ms) - 1"
    using verification_range [OF reach ok] rep by blast
  show ?thesis
    unfolding backed_answer_def
    using assms(2-4) verification_backed [OF reach ok] ms out unfolding certified_def st(2)
    by (intro exI [of _ data] exI [of _ timeout] exI [of _ r] exI [of _ v] exI [of _ fetched] exI [of _ ms]) auto
qed

lemma answers_backed:
  assumes "(sys_step E svc)\<^sup>*\<^sup>* (system_init bind_listener svc net ch) s"
    and "signer_ok (ev_sign E) (km_signer (run_key_manager svc))"
  shows "\<forall>(body, resp) \<in> set (sys_answers s). backed_answer E svc ch body resp"
  using assms(1)
proof (induction rule: rtranclp_induct)
  case base
  then show ?case by (simp add: system_init_simps)
next
  case (step y z)
  show ?case
    using step.hyps(2)
  proof (cases rule: sys_step.cases)
    case (store waiting body v waiting' routes path st w resp w')
    then obtain data timeout fetched r where "replied E svc ch body v data timeout fetched r"
      using requests_replied [OF step.hyps(1)] by fastforce
    from store_backed [OF assms(2) this store(4-6)] show ?thesis using step.IH store by auto
  qed (use step.IH in auto)
qed

end
