(* ===== verification/Concrete_System.thy ===== *)
theory Concrete_System
  imports Concrete_Service System
begin

text \<open>
  Concrete deployments for the witnesses: an L1 node, a test deployment whose key gets registered at startup, and the
  service it starts.
\<close>

subsection \<open>L1\<close>

definition c_events :: "nat \<Rightarrow> l1_log list" where
  "c_events b = (if b = 4 then [\<lparr>hotshotBlock = 9, delayedMessageRead = 2, messageCount = 30\<rparr>] else [])"

definition c_provider :: "l1_log provider" where
  "c_provider = \<lparr>l1_bridge = (\<lambda>a. Inr (replicate 20 3)), l1_sub_message_count = (\<lambda>a t. case t of
       Number n \<Rightarrow> Inr (unat n) | _ \<Rightarrow> Inr 30), l1_total_delayed = (\<lambda>a t. Inr 2), l1_block_number = Inr 10,
     l1_get_logs = (\<lambda>f. Inr (concat (map c_events [unat (flt_from_block f)..<Suc (unat (flt_to_block f))]))),
     l1_decode_log = (\<lambda>e. Inr e)\<rparr>"

text \<open>The same chain before the first batch.\<close>

definition c_provider0 :: "l1_log provider" where
  "c_provider0 = c_provider\<lparr>l1_sub_message_count := (\<lambda>a t. Inr 0), l1_total_delayed := (\<lambda>a t. Inr 0)\<rparr>"

subsection \<open>Startup\<close>

text \<open>A test deployment whose contract has no key yet; the world is whether the key is registered.\<close>

definition c_service_config :: "unit service_config" where
  "c_service_config =
     \<lparr>svc_espresso_client = \<lparr>ec_client = \<lparr>base_url = ''q/'', client_timeout_secs = 30\<rparr>,
        ec_light_client = \<lparr>genesis = (), fallback_query_urls = [], db_path = None, num_stake_tables_in_memory = 1,
          fallback_delay_ms = 10\<rparr>\<rparr>,
      svc_streamer = c_streamer_config, svc_rollup = c_rollup_config,
      svc_da_server = \<lparr>listen_addr = ''0.0.0.0:1'', da_providers = [], cfg_calldata_max_size = None\<rparr>,
      svc_submitter = submitter_config_default, svc_advanced = advanced_config_default,
      svc_key_manager = \<lparr>kmc_tee_verifier_address = replicate 20 2, attestation_verifier_url = ''p'',
        kmc_max_register_attempts = 3, attestation_client_timeout_secs = 10, kmc_tee_type = TeeTest\<rparr>,
      is_fresh_deployment = True\<rparr>"

definition b_rpc :: "(bool, unit) contract_rpc" where
  "b_rpc = \<lparr>cr_send = (\<lambda>c v d t. State (\<lambda>w. (Inr (), True))), cr_watch = (\<lambda>h. ret (Inr ())),
     cr_is_signer_valid = (\<lambda>c a t. State (\<lambda>w. (Inr w, w)))\<rparr>"

definition c_env :: "(bool, unit, l1_log, unit, nat) service_env" where
  "c_env = \<lparr>se_var = (\<lambda>v. if v = ENV_OPERATOR_PRIVATE_KEY then Some ''key'' else None),
     se_get_secret = (\<lambda>r s. ret (Inl ''aws'')), se_json = \<lparr>sj_overrides = (\<lambda>s. None), sj_wrapper = (\<lambda>s. None)\<rparr>,
     se_parse_url = Some, se_no_stake = (\<lambda>g. True), se_unverified = False, se_e2e = False,
     se_light_client = \<lparr>lc_connect = (\<lambda>p. Inr 1), lc_fallback_client = (\<lambda>us d. Inr 2), lc_from_genesis = (\<lambda>s c g n. 3)\<rparr>,
     se_parse_signer = (\<lambda>k. Inr c_signer), se_contract_rpc = (\<lambda>u s. b_rpc), se_get_chain_id = (\<lambda>u. ret (Inr 1)),
     se_random_signer = State_Monad.return c_signer, se_attestation_client = (\<lambda>u t. Inl ''none''),
     se_nsm = \<lparr>nsm_init = State_Monad.return (- 1), nsm_process_request = (\<lambda>fd r. State_Monad.return (NsmOther [])),
       nsm_exit = (\<lambda>fd. State_Monad.return ())\<rparr>,
     se_sign = c_sign, se_connect_l1 = (\<lambda>u. Inr c_provider0)\<rparr>"

text \<open>The service that starts.\<close>

definition b_key_manager :: "bool key_manager" where
  "b_key_manager = \<lparr>km_tee_verifier = tee_verifier b_rpc (replicate 20 2), km_generate_zk_proof = no_op_generate_zk_proof,
     km_get_attestation = no_op_get_attestation, max_register_attempts = 3, km_tee_type = TeeTest, km_signer = c_signer,
     parent_chain_id = 1, tee_verifier_address = replicate 20 2\<rparr>"

definition c_svc :: "(bool, unit, l1_log, unit, nat) service" where
  "c_svc = \<lparr>run_config = c_service_config, run_key_manager = b_key_manager,
     run_l1_monitor = \<lparr>mon_provider = c_provider0, mon_sequencer_inbox_address = replicate 20 1,
       mon_bridge_address = replicate 20 3, mon_log_scan_step = default_log_scan_step, mon_max_l1_blocks_to_scan = 0,
       mon_poll_interval_ms = default_l1_finalized_poll_interval_ms\<rparr>,
     run_streamer = streamer_new c_streamer_config c_rollup_config,
     run_submitter = submitter_new submitter_config_default, run_feed_relay = start_feed_relay c_libs c_nitro_config,
     run_reader = VerifiedReader 3\<rparr>"

lemma c_load: "run_state (load_config c_env c_service_config) w = (Inr (c_service_config, ''key''), w)"
proof -
  have var: "se_var c_env ENV_AWS_REGION = None" "se_var c_env ENV_AWS_SECRET_ID = None"
    "se_var c_env ENV_OPERATOR_PRIVATE_KEY = Some ''key''"
    by (simp_all add: c_env_def ENV_AWS_REGION_def ENV_AWS_SECRET_ID_def ENV_OPERATOR_PRIVATE_KEY_def)
  have pf: "placeholder_free c_service_config"
    by (simp add: placeholder_free_def c_service_config_def PLACEHOLDER_URL_def PLACEHOLDER_STR_def c_rollup_config_def
        c_nitro_config_def feed_config_default_def)
  have "assert_no_placeholders_nitro (se_unverified c_env) (se_parse_url c_env) (se_no_stake c_env) c_service_config = Inr ()"
    using pf by (simp add: assert_no_placeholders_Inr c_env_def c_service_config_def)
  then show ?thesis
    using var by (simp add: load_config_def fetch_secret_overrides_def run_io_then run_io_map_err
        resolve_operator_private_key_def) (simp add: c_service_config_def)
qed

lemma c_setup: "run_state (setup_key_manager c_env c_service_config ''key'') False = (Inr b_key_manager, True)"
proof -
  have three: "prepare_attempts L km 3 = prepare_attempts L km (Suc (Suc (Suc 0)))"
    "register_attempts km j p 3 = register_attempts km j p (Suc (Suc (Suc 0)))" for L j p and km :: "bool key_manager"
    by (simp_all only: numeral_3_eq_3)
  show ?thesis
    by (simp add: setup_key_manager_def build_key_manager_def run_io_then run_io_map_err c_env_def c_service_config_def
        key_manager_new_for_test_def key_manager_new_def initialize_def verify_registration_on_chain_def
        prepare_register_service_def tee_verifier_def b_rpc_def Let_def three b_key_manager_def)
qed

lemma c_startup: "run_state (main_nitro c_libs c_env c_service_config) False = (Inr c_svc, True)"
proof -
  have mon: "create_l1_monitor (se_connect_l1 c_env) (stack (svc_rollup c_service_config)) = Inr (run_l1_monitor c_svc)"
    by (simp add: create_l1_monitor_def nitro_l1_monitor_new_def c_env_def read_bridge_address_def c_provider0_def
        c_provider_def c_svc_def l1_monitor_config_of_def c_service_config_def c_rollup_config_def c_nitro_config_def)
  have "resume_point True (run_l1_monitor c_svc) =
      Inr (\<lparr>last_batch_delayed_messages_read = 0, next_batch_start_pos = 0\<rparr>, None)"
    by (simp add: resume_point_def fetch_latest_batch_cursor_on_fresh_deployment_def fetch_batch_cursor_def
        fetch_message_count_def fetch_delayed_messages_read_def to_u64_def c_svc_def c_provider0_def c_provider_def)
  moreover have "resolve_config_with_checkpoint c_service_config
      \<lparr>last_batch_delayed_messages_read = 0, next_batch_start_pos = 0\<rparr> None = c_service_config"
    by (simp add: resolve_config_with_checkpoint_def c_service_config_def c_rollup_config_def c_nitro_config_def
        c_streamer_config_def feed_config_default_def)
  moreover have "is_fresh_deployment c_service_config" by (simp add: c_service_config_def)
  moreover have "build_reader c_env (svc_espresso_client c_service_config) = Inr (VerifiedReader 3)"
    by (simp add: build_reader_def light_client_reader_new_def c_env_def)
  ultimately have "build_service c_libs c_env c_service_config b_key_manager (run_l1_monitor c_svc) = Inr c_svc"
    by (simp add: build_service_def) (simp add: c_svc_def c_service_config_def c_rollup_config_def)
  then show ?thesis
    using c_load c_setup mon by (simp add: main_nitro_def run_io_then)
qed

end
