(* ===== verification/Props_Service.thy ===== *)
theory Props_Service
  imports Concrete_System
begin

text \<open>
  The properties of the components around the streamer: key registration, the L1 monitor, the query client, the
  submitter, startup and the egress proxy.
\<close>

subsection \<open>Key registration\<close>

text \<open>
  C28. If \<open>initialize\<close> succeeds, the key is valid on chain for the service's TEE type when it
  returns, and it has sent at most \<open>max_register_attempts\<close> registration transactions, which is between one and ten,
  however often the attestation, the proof service or the chain failed.
\<close>

theorem initialize_registers:
  assumes "key_manager_new verifier zk attest attempts ty chain contract signer = Inr km"
    and "truthful (km_tee_verifier km) valid" and "counts_registrations regs km"
    and "run_state (initialize L km) w = (Inr (), w')"
  shows "valid w' (signer_addr signer) (on_chain_tee_type km) \<and> regs w' \<le> regs w + unat attempts \<and>
    1 \<le> unat attempts \<and> unat attempts \<le> 10"
proof -
  note new = key_manager_new_cases [OF assms(1)]
  have "regs (snd (run_state (initialize L km) w)) \<le> regs w + unat (max_register_attempts km)"
    using initialize_advances [OF assms(3), of L] unfolding advances_def by blast
  then show ?thesis using initialize_registered [OF assms(2,4)] new assms(4) by simp
qed

text \<open>A contract that registers on the second call; the world counts the calls.\<close>

definition n_verifier :: "nat espresso_tee_verifier" where
  "n_verifier = \<lparr>register_service = (\<lambda>j p t. State (\<lambda>w. (if w = 0 then Inl ''rpc'' else Inr (), w + 1))),
     registered_services = (\<lambda>a t. State (\<lambda>w. (Inr (2 \<le> w), w)))\<rparr>"

definition n_key_manager :: "nat key_manager" where
  "n_key_manager = \<lparr>km_tee_verifier = n_verifier, km_generate_zk_proof = (\<lambda>b. ret (Inr ([1], [2]))),
     km_get_attestation = (\<lambda>b. ret (Inr [3])), max_register_attempts = 3, km_tee_type = TeeNitro, km_signer = c_signer,
     parent_chain_id = 1, tee_verifier_address = replicate 20 2\<rparr>"

theorem initialize_registers_witness:
  "run_state (initialize c_sign n_key_manager) 0 = (Inr (), 2) \<and> (2 :: nat) \<le> 0 + 3"
proof -
  have new: "key_manager_new n_verifier (\<lambda>b. ret (Inr ([1], [2]))) (\<lambda>b. ret (Inr [3])) 3 TeeNitro 1 (replicate 20 2)
      c_signer = Inr n_key_manager"
    by (simp add: key_manager_new_def n_key_manager_def)
  have t: "truthful (km_tee_verifier n_key_manager) (\<lambda>w a t. 2 \<le> w)"
    by (simp add: truthful_def n_key_manager_def n_verifier_def)
  have c: "counts_registrations id n_key_manager"
    by (simp add: counts_registrations_def advances_def n_key_manager_def n_verifier_def)
  have three: "unat (max_register_attempts n_key_manager) = Suc (Suc (Suc 0))" by (simp add: n_key_manager_def)
  have i: "run_state (initialize c_sign n_key_manager) 0 = (Inr (), 2)"
    unfolding initialize_def three Let_def
    by (simp add: run_io_then run_io_map_err verify_registration_on_chain_def prepare_register_service_def
        n_key_manager_def n_verifier_def Let_def)
  show ?thesis using initialize_registers [OF new t c i] i by simp
qed

subsection \<open>The L1 monitor\<close>

text \<open>
  C26. Scanning backwards in windows gives, for every step size (zero included) and
  without repeating or skipping a block, the checkpoint of the last certificate event among the scanned blocks: the
  whole chain, or the last \<open>max_l1_blocks_to_scan_on_startup\<close> blocks. Without an event it reports that, or the
  default checkpoint for the whole chain.
\<close>

theorem checkpoint_scan_finds_latest:
  assumes "serves_events P inbox events" and "l1_block_number P = Inr latest"
  shows "scan_for_latest_checkpoint P inbox step max_blocks =
    (let logs = events_in events (if max_blocks = 0 then 0 else unat latest + 1 - unat max_blocks) (unat latest)
     in if logs \<noteq> [] then checkpoint_of_log P (last logs)
        else if max_blocks > 0 then Inl (CheckpointNotFound max_blocks)
        else Inr \<lparr>cp_batch_cursor = batch_cursor_default, cp_hotshot_height = 0\<rparr>)"
  using scan_finds [OF assms, of step max_blocks] by (simp add: checkpoint_of_events_def Let_def)

theorem checkpoint_scan_finds_latest_witness:
  "scan_for_latest_checkpoint c_provider (replicate 20 1) 2 0 =
     Inr \<lparr>cp_batch_cursor = \<lparr>last_batch_delayed_messages_read = 2, next_batch_start_pos = 30\<rparr>, cp_hotshot_height = 9\<rparr>"
proof -
  have s: "serves_events c_provider (replicate 20 1) c_events"
    by (simp add: serves_events_def c_provider_def)
  have l: "l1_block_number c_provider = Inr 10" by (simp add: c_provider_def)
  have e: "events_in c_events 0 10 = [\<lparr>hotshotBlock = 9, delayedMessageRead = 2, messageCount = 30\<rparr>]"
    by code_simp
  show ?thesis
    using checkpoint_scan_finds_latest [OF s l, of 2 0] e
    by (simp add: checkpoint_of_log_def c_provider_def to_u64_def)
qed



subsection \<open>The query client and the poller\<close>

text \<open>
  When the query node answers 404 to a block range it has announced, the poller treats
  it as a lag of the node: it waits the initial backoff and asks for the same range again, without growing its backoff
  and without skipping a block. Other failures of the request grow the backoff.
\<close>

lemma missing_range_is_lag:
  assumes "run_state (unverified_block_height C D ecfg) w = (Inr latest, w0)" and "from_block st < latest"
    and "run_state (fetch_limits C D ecfg) w = (Inr limits, w1)"
    and "stop = min (saturating_add (from_block st) HOTSHOT_RANGE_LIMIT) latest"
    and "stop - from_block st \<le> large_object_range_limit limits"
    and "rc_join C (base_url ecfg) (''availability/block/'' @ show_nat (unat (from_block st)) @ ''/'' @
         show_nat (unat stop) @ ''/namespace/'' @ show_nat (unat ns)) = Inr url"
    and "run_state (rc_get C url) w1 = (Inr (404, body), w2)"
  shows "poll_iteration cfg ns \<lparr>pi_reader = unverified_reader C D ecfg w, pi_channel_open = ch\<rparr> st =
    (st, PollSleep (unat (initial_backoff_ms cfg)))"
  using assms(1,2) range_404 [OF assms(3,5,6,7)]
  by (simp add: poll_iteration_def unverified_reader_def Let_def not_le flip: assms(4))

definition q_client :: "(unit, bytes) rest_client" where
  "q_client = \<lparr>rc_join = (\<lambda>base path. Inr (base @ path)),
     rc_get = (\<lambda>url. ret (Inr (if url = ''q/availability/block/5/9/namespace/7'' then (404, Inr []) else (200, Inr [1])))),
     rc_post = (\<lambda>url tx. ret (Inr (200, Inr [2]))), rc_status_text = (\<lambda>n. show_nat n)\<rparr>"

definition q_decoders :: "(bytes, bytes) client_decoders" where
  "q_decoders = \<lparr>dc_hash = (\<lambda>b. Inr b),
     dc_limits = (\<lambda>b. Inr \<lparr>small_object_range_limit = 500, large_object_range_limit = 100\<rparr>), dc_height = (\<lambda>b. Inr 9),
     dc_ranges = (\<lambda>b. Inr []), dc_query_data = (\<lambda>b. Inl ''none''), dc_show_hash = (\<lambda>h. ''h'')\<rparr>"

lemma missing_range_is_lag_example:
  "poll_iteration c_streamer_config 7
     \<lparr>pi_reader = unverified_reader q_client q_decoders \<lparr>base_url = ''q/'', client_timeout_secs = 30\<rparr> (),
      pi_channel_open = True\<rparr> \<lparr>from_block = 5, backoff = 4000\<rparr> =
     (\<lparr>from_block = 5, backoff = 4000\<rparr>, PollSleep 1000)"
proof -
  let ?cfg = "\<lparr>base_url = ''q/'', client_timeout_secs = 30\<rparr>" and ?st = "\<lparr>from_block = 5, backoff = 4000\<rparr>"
  have get: "run_state (client_get q_client dec url) () = (map_err AnyMsg (dec [1]), ())"
    if "url \<noteq> ''q/availability/block/5/9/namespace/7''" for url and dec :: "bytes \<Rightarrow> r_error + 'x"
    using that by (simp add: client_get_def run_io_then run_io_map_err q_client_def status_ok_def)
  have h: "run_state (unverified_block_height q_client q_decoders ?cfg) () = (Inr 9, ())"
    by (simp add: unverified_block_height_def fetch_latest_hotshot_block_height_def run_io_then run_io_map_err joined_def
        get q_decoders_def) (simp add: q_client_def get [unfolded q_client_def])
  have l: "run_state (fetch_limits q_client q_decoders ?cfg) () =
      (Inr \<lparr>small_object_range_limit = 500, large_object_range_limit = 100\<rparr>, ())"
    by (simp add: fetch_limits_def run_io_then run_io_map_err joined_def q_decoders_def)
       (simp add: q_client_def get [unfolded q_client_def])
  have five: "show_nat 5 = ''5''" "show_nat 9 = ''9''" "show_nat 7 = ''7''" by code_simp+
  have j: "rc_join q_client (base_url ?cfg) (''availability/block/'' @ show_nat (unat (from_block ?st)) @ ''/'' @
         show_nat (unat (9 :: u64)) @ ''/namespace/'' @ show_nat (unat (7 :: u64))) =
       Inr ''q/availability/block/5/9/namespace/7''"
    by (simp add: q_client_def five)
  have g: "run_state (rc_get q_client ''q/availability/block/5/9/namespace/7'') () = (Inr (404, Inr []), ())"
    by (simp add: q_client_def)
  have st: "9 = min (saturating_add (from_block ?st) HOTSHOT_RANGE_LIMIT) (9 :: u64)" by code_simp
  show ?thesis
    using missing_range_is_lag [OF h _ l st _ j g, where cfg = c_streamer_config and ch = True]
    by (simp add: c_streamer_config_def)
qed

subsection \<open>The submitter\<close>




text \<open>
  C37. A submission task ends, and releases its permit, once a submission succeeds after any
  number of failed ones and a poll finds the transaction within the allowed number of polls; and a transaction that is
  not found within that number is submitted again instead of being given up.
\<close>

theorem submission_finishes:
  assumes "length polls < max_finalization_poll_retries cfg"
    and "length missed = max 1 (max_finalization_poll_retries cfg)"
  shows "task_run cfg (task_phase (task_start cfg tx :: ('tx, 'h) task))
      (map (\<lambda>e. SubmitAnswer (Inl e)) errs @ SubmitAnswer (Inr h) # map (\<lambda>e. PollAnswer (Inl e)) polls @
       [PollAnswer (Inr (d :: ('tx, 'h) transaction_query_data))]) = None \<and>
    task_run cfg (task_phase (task_start cfg tx :: ('tx, 'h) task))
      (SubmitAnswer (Inr h) # map (\<lambda>e. PollAnswer (Inl e) :: ('tx, 'h) task_answer) missed) =
      Some (task_phase (task_start cfg tx :: ('tx, 'h) task))"
  using task_finishes [OF assms(1), of _ errs h d]
    task_resubmits [OF assms(2), of h "unat (sub_initial_backoff_ms cfg)"]
  by (simp add: task_start_def on_submit_def)

theorem submission_finishes_witness:
  "task_run submitter_config_default (Submitting 100)
     [SubmitAnswer (Inl (AnyMsg ''down'')), SubmitAnswer (Inr (7 :: nat)), PollAnswer (Inl AnyNotFound),
      PollAnswer (Inr \<lparr>qd_transaction = [1 :: u8], qd_hash = 7, qd_index = 0, qd_block_hash = [],
        qd_block_height = 3, qd_namespace = 7, qd_pos_in_namespace = 0\<rparr>)] = None"
proof -
  have m: "length (replicate 5 AnyNotFound) = max 1 (max_finalization_poll_retries submitter_config_default)"
    "length [AnyNotFound] < max_finalization_poll_retries submitter_config_default"
    by (simp_all add: submitter_config_default_def)
  show ?thesis
    using submission_finishes [OF m(2,1), of "[1 :: u8]" "[AnyMsg ''down'']" "7 :: nat"
        "\<lparr>qd_transaction = [1 :: u8], qd_hash = 7, qd_index = 0, qd_block_hash = [],
          qd_block_height = 3, qd_namespace = 7, qd_pos_in_namespace = 0\<rparr>"]
    by (simp add: task_start_def) (simp add: submitter_config_default_def)
qed

subsection \<open>Startup\<close>

text \<open>
  C29. If \<open>main\<close> gets as far as \<open>run\<close>'s tasks, then no placeholder is left in the configuration, the
  registration contract holds the enclave's key as valid, and streamer and feed client both start at the position
  that the checkpoint event (or, on a fresh deployment, the inbox) gives. The default build reads Espresso through the
  verifying light client.
\<close>

theorem startup_sound:
  fixes E :: "('w, 'h, 'log, 'g, 'lc) service_env"
  assumes "run_state (main_nitro N E cfg) w = (Inr svc, w')"
    and "\<And>url signer contract. truthful (tee_verifier (se_contract_rpc E url signer) contract) valid"
  shows "placeholder_free (run_config svc) \<and>
    valid w' (signer_addr (km_signer (run_key_manager svc))) (on_chain_tee_type (run_key_manager svc)) \<and>
    (\<exists>cursor h. resume_point (is_fresh_deployment (run_config svc)) (run_l1_monitor svc) = Inr (cursor, h) \<and>
       starting_pos (config (run_streamer svc)) = next_batch_start_pos cursor \<and>
       fc_next_seq_num (fr_client (run_feed_relay svc)) = next_batch_start_pos cursor \<and>
       (h = None \<longleftrightarrow> is_fresh_deployment (run_config svc)) \<and>
       (\<forall>height. h = Some height \<longrightarrow> starting_hotshot_height (config (run_streamer svc)) = height)) \<and>
    (\<not> se_e2e E \<and> \<not> se_unverified E \<longrightarrow> (\<exists>lc. run_reader svc = VerifiedReader lc))"
proof -
  obtain cfg' key w1 where l: "run_state (load_config E cfg) w = (Inr (cfg', key), w1)"
    and s: "run_state (setup_key_manager E cfg' key) w1 = (Inr (run_key_manager svc), w')"
    and b: "build_service N E cfg' (run_key_manager svc) (run_l1_monitor svc) = Inr svc"
    using main_nitro_Inr [OF assms(1)] .
  obtain cursor h where c: "resume_point (is_fresh_deployment cfg') (run_l1_monitor svc) = Inr (cursor, h)"
    "run_config svc = resolve_config_with_checkpoint cfg' cursor h"
    "config (run_streamer svc) = svc_streamer (run_config svc)"
    "fc_next_seq_num (fr_client (run_feed_relay svc)) = next_batch_start_pos cursor"
    "build_reader E (svc_espresso_client cfg') = Inr (run_reader svc)"
    using build_service_Inr [OF b] .
  have h: "h = None \<longleftrightarrow> is_fresh_deployment cfg'"
    using c(1) by (auto simp: resume_point_def and_then_eq_Inr split: if_splits)
  have "placeholder_free (run_config svc)"
    using load_config_Inr(1) [OF l] by (simp add: placeholder_free_def c(2))
  moreover have "valid w' (signer_addr (km_signer (run_key_manager svc))) (on_chain_tee_type (run_key_manager svc))"
    by (rule setup_key_manager_Inr [OF s assms(2)])
  moreover have "\<exists>lc. run_reader svc = VerifiedReader lc" if "\<not> se_e2e E" "\<not> se_unverified E"
    using build_reader_verified [OF c(5) that] by blast
  ultimately show ?thesis using c h by auto
qed

theorem startup_sound_witness:
  "run_state (main_nitro c_libs c_env c_service_config) False = (Inr c_svc, True) \<and> placeholder_free (run_config c_svc)"
proof -
  have t: "truthful (tee_verifier (se_contract_rpc c_env url signer) contract) (\<lambda>w a t. w)" for url signer contract
    by (simp add: truthful_def tee_verifier_def c_env_def b_rpc_def)
  show ?thesis using startup_sound [OF c_startup t] c_startup by blast
qed

subsection \<open>Egress\<close>

text \<open>
  C40. When the environment names a proxy for a scheme, the connectors of the L1 provider and of the
  feed client open TCP connections to the proxy's host only, whatever the target is and whatever fails.
\<close>

theorem egress_via_proxy:
  assumes "logs_dials dialled N" and "select_proxy (nu_scheme url = ''wss'') (nt_var N) = Some proxy_url"
    and "nt_parse N proxy_url = Inr proxy" and "nu_host proxy = Some host" and "nt_parse N url_text = Inr url"
  shows "dials_only dialled {host} (ws_proxy_connect N url_text) \<and> dials_only dialled {host} (connect_yawc N url)"
  using ws_proxy_connect_proxied [OF assms refl] connect_yawc_proxied [OF assms(1-4) refl] by blast

definition c_net :: "(string list, nat, nat) net" where
  "c_net = \<lparr>nt_var = (\<lambda>v. if v = ''HTTPS_PROXY'' then Some ''http://proxy:3128'' else None),
     nt_parse = (\<lambda>u. if u = ''http://proxy:3128'' then Inr \<lparr>nu_scheme = ''http'', nu_host = Some ''proxy'', nu_port = Some 3128\<rparr>
       else Inr \<lparr>nu_scheme = ''wss'', nu_host = Some ''l1'', nu_port = Some 443\<rparr>),
     nt_tcp_connect = (\<lambda>h p. State (\<lambda>w. (Inr p, w @ [h]))), nt_http_connect = (\<lambda>t h p. ret (Inr ())),
     nt_server_name = (\<lambda>h. True), nt_tls = (\<lambda>h t. ret (Inr t)), nt_client_request = (\<lambda>u. None),
     nt_client_async_tls = (\<lambda>u t. ret (Inr t)), nt_handshake = (\<lambda>u t. ret (Inr t))\<rparr>"

theorem egress_via_proxy_witness:
  "dials_only id {''proxy''} (ws_proxy_connect c_net ''wss://l1'') \<and>
   run_state (ws_proxy_connect c_net ''wss://l1'') [] = (Inr 3128, [''proxy''])"
proof -
  have l: "logs_dials id c_net" by (simp add: logs_dials_def dials_only_def c_net_def)
  have s: "select_proxy (nu_scheme \<lparr>nu_scheme = ''wss'', nu_host = Some ''l1'', nu_port = Some 443\<rparr> = ''wss'') (nt_var c_net) =
      Some ''http://proxy:3128''"
    by (simp add: select_proxy_def c_net_def)
  have p: "nt_parse c_net ''http://proxy:3128'' = Inr \<lparr>nu_scheme = ''http'', nu_host = Some ''proxy'', nu_port = Some 3128\<rparr>"
    and u: "nt_parse c_net ''wss://l1'' = Inr \<lparr>nu_scheme = ''wss'', nu_host = Some ''l1'', nu_port = Some 443\<rparr>"
    by (simp_all add: c_net_def)
  have r: "run_state (ws_proxy_connect c_net ''wss://l1'') [] = (Inr 3128, [''proxy''])"
    using s p u by (simp add: ws_proxy_connect_def open_tcp_def run_io_then) (simp add: c_net_def)
  show ?thesis using egress_via_proxy [OF l s p _ u] r by simp
qed

end
