(* ===== verification/Props_Feed.thy ===== *)
theory Props_Feed
  imports Concrete_Service
begin

text \<open>
  The properties of the feed: what a subscriber of the feed server is sent, the handshake, what the upstream client
  submits, and how it reconnects.
\<close>

subsection \<open>The server\<close>

text \<open>
  C10. A client subscribes after some broadcaster calls (\<open>ops\<close>), reads its backlog after some
  more (\<open>before\<close>), and receives all that is sent from its subscription on. While it is served, it is sent messages in
  strictly increasing order, so none twice, although the calls in \<open>before\<close> reach it both ways; it is sent every
  message from its requested number on that was unconfirmed when it read the backlog or that came later; and nothing
  that was not broadcast.
\<close>

theorem client_receives_each_once:
  assumes "increasing (fed (ops @ before @ after))"
    and "run_ws_client cfg ser (sh_backlog (run_ops (ws_shared (ws_server_new cfg chain)) (ops @ before))) seq_num start
      WriteOk evs n = (c, Running, n')"
    and "recvs evs = drop (length ops) (sh_sent (run_ops (ws_shared (ws_server_new cfg chain)) (ops @ before @ after)))"
  shows "increasing (concat (map bm_flat (cl_frames c))) \<and>
    {m \<in> set (unconfirmed (ops @ before)) \<union> set (fed after). seq_num \<le> sequence_number m}
      \<subseteq> set (concat (map bm_flat (cl_frames c))) \<and>
    set (concat (map bm_flat (cl_frames c))) \<subseteq> set (fed (ops @ before @ after))"
proof -
  have "sh_backlog (run_ops (ws_shared (ws_server_new cfg chain)) (ops @ before)) = unconfirmed (ops @ before)"
    using assms(1) by (intro run_ops_backlog) (simp add: increasing_append)
  then have run: "run_ws_client cfg ser (unconfirmed (ops @ before)) seq_num start WriteOk evs n = (c, Running, n')"
    using assms(2) by simp
  have "recvs evs = map op_bm (before @ after)"
    using assms(3) by (simp add: run_ops_sent) (simp add: ws_server_new_def)
  from client_receives_once [OF assms(1) run this] show ?thesis by blast
qed

definition f_ops :: "broadcaster_op list" where
  "f_ops = [Feed [c_message 1 1, c_message 2 2], Confirm 1]"

definition f_events :: "client_event list" where
  "f_events = [Recv (feed_messages_bm [c_message 3 3]) WriteOk, PingTick 10 WriteOk,
     Recv (feed_messages_bm [c_message 4 4]) WriteOk]"

lemma f_run:
  "\<exists>c n'. run_ws_client ws_broadcast_server_config_default (\<lambda>b. Inr [])
     (sh_backlog (run_ops (ws_shared (ws_server_new ws_broadcast_server_config_default 1)) (f_ops @ [Feed [c_message 3 3]])))
     2 0 WriteOk f_events 1 = (c, Running, n') \<and>
   concat (map bm_flat (cl_frames c)) = [c_message 2 2, c_message 3 3, c_message 4 4]"
  by (simp add: run_ws_client_def f_ops_def run_ops_def f_events_def broadcast_feed_messages_def broadcaster_confirm_def
      broadcast_def feed_messages_bm_def confirm_bm_def ws_server_new_def get_since_def backlog_append_def backlog_confirm_def
      bm_flat_def client_step_def should_send_def update_last_sent_def c_message_def ws_broadcast_server_config_default_def)
     (simp add: word_le_nat_alt)

theorem client_receives_each_once_witness:
  "\<exists>c n'. run_ws_client ws_broadcast_server_config_default (\<lambda>b. Inr [])
     (sh_backlog (run_ops (ws_shared (ws_server_new ws_broadcast_server_config_default 1)) (f_ops @ [Feed [c_message 3 3]])))
     2 0 WriteOk f_events 1 = (c, Running, n') \<and>
   increasing (concat (map bm_flat (cl_frames c))) \<and> c_message 4 4 \<in> set (concat (map bm_flat (cl_frames c)))"
proof -
  let ?sh = "ws_shared (ws_server_new ws_broadcast_server_config_default 1)"
  obtain c n' where r: "run_ws_client ws_broadcast_server_config_default (\<lambda>b. Inr [])
     (sh_backlog (run_ops ?sh (f_ops @ [Feed [c_message 3 3]]))) 2 0 WriteOk f_events 1 = (c, Running, n')"
    using f_run by blast
  have i: "increasing (fed (f_ops @ [Feed [c_message 3 3]] @ [Feed [c_message 4 4]]))"
    by (simp add: f_ops_def increasing_def c_message_def)
  have e: "recvs f_events = drop (length f_ops)
      (sh_sent (run_ops ?sh (f_ops @ [Feed [c_message 3 3]] @ [Feed [c_message 4 4]])))"
    by (simp add: run_ops_sent f_ops_def f_events_def) (simp add: ws_server_new_def)
  have "sequence_number (c_message 4 4) = 4" by (simp add: c_message_def)
  then have "c_message 4 4 \<in> {m \<in> set (unconfirmed (f_ops @ [Feed [c_message 3 3]])) \<union> set (fed [Feed [c_message 4 4]]).
      2 \<le> sequence_number m}" by simp
  with client_receives_each_once [OF i r e] r show ?thesis by blast
qed

subsection \<open>The handshake\<close>

text \<open>
  C31. The request of this client is accepted by this server, also when it requires a client version;
  the server reads the position the client asks for; and the client's check of the response passes unless it requires
  the chain id and the server's is another one, which it then reports.
\<close>

theorem handshake_agrees:
  assumes "map_of extra HEADER_FEED_CLIENT_VERSION = None" and "map_of extra HEADER_REQUESTED_SEQ_NUM = None"
    and "upgrade (server_enable_compression cfg) (extra @ feed_request_headers n) = Inr hs"
  shows "\<exists>resp. handle_upgrade cfg chain upgrade (extra @ feed_request_headers n) =
      Inr (resp, n, map_of hs SEC_WEBSOCKET_EXTENSIONS \<noteq> None) \<and>
    check_preflight_response dbg st c (101, resp) =
      (if require_chain_id (fc_config c) \<and> fc_chain_id c \<noteq> chain
       then Inl (IncorrectChainId (fc_chain_id c) (show_nat (unat chain))) else Inr ())"
  using handle_upgrade_request [of extra upgrade cfg n hs chain, OF assms]
    handshake [of cfg chain upgrade "extra @ feed_request_headers n" _ n _ dbg st c] by blast

definition f_client :: broadcaster_client where
  "f_client = client_new_with_verifier (broadcaster_client_config_default\<lparr>trusted_sequencer_addresses := [c_key]\<rparr>)
     ''ws://feed'' 42161 7 (verify_broadcast_feed_message_signature c_crypto c_rlp)"

theorem handshake_agrees_witness:
  "\<exists>resp. handle_upgrade ws_broadcast_server_config_default 42161 (\<lambda>b hs. Inr []) (feed_request_headers 7) =
     Inr (resp, 7, False) \<and>
   check_preflight_response (\<lambda>s. s) (\<lambda>n. []) f_client (101, resp) = Inr ()"
  using handshake_agrees [of "[]" "\<lambda>b hs. Inr []" ws_broadcast_server_config_default 7 "[]" 42161
      "\<lambda>s. s" "\<lambda>n. []" f_client]
  by (simp add: f_client_def client_new_with_verifier_def)

subsection \<open>The upstream client\<close>

text \<open>
  C30. Whatever the upstream server sends and however often the connection is lost, every
  message the client passes to the submitter has a signature the verifier accepts for the client's chain and trusted
  addresses.
\<close>

theorem client_submits_verified:
  assumes "client_start N from_slice (client_new_with_verifier cfg url chain pos verify) w evs =
      Some (Inr ((c, b, w'), slept, waits))"
  shows "\<forall>m \<in> set (fc_submitted c). is_ok (verify chain (trusted_sequencer_addresses cfg) m)"
proof -
  let ?c = "client_new_with_verifier cfg url chain pos verify"
  have "same_setup ?c c \<and> (\<exists>ms. fc_submitted c = fc_submitted ?c @ ms \<and> (\<forall>m \<in> set ms. verified_by ?c m))"
    using client_start_effect [OF assms] by blast
  then show ?thesis by (auto simp: client_new_with_verifier_def verified_by_def)
qed

text \<open>
  A network on which the second connection attempt fails, and a frame with a signed and a forged message. The world
  counts the attempts.
\<close>

definition f_net :: "(nat, unit) feed_net" where
  "f_net = \<lparr>fn_parse = (\<lambda>u. Inr (''ws'', u)), fn_set_scheme = (\<lambda>s u. Some (s, snd u)), fn_build = (\<lambda>t. Inr ()),
     fn_random_key = State_Monad.return ''key'',
     fn_get = (\<lambda>u hs. State (\<lambda>w. (if w = 1 then Inl ''down'' else Inr (101, [(HEADER_FEED_SERVER_VERSION, ''2''),
       (HEADER_CHAIN_ID, ''42161'')]), w + 1))),
     fn_connect = (\<lambda>u hs b t. ret (Inr ())), fn_debug = (\<lambda>s. s), fn_status_text = show_nat, fn_show_url = snd,
     fn_show_timeout = show_nat\<rparr>"

definition f_slice :: "bytes \<Rightarrow> string + broadcast_message" where
  "f_slice b = Inr (feed_messages_bm [c_message 7 1, (c_message 8 2)\<lparr>signature := replicate 65 0\<rparr>])"

definition f_config :: broadcaster_client_config where
  "f_config = broadcaster_client_config_default\<lparr>trusted_sequencer_addresses := [c_key]\<rparr>"

definition f_frames :: "frame_event list" where
  "f_frames = [DataFrame [] None 9, StreamEnd, OtherOpcode]"

lemma f_connect:
  assumes "fc_websocket_url c = ''ws://feed''" and "fc_config c = f_config" and "fc_chain_id c = 42161"
  shows "connect f_net c n w =
    (if w = 1 then (Inl (Connection ''preflight websocket request failed for ws://feed: down''), c, 2)
     else (Inr (), c\<lparr>fc_first_reconnect_attempt := True\<rparr>, w + 1))"
proof -
  have "check_preflight_response (fn_debug f_net) (fn_status_text f_net) c
      (101, [(HEADER_FEED_SERVER_VERSION, ''2''), (HEADER_CHAIN_ID, ''42161'')]) = Inr ()"
    unfolding check_preflight_response_def check_header_def assms by code_simp
  then show ?thesis
    by (simp add: connect_def assms f_net_def validate_preflight_headers_def run_io_then run_io_map_err)
qed

lemma f_signed:
  "verify_broadcast_feed_message_signature c_crypto c_rlp 42161 (trusted_sequencer_addresses f_config) (c_message 7 1) = Inr ()"
  "\<not> is_ok (verify_broadcast_feed_message_signature c_crypto c_rlp 42161 (trusted_sequencer_addresses f_config)
     ((c_message 8 2)\<lparr>signature := replicate 65 0\<rparr>))"
  unfolding f_config_def by code_simp+

lemma f_start:
  "\<exists>c. client_start f_net f_slice (client_new_with_verifier f_config ''ws://feed'' 42161 7
       (verify_broadcast_feed_message_signature c_crypto c_rlp)) 0 f_frames =
     Some (Inr ((c, reconnect_initial_backoff f_config, 3), [], [0, retry_connect_backoff_step f_config])) \<and>
   fc_submitted c = [c_message 7 1]"
proof -
  let ?v = "verify_broadcast_feed_message_signature c_crypto c_rlp"
  let ?c = "client_new_with_verifier f_config ''ws://feed'' 42161 7 ?v"
  have p: "process_message f_slice None 9 ?c [] =
      (Inr (), ?c\<lparr>fc_submitted := [c_message 7 1], fc_next_seq_num := 8\<rparr>)"
    using f_signed by (simp add: process_message_def f_slice_def client_new_with_verifier_def MESSAGE_VERSION_def
        feed_messages_bm_def bm_flat_def) (simp add: c_message_def)
  show ?thesis
    by (simp add: client_start_def f_frames_def start_connect.simps [of _ _ _ 0] retry_connect.simps [of _ _ _ "Suc 0"]
        retry_connect.simps [of _ _ _ 2] f_connect client_new_with_verifier_def read_step_def
        p [unfolded client_new_with_verifier_def])
       (simp add: f_config_def broadcaster_client_config_default_def)
qed

theorem client_submits_verified_witness:
  "\<exists>c b w' slept waits. client_start f_net f_slice (client_new_with_verifier f_config ''ws://feed'' 42161 7
       (verify_broadcast_feed_message_signature c_crypto c_rlp)) 0 f_frames = Some (Inr ((c, b, w'), slept, waits)) \<and>
   fc_submitted c = [c_message 7 1] \<and>
   is_ok (verify_broadcast_feed_message_signature c_crypto c_rlp 42161 (trusted_sequencer_addresses f_config) (c_message 7 1))"
proof -
  obtain c where r: "client_start f_net f_slice (client_new_with_verifier f_config ''ws://feed'' 42161 7
       (verify_broadcast_feed_message_signature c_crypto c_rlp)) 0 f_frames =
     Some (Inr ((c, reconnect_initial_backoff f_config, 3), [], [0, retry_connect_backoff_step f_config]))"
    and s: "fc_submitted c = [c_message 7 1]"
    using f_start by blast
  show ?thesis using client_submits_verified [OF r] r s by auto
qed

text \<open>
  C36. The read loop never sleeps for its reconnection backoff: a successful connection marks
  the next reconnect as the first one again. The waits between the attempts of one reconnection are bounded by the
  configured maximum and one step more.
\<close>

theorem reconnect_never_backs_off:
  assumes "client_start N from_slice (client_new_with_verifier cfg url chain pos verify) w evs =
      Some (Inr ((c, b, w'), slept, waits))"
  shows "slept = [] \<and> (\<forall>x \<in> set waits. x \<le> retry_connect_max_backoff cfg + retry_connect_backoff_step cfg)"
  using client_start_effect [OF assms] by (simp add: client_new_with_verifier_def)

theorem reconnect_never_backs_off_witness:
  "\<exists>c b w' waits. client_start f_net f_slice (client_new_with_verifier f_config ''ws://feed'' 42161 7
       (verify_broadcast_feed_message_signature c_crypto c_rlp)) 0 f_frames = Some (Inr ((c, b, w'), [], waits)) \<and>
   waits = [0, retry_connect_backoff_step f_config] \<and>
   retry_connect_backoff_step f_config \<le> retry_connect_max_backoff f_config + retry_connect_backoff_step f_config"
proof -
  obtain c where r: "client_start f_net f_slice (client_new_with_verifier f_config ''ws://feed'' 42161 7
       (verify_broadcast_feed_message_signature c_crypto c_rlp)) 0 f_frames =
     Some (Inr ((c, reconnect_initial_backoff f_config, 3), [], [0, retry_connect_backoff_step f_config]))"
    using f_start by blast
  show ?thesis using reconnect_never_backs_off [OF r] r by simp
qed

end
