(* ===== verification/Mock_Rollup.thy ===== *)
theory Mock_Rollup
  imports Streamer_Chain
begin

text \<open>
  The second implementation of the \<open>Rollup\<close> trait (\<open>src/espresso_e2e/mock_rollup.rs\<close>), which the streamer's own tests
  run on: a transaction ends in the eight bytes of its sequence number. The functions left as \<open>todo!()\<close> are parameters.
  Like the Nitro stack it meets the streamer's contract, so the streamer's theorems hold for it.
\<close>

record mock_entry =
  seq_num :: u64
  mock_hotshot_height :: u64

datatype mock_batch_cursor = MockBatchCursor

datatype mock_batch_message = MockBatchMessage

definition mock_parse_batch :: "bytes \<Rightarrow> r_error + mock_batch_message list" where
  "mock_parse_batch data = Inr []"

definition mock_build_espresso_tx_payload :: "mock_entry list \<Rightarrow> bytes" where
  "mock_build_espresso_tx_payload entries = []"

definition make_entry :: "u64 \<Rightarrow> u64 \<Rightarrow> mock_entry" where
  "make_entry sq height = \<lparr>seq_num = sq, mock_hotshot_height = height\<rparr>"

text \<open>A payload of fewer than eight bytes makes the source panic; every payload of the tests has at least eight.\<close>

definition mock_parse_tx :: "u64 \<Rightarrow> bytes \<Rightarrow> mock_entry" where
  "mock_parse_tx height payload = make_entry (from_be_bytes (drop (length payload - 8) payload)) height"

fun mock_parse_hotshot_transactions :: "unit \<Rightarrow> bytes list list \<Rightarrow> u64 \<Rightarrow> mock_entry list" where
  "mock_parse_hotshot_transactions cfg [] height = []"
| "mock_parse_hotshot_transactions cfg (block_txs # blocks) height =
     map (mock_parse_tx height) block_txs @ mock_parse_hotshot_transactions cfg blocks (height + 1)"

definition mock_rollup ::
  "(mock_batch_message list \<Rightarrow> mock_entry list \<Rightarrow> mock_batch_cursor \<Rightarrow> verification_result)
     \<Rightarrow> (unit, bytes, mock_entry, mock_batch_message, mock_entry, mock_batch_cursor) rollup" where
  "mock_rollup todo_verify =
     \<lparr>r_sequence_number = seq_num, r_hotshot_height = mock_hotshot_height, r_parse_batch_data = mock_parse_batch,
      r_convert_entry_to_feed_message = (\<lambda>e. e), r_parse_hotshot_transactions = mock_parse_hotshot_transactions,
      r_verify_batch_messages = todo_verify, r_batch_cursor_default = MockBatchCursor\<rparr>"

definition make_mock_espresso_transaction :: "u64 \<Rightarrow> bytes" where
  "make_mock_espresso_transaction sq = to_be_bytes sq"

lemma mock_rollup_simps [simp]:
  "r_sequence_number (mock_rollup t) = seq_num" "r_hotshot_height (mock_rollup t) = mock_hotshot_height"
  "r_parse_hotshot_transactions (mock_rollup t) = mock_parse_hotshot_transactions"
  "r_convert_entry_to_feed_message (mock_rollup t) e = e"
  by (simp_all add: mock_rollup_def)

interpretation mock: rollup_contract "mock_rollup todo_verify" for todo_verify
  by unfold_locales (auto simp: mock_parse_tx_def make_entry_def)

lemma mock_transaction_parses: "mock_parse_tx h (make_mock_espresso_transaction sq) = make_entry sq h"
  by (simp add: mock_parse_tx_def make_mock_espresso_transaction_def from_be_to_be length_to_be_bytes)

end
