(* ===== verification/Tests_Streamer.thy ===== *)
theory Tests_Streamer
  imports Mock_Rollup "HOL-Library.Code_Target_Nat"
begin

text \<open>
  The streamer's unit tests (\<open>src/streamer/streamer_tests.rs\<close>) on the model: one definition per test, which runs the
  test's calls and is its assertions, and a lemma that evaluates it. Tests against a running node are left out, except
  that the node's part is played by a list of answers where the test only reads from it.
\<close>

definition test_rollup :: "(unit, bytes, mock_entry, mock_batch_message, mock_entry, mock_batch_cursor) rollup" where
  "test_rollup = mock_rollup (\<lambda>ms q c. vr_failure)"

definition make_streamer_with_cap :: "u64 \<Rightarrow> nat \<Rightarrow> (mock_entry, unit) streamer" where
  "make_streamer_with_cap start cap =
     streamer_new
       \<lparr>initial_backoff_ms = 1, max_backoff_ms = 1, retry_broadcast_delay_ms = 1000, starting_pos = start,
        starting_hotshot_height = 1, max_full_queue_entries = cap, hotshot_stall_warn_ms = 30000,
        progress_log_interval_ms = 15000\<rparr>
       \<lparr>namespace_id = 1918988905, stack = ()\<rparr>"

definition make_streamer :: "u64 \<Rightarrow> (mock_entry, unit) streamer" where
  "make_streamer start = make_streamer_with_cap start 1000"

definition queue_positions :: "(mock_entry, unit) streamer \<Rightarrow> u64 list" where
  "queue_positions s = map seq_num (queue s)"

definition entry_positions :: "mock_entry list \<Rightarrow> u64 list" where
  "entry_positions es = map seq_num es"

definition stub_positions :: "(mock_entry, unit) streamer \<Rightarrow> u64 list" where
  "stub_positions s = map fst (bt_iter (stubs s))"

definition stub_entries :: "(mock_entry, unit) streamer \<Rightarrow> (u64 \<times> u64) list" where
  "stub_entries s = bt_iter (stubs s)"

definition test_filter :: "mock_entry list \<Rightarrow> (mock_entry, unit) streamer \<Rightarrow> (mock_entry, unit) streamer" where
  "test_filter = filter_messages test_rollup"

text \<open>The reader of the tests that never poll: it has no node behind it.\<close>

definition no_node :: "bytes espresso_reader" where
  "no_node = \<lparr>block_height = Inl (LcClient (AnyMsg ''unreachable'')),
     namespace_transactions_in_range = (\<lambda>ns start stop. Inl (LcClient (AnyMsg ''unreachable'')))\<rparr>"

definition test_finalize :: "bytes espresso_reader \<Rightarrow> u64 \<Rightarrow> (mock_entry, unit) streamer \<Rightarrow> (mock_entry, unit) streamer" where
  "test_finalize = handle_finalization test_rollup"

subsection \<open>Queue logic\<close>

definition test_find_contiguous_entries_after :: bool where
  "test_find_contiguous_entries_after \<longleftrightarrow>
     find_contiguous_entries_after seq_num ([] :: mock_entry list) 0 = [] \<and>
     entry_positions (find_contiguous_entries_after seq_num [make_entry 1 1, make_entry 2 1, make_entry 3 1] 0) = [1, 2, 3] \<and>
     entry_positions (find_contiguous_entries_after seq_num [make_entry 1 1, make_entry 2 1, make_entry 3 1] 1) = [2, 3] \<and>
     entry_positions (find_contiguous_entries_after seq_num [make_entry 2 1, make_entry 4 1, make_entry 5 1] 1) = [2] \<and>
     find_contiguous_entries_after seq_num [make_entry 5 1, make_entry 6 1] 3 = [] \<and>
     entry_positions (find_contiguous_entries_after seq_num [make_entry 2 1, make_entry 2 1, make_entry 3 1] 1) = [2]"

definition test_filter_messages :: bool where
  "test_filter_messages \<longleftrightarrow>
     queue_positions (test_filter [make_entry 1 1, make_entry 5 1, make_entry 4 1, make_entry 2 1, make_entry 3 1]
       (make_streamer 1)) = [1, 2, 3, 4, 5] \<and>
     queue_positions (test_filter [make_entry 5 1] (test_filter [make_entry 5 1] (make_streamer 1))) = [5] \<and>
     queue_positions (test_filter [make_entry 1 1] (test_filter [make_entry 5 1] (make_streamer 5))) = [5]"

definition test_filter_messages_overflows_to_stubs :: bool where
  "test_filter_messages_overflows_to_stubs \<longleftrightarrow>
     (let s = test_filter [make_entry 1 10, make_entry 2 10, make_entry 3 11, make_entry 4 12, make_entry 5 13]
                (make_streamer_with_cap 1 3);
          s' = test_filter [make_entry 0 9] s
      in queue_positions s = [1, 2, 3] \<and> stub_positions s = [4, 5] \<and> stub_entries s = [(4, 12), (5, 13)] \<and>
         queue_positions s' = [1, 2, 3] \<and> stub_positions s' = [4, 5]) \<and>
     (let s = test_filter [make_entry 2 20, make_entry 4 22, make_entry 6 24] (make_streamer_with_cap 1 3);
          s1 = test_filter [make_entry 3 21] s;
          s2 = test_filter [make_entry 6 24] s1;
          s3 = test_filter [make_entry 3 21] s2
      in queue_positions s = [2, 4, 6] \<and>
         queue_positions s1 = [2, 3, 4] \<and> stub_entries s1 = [(6, 24)] \<and>
         queue_positions s2 = [2, 3, 4] \<and> stub_entries s2 = [(6, 24)] \<and>
         queue_positions s3 = [2, 3, 4] \<and> stub_entries s3 = [(6, 24)])"

definition test_filter_messages_leaves_stubs_alone :: bool where
  "test_filter_messages_leaves_stubs_alone \<longleftrightarrow>
     (let s = test_filter [make_entry 1 10, make_entry 2 11, make_entry 3 12, make_entry 4 13] (make_streamer_with_cap 1 2);
          s1 = test_filter [make_entry 3 12, make_entry 4 13] (s\<lparr>queue := []\<rparr>);
          s2 = test_filter [make_entry 3 99] s1
      in queue_positions s = [1, 2] \<and> stub_entries s = [(3, 12), (4, 13)] \<and>
         queue_positions s1 = [] \<and> stub_entries s1 = [(3, 12), (4, 13)] \<and> stub_entries s2 = [(3, 12), (4, 13)])"

subsection \<open>Finalization\<close>

definition test_out_of_order_seq_overflows_to_stubs_and_finalization_clears :: bool where
  "test_out_of_order_seq_overflows_to_stubs_and_finalization_clears \<longleftrightarrow>
     (let s = test_filter [make_entry 2 10, make_entry 3 11, make_entry 4 12, make_entry 5 13, make_entry 6 14]
                (make_streamer_with_cap 1 3);
          s1 = test_finalize no_node 4 (s\<lparr>stubs := []\<rparr>);
          s2 = test_finalize no_node 5 (s1\<lparr>stubs := bt_insert 6 14 (bt_insert 5 13 (stubs s1))\<rparr>)
      in queue_positions s = [2, 3, 4] \<and> stub_entries s = [(5, 13), (6, 14)] \<and> last_broadcast_position s = 0 \<and>
         queue_positions s1 = [] \<and> finalized_idx s1 = 4 \<and> last_broadcast_position s1 = 4 \<and>
         stub_entries s2 = [(6, 14)] \<and> finalized_idx s2 = 5)"

definition test_handle_finalization_noop_when_not_advancing :: bool where
  "test_handle_finalization_noop_when_not_advancing \<longleftrightarrow>
     (let s = test_finalize no_node 2 (test_filter [make_entry 2 10, make_entry 3 11] (make_streamer_with_cap 1 5));
          s' = test_finalize no_node 2 (test_finalize no_node 1 s)
      in queue_positions s = [3] \<and> finalized_idx s = 2 \<and> last_broadcast_position s = 2 \<and>
         queue_positions s' = [3] \<and> finalized_idx s' = 2 \<and> last_broadcast_position s' = 2)"

text \<open>The transactions 10 to 1, one per block from height 1 on, as the node returns them.\<close>

definition reverse_chain :: "u64 \<Rightarrow> bytes list" where
  "reverse_chain h = (if 1 \<le> h \<and> h \<le> 10 then [make_mock_espresso_transaction (11 - h)] else [])"

definition reverse_reader :: "bytes espresso_reader" where
  "reverse_reader = \<lparr>block_height = Inr 11, namespace_transactions_in_range = (\<lambda>ns start stop.
     Inr (map (\<lambda>i. reverse_chain (start + of_nat i)) [0..<unat (stop - start)]))\<rparr>"

definition test_reverse_order_fills_stubs_then_finalization_promotes :: bool where
  "test_reverse_order_fills_stubs_then_finalization_promotes \<longleftrightarrow>
     (let s = test_filter (mock_parse_hotshot_transactions () (map (\<lambda>i. reverse_chain (of_nat i)) [0..<11]) 0)
                (make_streamer_with_cap 4 3);
          s1 = test_finalize reverse_reader 6 s;
          s2 = test_finalize reverse_reader 9 s1
      in queue_positions s = [4, 5, 6] \<and> stub_positions s = [7, 8, 9, 10] \<and>
         queue_positions s1 = [7, 8, 9] \<and> stub_positions s1 = [10] \<and> finalized_idx s1 = 6 \<and>
         last_broadcast_position s1 = 6 \<and> queue_positions s2 = [10] \<and> stub_positions s2 = [])"

subsection \<open>Delayed delivery\<close>

definition seq_at_height :: "u64 \<Rightarrow> u64 option" where
  "seq_at_height height =
     (if height = 4 then None else if height = 11 then Some 4
      else if 1 \<le> height \<and> height \<le> 10 then Some height else None)"

definition mock_espresso_reader :: "nat \<Rightarrow> bytes espresso_reader" where
  "mock_espresso_reader calls =
     \<lparr>block_height = Inr (if calls = 0 then 7 else 12),
      namespace_transactions_in_range = (\<lambda>ns start stop. Inr (map (\<lambda>i.
        case seq_at_height (start + of_nat i) of Some sq \<Rightarrow> [make_mock_espresso_transaction sq] | None \<Rightarrow> [])
        [0..<unat (stop - start)]))\<rparr>"

text \<open>A feed channel of capacity 100, and the loop of the test over the poller's deliveries.\<close>

definition feed_send :: "mock_entry list \<Rightarrow> mock_entry \<Rightarrow> try_send_error + mock_entry list" where
  "feed_send ch m = (if length ch < 100 then Inr (ch @ [m]) else Inl Full)"

fun drive ::
  "(bytes list list \<times> u64) list \<Rightarrow> (mock_entry, unit) streamer \<Rightarrow> broadcast_retry \<Rightarrow> mock_entry list
     \<Rightarrow> (mock_entry, unit) streamer \<times> mock_entry list" where
  "drive [] s retry ch = (s, ch)"
| "drive ((txns, height) # rest) s retry ch =
     (if last_broadcast_position s \<ge> 10 then (s, ch)
      else case handle_hotshot_transactions test_rollup feed_send txns height s retry ch of
        (s', retry', ch', sent) \<Rightarrow> drive rest s' retry' ch')"

definition test_dropped_message_recovers_when_resubmitted_out_of_order :: bool where
  "test_dropped_message_recovers_when_resubmitted_out_of_order \<longleftrightarrow>
     (let cfg = \<lparr>initial_backoff_ms = 20, max_backoff_ms = 50, retry_broadcast_delay_ms = 1000, starting_pos = 0,
            starting_hotshot_height = 1, max_full_queue_entries = 1000, hotshot_stall_warn_ms = 30000,
            progress_log_interval_ms = 15000\<rparr>;
          deliveries = snd (poll_hotshot_blocks cfg 1918988905
            (map (\<lambda>n. \<lparr>pi_reader = mock_espresso_reader n, pi_channel_open = True\<rparr>) [0..<2]) (poll_init cfg 1));
          (s, broadcasted) = drive deliveries (streamer_new cfg \<lparr>namespace_id = 1918988905, stack = ()\<rparr>) retry_new []
      in entry_positions broadcasted = [1, 2, 3, 4, 5, 6, 7, 8, 9, 10] \<and> last_broadcast_position s = 10)"

subsection \<open>They pass\<close>

lemma find_contiguous_entries_after_passes: "test_find_contiguous_entries_after"
  by code_simp

lemma filter_messages_passes: "test_filter_messages"
  by code_simp

lemma filter_messages_overflows_to_stubs_passes: "test_filter_messages_overflows_to_stubs"
  by code_simp

lemma filter_messages_leaves_stubs_alone_passes: "test_filter_messages_leaves_stubs_alone"
  by code_simp

lemma out_of_order_seq_overflows_to_stubs_and_finalization_clears_passes: "test_out_of_order_seq_overflows_to_stubs_and_finalization_clears"
  by code_simp

lemma handle_finalization_noop_when_not_advancing_passes: "test_handle_finalization_noop_when_not_advancing"
  by code_simp

lemma reverse_order_fills_stubs_then_finalization_promotes_passes: "test_reverse_order_fills_stubs_then_finalization_promotes"
  by code_simp

lemma dropped_message_recovers_when_resubmitted_out_of_order_passes: "test_dropped_message_recovers_when_resubmitted_out_of_order"
  by code_simp

end
