(* ===== verification/Tests_Nitro.thy ===== *)
theory Tests_Nitro
  imports Rlp_Instance Nitro "HOL-Library.Code_Target_Nat"
begin

text \<open>
  The unit tests of the Nitro stack on the model: the batch parser (\<open>src/rollups/nitro/batch_parsing.rs\<close>), the RLP codec
  (\<open>src/rollups/nitro/types.rs\<close>), batch verification and the legacy payload format (\<open>src/rollups/nitro/nitro_tests.rs\<close>).
  The tests of the batch parser are proved for every pair of codecs that keeps its documented behaviour; the others are
  evaluated, with the concrete RLP codec of \<open>Rlp_Instance\<close>.
\<close>

subsection \<open>The batch parser\<close>

record batch_codecs =
  brotli_read :: brotli_reader
  brotli_compress :: "bytes \<Rightarrow> bytes"
  rlp_decode :: rlp_bytes_decoder
  rlp_encode :: "bytes \<Rightarrow> bytes"

text \<open>
  What the tests rely on: both codecs invert their encoders, whose output is not much longer than the input; bytes
  that are no Brotli stream, and a byte below 128 encoded with a header, are refused.
\<close>

definition codecs_ok :: "batch_codecs \<Rightarrow> bool" where
  "codecs_ok T \<longleftrightarrow> brotli_inverts (brotli_read T) (brotli_compress T) \<and> rlp_decodes (rlp_decode T) (rlp_encode T) \<and>
     (\<forall>x. length (brotli_compress T x) \<le> 2 * length x + 1024) \<and>
     (\<forall>x. length x < 2 ^ 64 \<longrightarrow> length (rlp_encode T x) \<le> length x + 9) \<and>
     (\<forall>n. \<not> is_ok (brotli_read T [0xff, 0xff, 0xff] n) \<and> \<not> is_ok (brotli_read T [0xff, 0xff, 0xff, 0xff] n)) \<and>
     (\<exists>e. rlp_decode T [0x81, 0] = Inl e \<and> e \<noteq> InputTooShort)"

definition t_parse :: "batch_codecs \<Rightarrow> bytes \<Rightarrow> r_error + batch_message list" where
  "t_parse T = parse_batch (brotli_read T) (rlp_decode T)"

definition wrap_brotli :: "batch_codecs \<Rightarrow> bytes \<Rightarrow> bytes" where
  "wrap_brotli T inner = BROTLI_HEADER_BYTE # brotli_compress T inner"

definition err_contains :: "string \<Rightarrow> r_error + 'a \<Rightarrow> bool" where
  "err_contains needle r = (case r of Inl e \<Rightarrow> str_contains needle e | Inr _ \<Rightarrow> False)"

definition str_bytes :: "string \<Rightarrow> bytes" where
  "str_bytes s = map (\<lambda>c. of_nat (of_char c)) s"

definition empty_payload_errors :: "batch_codecs \<Rightarrow> bool" where
  "empty_payload_errors T \<longleftrightarrow>
     err_contains ''empty'' (t_parse T [])"

definition unsupported_header_byte_errors :: "batch_codecs \<Rightarrow> bool" where
  "unsupported_header_byte_errors T \<longleftrightarrow>
     err_contains ''unsupported batch header byte'' (t_parse T [0x42, 0, 0, 0])"

definition invalid_brotli_errors :: "batch_codecs \<Rightarrow> bool" where
  "invalid_brotli_errors T \<longleftrightarrow>
     \<not> is_ok (t_parse T [BROTLI_HEADER_BYTE, 0xff, 0xff, 0xff, 0xff])"

definition malformed_rlp_errors :: "batch_codecs \<Rightarrow> bool" where
  "malformed_rlp_errors T \<longleftrightarrow>
     err_contains ''error parsing sequencer message segment'' (t_parse T (wrap_brotli T [0x81, 0x00]))"

definition parses_l2_msg_segment :: "batch_codecs \<Rightarrow> bool" where
  "parses_l2_msg_segment T \<longleftrightarrow>
     (let segment = BATCH_SEGMENT_KIND_L2_MESSAGE # str_bytes ''hello''; inner = rlp_encode T segment
      in t_parse T (wrap_brotli T inner) = Inr [L2Msg (str_bytes ''hello'')])"

definition parses_delayed_msg_segment :: "batch_codecs \<Rightarrow> bool" where
  "parses_delayed_msg_segment T \<longleftrightarrow>
     (let segment = [BATCH_SEGMENT_KIND_DELAYED_MESSAGES]; inner = rlp_encode T segment
      in t_parse T (wrap_brotli T inner) = Inr [DelayedMsg])"

definition parses_brotli_l2_msg_segment :: "batch_codecs \<Rightarrow> bool" where
  "parses_brotli_l2_msg_segment T \<longleftrightarrow>
     (let inner_l2 = str_bytes ''compressed payload'';
          segment = BATCH_SEGMENT_KIND_L2_MESSAGE_BROTLI # brotli_compress T inner_l2;
          inner = rlp_encode T segment
      in t_parse T (wrap_brotli T inner) = Inr [L2Msg inner_l2])"

definition brotli_l2_msg_oversize_errors :: "batch_codecs \<Rightarrow> bool" where
  "brotli_l2_msg_oversize_errors T \<longleftrightarrow>
     (let huge = replicate (MAX_L2_MESSAGE_SIZE + 1) 0;
          segment = BATCH_SEGMENT_KIND_L2_MESSAGE_BROTLI # brotli_compress T huge;
          l2_inner = rlp_encode T segment;
          delayed_inner = rlp_encode T [BATCH_SEGMENT_KIND_DELAYED_MESSAGES];
          combined = l2_inner @ delayed_inner
      in err_contains ''would replay as a placeholder'' (t_parse T (wrap_brotli T combined)))"

definition brotli_l2_msg_undecompressable_errors :: "batch_codecs \<Rightarrow> bool" where
  "brotli_l2_msg_undecompressable_errors T \<longleftrightarrow>
     (let segment = BATCH_SEGMENT_KIND_L2_MESSAGE_BROTLI # [0xff, 0xff, 0xff];
          inner = rlp_encode T segment
      in err_contains ''would replay as a placeholder'' (t_parse T (wrap_brotli T inner)))"

definition segment_that_would_become_a_placeholder_does_not_shift_the_stream :: "batch_codecs \<Rightarrow> bool" where
  "segment_that_would_become_a_placeholder_does_not_shift_the_stream T \<longleftrightarrow>
     (let a = BATCH_SEGMENT_KIND_L2_MESSAGE # str_bytes ''A'';
          corrupt = BATCH_SEGMENT_KIND_L2_MESSAGE_BROTLI # [0xff, 0xff, 0xff];
          b = BATCH_SEGMENT_KIND_L2_MESSAGE # str_bytes ''B'';
          inner = rlp_encode T a @ rlp_encode T corrupt @ rlp_encode T b
      in \<not> is_ok (t_parse T (wrap_brotli T inner)))"

definition unknown_kind_errors :: "batch_codecs \<Rightarrow> bool" where
  "unknown_kind_errors T \<longleftrightarrow>
     (let segment = [0xff, 0x01, 0x02]; inner = rlp_encode T segment
      in err_contains ''unknown batch segment kind'' (t_parse T (wrap_brotli T inner)))"

definition advance_segments_consume_no_slot :: "batch_codecs \<Rightarrow> bool" where
  "advance_segments_consume_no_slot T \<longleftrightarrow>
     (let inner = rlp_encode T [BATCH_SEGMENT_KIND_ADVANCE_TIMESTAMP, 0x84] @
            rlp_encode T [BATCH_SEGMENT_KIND_ADVANCE_L1_BLOCK_NUMBER, 0x84] @
            rlp_encode T (BATCH_SEGMENT_KIND_L2_MESSAGE # str_bytes ''hello'')
      in t_parse T (wrap_brotli T inner) = Inr [L2Msg (str_bytes ''hello'')])"

definition empty_segment_skipped :: "batch_codecs \<Rightarrow> bool" where
  "empty_segment_skipped T \<longleftrightarrow>
     (let inner = rlp_encode T [] in t_parse T (wrap_brotli T inner) = Inr [])"

definition max_segments_enforced :: "batch_codecs \<Rightarrow> bool" where
  "max_segments_enforced T \<longleftrightarrow>
     (let one = rlp_encode T [BATCH_SEGMENT_KIND_DELAYED_MESSAGES];
          inner = concat (replicate (MAX_SEGMENTS + 1) one)
      in err_contains ''too many segments'' (t_parse T (wrap_brotli T inner)))"

definition decompressed_oversize_errors :: "batch_codecs \<Rightarrow> bool" where
  "decompressed_oversize_errors T \<longleftrightarrow>
     (let huge = replicate (MAX_DECOMPRESSED_LEN + 1) 0
      in err_contains ''too large'' (t_parse T (BROTLI_HEADER_BYTE # brotli_compress T huge)))"

subsection \<open>RLP\<close>

definition rlp_roundtrips :: "l1_incoming_message \<Rightarrow> l1_incoming_message \<Rightarrow> bool" where
  "rlp_roundtrips original expected \<longleftrightarrow>
     decode_l1_message std_rlp (encode_l1_message std_rlp original) = Inr (expected, [])"

definition test_rlp_roundtrip_message_with_block_hash_and_metadata :: bool where
  "test_rlp_roundtrip_message_with_block_hash_and_metadata \<longleftrightarrow>
     (let h = \<lparr>header_kind = 0, poster = replicate 20 0, block_number = 0, timestamp = 0,
            request_id = Some (replicate 32 0), l1_base_fee = Some 0\<rparr>;
          original = \<lparr>header = Some h, l2msg = [0xde, 0xad, 0xbe, 0xef], legacy_batch_gas_cost = None, data_stats = None\<rparr>
      in rlp_roundtrips original (original\<lparr>header := Some (h\<lparr>l1_base_fee := None\<rparr>)\<rparr>))"

definition test_rlp_roundtrip_nil_request_id_and_base_fee :: bool where
  "test_rlp_roundtrip_nil_request_id_and_base_fee \<longleftrightarrow>
     (let h = \<lparr>header_kind = 0, poster = replicate 20 0, block_number = 0, timestamp = 0,
            request_id = None, l1_base_fee = None\<rparr>;
          original = \<lparr>header = Some h, l2msg = [], legacy_batch_gas_cost = None, data_stats = None\<rparr>
      in rlp_roundtrips original original)"

definition test_rlp_roundtrip_nontrivial_values :: bool where
  "test_rlp_roundtrip_nontrivial_values \<longleftrightarrow>
     (let h = \<lparr>header_kind = 3, poster = nat_to_be 20 0xA4b000000000000000000073657175656e636572,
            block_number = 1000, timestamp = 1700000000,
            request_id = Some (replicate 31 0 @ [0xa1]), l1_base_fee = Some 1000000000\<rparr>;
          original = \<lparr>header = Some h, l2msg = [1, 2, 3], legacy_batch_gas_cost = None, data_stats = None\<rparr>
      in rlp_roundtrips original original)"

subsection \<open>Batch verification\<close>

definition make_feed_message :: "message_with_metadata \<Rightarrow> u64 \<Rightarrow> broadcast_feed_message" where
  "make_feed_message msg pos =
     \<lparr>sequence_number = pos, feed_message_body = msg, signature = [], block_metadata = [],
      cumulative_sum_msg_size = 0, block_hash = None\<rparr>"

definition make_entry_with_l2msg :: "bytes \<Rightarrow> u64 \<Rightarrow> u64 \<Rightarrow> nitro_rollup_queue_entry" where
  "make_entry_with_l2msg msg delayed pos =
     \<lparr>feed_message = make_feed_message
        \<lparr>message = Some \<lparr>header = None, l2msg = msg, legacy_batch_gas_cost = None, data_stats = None\<rparr>,
         delayed_messages_read = delayed\<rparr> pos,
      hotshot_height = 1\<rparr>"

definition make_entry_no_message :: "u64 \<Rightarrow> u64 \<Rightarrow> nitro_rollup_queue_entry" where
  "make_entry_no_message delayed pos =
     \<lparr>feed_message = make_feed_message \<lparr>message = None, delayed_messages_read = delayed\<rparr> pos, hotshot_height = 1\<rparr>"

definition t_verify ::
  "u64 \<Rightarrow> u64 \<Rightarrow> batch_message list \<Rightarrow> nitro_rollup_queue_entry list \<Rightarrow> verification_result" where
  "t_verify delayed pos batch q =
     verify_batch_messages batch q \<lparr>last_batch_delayed_messages_read = delayed, next_batch_start_pos = pos\<rparr>"

definition accepts_range :: "verification_result \<Rightarrow> u64 \<Rightarrow> u64 \<Rightarrow> bool" where
  "accepts_range r start stop \<longleftrightarrow> success r \<and> start_message_position r = start \<and> end_message_position r = stop"

definition test_verify_batch_more_batch_than_streamer :: bool where
  "test_verify_batch_more_batch_than_streamer \<longleftrightarrow>
     \<not> success (t_verify 0 0 [DelayedMsg, DelayedMsg] [make_entry_no_message 1 0])"

definition test_verify_batch_l2msg_match :: bool where
  "test_verify_batch_l2msg_match \<longleftrightarrow>
     (let content = str_bytes ''hello world''
      in accepts_range (t_verify 0 0 [L2Msg content] [make_entry_with_l2msg content 0 0]) 0 0)"

definition test_verify_batch_l2msg_mismatch :: bool where
  "test_verify_batch_l2msg_mismatch \<longleftrightarrow>
     \<not> success (t_verify 0 0 [L2Msg (str_bytes ''hello'')] [make_entry_with_l2msg (str_bytes ''world'') 0 0])"

definition test_verify_batch_l2msg_none_message :: bool where
  "test_verify_batch_l2msg_none_message \<longleftrightarrow>
     \<not> success (t_verify 0 0 [L2Msg (str_bytes ''hello'')] [make_entry_no_message 0 0])"

definition test_verify_batch_delayed_msg_first_entry_valid :: bool where
  "test_verify_batch_delayed_msg_first_entry_valid \<longleftrightarrow>
     accepts_range (t_verify 5 0 [DelayedMsg] [make_entry_no_message 6 0]) 0 0"

definition test_verify_batch_delayed_msg_first_entry_invalid :: bool where
  "test_verify_batch_delayed_msg_first_entry_invalid \<longleftrightarrow>
     \<not> success (t_verify 5 0 [DelayedMsg] [make_entry_no_message 7 0])"

definition test_verify_batch_delayed_msg_subsequent_entry_valid :: bool where
  "test_verify_batch_delayed_msg_subsequent_entry_valid \<longleftrightarrow>
     accepts_range (t_verify 10 0 [L2Msg (str_bytes ''tx1''), DelayedMsg]
       [make_entry_with_l2msg (str_bytes ''tx1'') 10 0, make_entry_no_message 11 1]) 0 1"

definition test_verify_batch_delayed_msg_subsequent_entry_invalid :: bool where
  "test_verify_batch_delayed_msg_subsequent_entry_invalid \<longleftrightarrow>
     \<not> success (t_verify 10 0 [L2Msg (str_bytes ''tx1''), DelayedMsg]
       [make_entry_with_l2msg (str_bytes ''tx1'') 10 0, make_entry_no_message 13 1])"

definition test_verify_batch_mixed_messages :: bool where
  "test_verify_batch_mixed_messages \<longleftrightarrow>
     accepts_range (t_verify 5 0 [DelayedMsg, L2Msg (str_bytes ''data''), DelayedMsg]
       [make_entry_no_message 6 0, make_entry_with_l2msg (str_bytes ''data'') 6 1, make_entry_no_message 7 2]) 0 2"

definition test_verify_batch_streamer_has_extra_entries :: bool where
  "test_verify_batch_streamer_has_extra_entries \<longleftrightarrow>
     accepts_range (t_verify 0 0 [L2Msg (str_bytes ''tx'')]
       [make_entry_with_l2msg (str_bytes ''tx'') 0 0, make_entry_with_l2msg (str_bytes ''extra'') 0 1]) 0 0"

definition test_verify_batch_nonzero_start_pos :: bool where
  "test_verify_batch_nonzero_start_pos \<longleftrightarrow>
     accepts_range (t_verify 5 10 [DelayedMsg, L2Msg (str_bytes ''data'')]
       [make_entry_with_l2msg (str_bytes ''old1'') 3 8, make_entry_with_l2msg (str_bytes ''old2'') 4 9,
        make_entry_no_message 6 10, make_entry_with_l2msg (str_bytes ''data'') 6 11]) 10 11"

definition test_verify_batch_nonzero_start_pos_not_found :: bool where
  "test_verify_batch_nonzero_start_pos_not_found \<longleftrightarrow>
     \<not> success (t_verify 0 50 [L2Msg (str_bytes ''tx'')]
       [make_entry_with_l2msg (str_bytes ''tx'') 0 0, make_entry_with_l2msg (str_bytes ''tx'') 0 1])"

definition test_verify_batch_l2msg_cannot_advance_delayed_messages_read :: bool where
  "test_verify_batch_l2msg_cannot_advance_delayed_messages_read \<longleftrightarrow>
     \<not> success (t_verify 10 0 [L2Msg (str_bytes ''A'')] [make_entry_with_l2msg (str_bytes ''A'') 15 0])"

definition test_verify_batch_l2msg_cannot_rewind_delayed_messages_read :: bool where
  "test_verify_batch_l2msg_cannot_rewind_delayed_messages_read \<longleftrightarrow>
     \<not> success (t_verify 10 0 [DelayedMsg, L2Msg (str_bytes ''A''), DelayedMsg]
       [make_entry_no_message 11 0, make_entry_with_l2msg (str_bytes ''A'') 10 1, make_entry_no_message 11 2])"

definition test_verify_batch_after_delayed_messages_read_matches_segment_count :: bool where
  "test_verify_batch_after_delayed_messages_read_matches_segment_count \<longleftrightarrow>
     (let result = t_verify 10 0 [DelayedMsg, L2Msg (str_bytes ''A''), DelayedMsg]
            [make_entry_no_message 11 0, make_entry_with_l2msg (str_bytes ''A'') 11 1, make_entry_no_message 12 2]
      in success result \<and> after_delayed_messages_read result = 12)"

subsection \<open>A transaction of a live chain\<close>

text \<open>
  A transaction in the legacy format from a public test network. Its signature check stands for itself: the recovery
  of the signer, which is a parameter, gives the recorded signer for the recorded signature.
\<close>

definition legacy_signature_bytes :: bytes where
  "legacy_signature_bytes =
    [0xc4, 0x16, 0x00, 0x9d, 0x04, 0x62, 0x77, 0x42, 0xef, 0xd2, 0x5c, 0xa6, 0xac, 0x3e, 0xc2, 0xfc, 0x24, 0x83, 0xea,
     0x52, 0x8d, 0x0e, 0x3d, 0x66, 0xde, 0xf2, 0xc7, 0xac, 0x45, 0x47, 0xfc, 0x5d, 0x0f, 0xa0, 0xf3, 0x8d, 0x7b, 0x5a,
     0x9f, 0x47, 0x06, 0x79, 0x03, 0x70, 0xb5, 0xd8, 0x63, 0x0c, 0x8d, 0xd4, 0x42, 0x41, 0x11, 0x22, 0x8d, 0x56, 0x56,
     0xe7, 0x84, 0xaa, 0x76, 0x09, 0x30, 0xc2, 0x01]"

definition legacy_header :: bytes where
  "legacy_header =
    [0xe1, 0x03, 0x94, 0xa4, 0xb0, 0x00, 0x00, 0x00, 0x00, 0x00, 0x00, 0x00, 0x00, 0x00, 0x73, 0x65, 0x71, 0x75, 0x65,
     0x6e, 0x63, 0x65, 0x72, 0x83, 0x9d, 0x61, 0xcc, 0x84, 0x69, 0x9b, 0x1d, 0xf2, 0xc0, 0x80]"

definition legacy_l2msg :: bytes where
  "legacy_l2msg =
    [0x04, 0xf9, 0x03, 0xa9, 0x5e, 0x83, 0xb7, 0x1b, 0x00, 0x83, 0x06, 0xe1, 0xf0, 0x80, 0x80, 0xb9, 0x03, 0x55, 0x60,
     0xc0, 0x60, 0x40, 0x52, 0x60, 0x19, 0x60, 0x80, 0x90, 0x81, 0x52, 0x7f, 0x48, 0x65, 0x6c, 0x6c, 0x6f, 0x20, 0x57,
     0x6f, 0x72, 0x6c, 0x64, 0x20, 0x77, 0x69, 0x74, 0x68, 0x20, 0x7a, 0x6b, 0x43, 0x6f, 0x64, 0x65, 0x78, 0x21, 0x00,
     0x00, 0x00, 0x00, 0x00, 0x00, 0x00, 0x60, 0xa0, 0x52, 0x60, 0x00, 0x90, 0x61, 0x00, 0x3c, 0x90, 0x82, 0x61, 0x00,
     0xee, 0x56, 0x5b, 0x50, 0x34, 0x80, 0x15, 0x61, 0x00, 0x49, 0x57, 0x60, 0x00, 0x80, 0xfd, 0x5b, 0x50, 0x61, 0x01,
     0xac, 0x56, 0x5b, 0x63, 0x4e, 0x48, 0x7b, 0x71, 0x60, 0xe0, 0x1b, 0x60, 0x00, 0x52, 0x60, 0x41, 0x60, 0x04, 0x52,
     0x60, 0x24, 0x60, 0x00, 0xfd, 0x5b, 0x60, 0x01, 0x81, 0x81, 0x1c, 0x90, 0x82, 0x16, 0x80, 0x61, 0x00, 0x79, 0x57,
     0x60, 0x7f, 0x82, 0x16, 0x91, 0x50, 0x5b, 0x60, 0x20, 0x82, 0x10, 0x81, 0x03, 0x61, 0x00, 0x99, 0x57, 0x63, 0x4e,
     0x48, 0x7b, 0x71, 0x60, 0xe0, 0x1b, 0x60, 0x00, 0x52, 0x60, 0x22, 0x60, 0x04, 0x52, 0x60, 0x24, 0x60, 0x00, 0xfd,
     0x5b, 0x50, 0x91, 0x90, 0x50, 0x56, 0x5b, 0x60, 0x1f, 0x82, 0x11, 0x15, 0x61, 0x00, 0xe9, 0x57, 0x80, 0x60, 0x00,
     0x52, 0x60, 0x20, 0x60, 0x00, 0x20, 0x60, 0x1f, 0x84, 0x01, 0x60, 0x05, 0x1c, 0x81, 0x01, 0x60, 0x20, 0x85, 0x10,
     0x15, 0x61, 0x00, 0xc6, 0x57, 0x50, 0x80, 0x5b, 0x60, 0x1f, 0x84, 0x01, 0x60, 0x05, 0x1c, 0x82, 0x01, 0x91, 0x50,
     0x5b, 0x81, 0x81, 0x10, 0x15, 0x61, 0x00, 0xe6, 0x57, 0x60, 0x00, 0x81, 0x55, 0x60, 0x01, 0x01, 0x61, 0x00, 0xd2,
     0x56, 0x5b, 0x50, 0x50, 0x5b, 0x50, 0x50, 0x50, 0x56, 0x5b, 0x81, 0x51, 0x60, 0x01, 0x60, 0x01, 0x60, 0x40, 0x1b,
     0x03, 0x81, 0x11, 0x15, 0x61, 0x01, 0x07, 0x57, 0x61, 0x01, 0x07, 0x61, 0x00, 0x4f, 0x56, 0x5b, 0x61, 0x01, 0x1b,
     0x81, 0x61, 0x01, 0x15, 0x84, 0x54, 0x61, 0x00, 0x65, 0x56, 0x5b, 0x84, 0x61, 0x00, 0x9f, 0x56, 0x5b, 0x60, 0x20,
     0x60, 0x1f, 0x82, 0x11, 0x60, 0x01, 0x81, 0x14, 0x61, 0x01, 0x4f, 0x57, 0x60, 0x00, 0x83, 0x15, 0x61, 0x01, 0x37,
     0x57, 0x50, 0x84, 0x82, 0x01, 0x51, 0x5b, 0x60, 0x00, 0x19, 0x60, 0x03, 0x85, 0x90, 0x1b, 0x1c, 0x19, 0x16, 0x60,
     0x01, 0x84, 0x90, 0x1b, 0x17, 0x84, 0x55, 0x61, 0x00, 0xe6, 0x56, 0x5b, 0x60, 0x00, 0x84, 0x81, 0x52, 0x60, 0x20,
     0x81, 0x20, 0x60, 0x1f, 0x19, 0x85, 0x16, 0x91, 0x5b, 0x82, 0x81, 0x10, 0x15, 0x61, 0x01, 0x7f, 0x57, 0x87, 0x85,
     0x01, 0x51, 0x82, 0x55, 0x60, 0x20, 0x94, 0x85, 0x01, 0x94, 0x60, 0x01, 0x90, 0x92, 0x01, 0x91, 0x01, 0x61, 0x01,
     0x5f, 0x56, 0x5b, 0x50, 0x84, 0x82, 0x10, 0x15, 0x61, 0x01, 0x9d, 0x57, 0x86, 0x84, 0x01, 0x51, 0x60, 0x00, 0x19,
     0x60, 0x03, 0x87, 0x90, 0x1b, 0x60, 0xf8, 0x16, 0x1c, 0x19, 0x16, 0x81, 0x55, 0x5b, 0x50, 0x50, 0x50, 0x50, 0x60,
     0x01, 0x90, 0x81, 0x1b, 0x01, 0x90, 0x55, 0x50, 0x56, 0x5b, 0x61, 0x01, 0x9a, 0x80, 0x61, 0x01, 0xbb, 0x60, 0x00,
     0x39, 0x60, 0x00, 0xf3, 0xfe, 0x60, 0x80, 0x60, 0x40, 0x52, 0x34, 0x80, 0x15, 0x61, 0x00, 0x10, 0x57, 0x60, 0x00,
     0x80, 0xfd, 0x5b, 0x50, 0x60, 0x04, 0x36, 0x10, 0x61, 0x00, 0x2b, 0x57, 0x60, 0x00, 0x35, 0x60, 0xe0, 0x1c, 0x80,
     0x63, 0xe2, 0x1f, 0x37, 0xce, 0x14, 0x61, 0x00, 0x30, 0x57, 0x5b, 0x60, 0x00, 0x80, 0xfd, 0x5b, 0x61, 0x00, 0x38,
     0x61, 0x00, 0x4e, 0x56, 0x5b, 0x60, 0x40, 0x51, 0x61, 0x00, 0x45, 0x91, 0x90, 0x61, 0x00, 0xdc, 0x56, 0x5b, 0x60,
     0x40, 0x51, 0x80, 0x91, 0x03, 0x90, 0xf3, 0x5b, 0x60, 0x00, 0x80, 0x54, 0x61, 0x00, 0x5b, 0x90, 0x61, 0x01, 0x2a,
     0x56, 0x5b, 0x80, 0x60, 0x1f, 0x01, 0x60, 0x20, 0x80, 0x91, 0x04, 0x02, 0x60, 0x20, 0x01, 0x60, 0x40, 0x51, 0x90,
     0x81, 0x01, 0x60, 0x40, 0x52, 0x80, 0x92, 0x91, 0x90, 0x81, 0x81, 0x52, 0x60, 0x20, 0x01, 0x82, 0x80, 0x54, 0x61,
     0x00, 0x87, 0x90, 0x61, 0x01, 0x2a, 0x56, 0x5b, 0x80, 0x15, 0x61, 0x00, 0xd4, 0x57, 0x80, 0x60, 0x1f, 0x10, 0x61,
     0x00, 0xa9, 0x57, 0x61, 0x01, 0x00, 0x80, 0x83, 0x54, 0x04, 0x02, 0x83, 0x52, 0x91, 0x60, 0x20, 0x01, 0x91, 0x61,
     0x00, 0xd4, 0x56, 0x5b, 0x82, 0x01, 0x91, 0x90, 0x60, 0x00, 0x52, 0x60, 0x20, 0x60, 0x00, 0x20, 0x90, 0x5b, 0x81,
     0x54, 0x81, 0x52, 0x90, 0x60, 0x01, 0x01, 0x90, 0x60, 0x20, 0x01, 0x80, 0x83, 0x11, 0x61, 0x00, 0xb7, 0x57, 0x82,
     0x90, 0x03, 0x60, 0x1f, 0x16, 0x82, 0x01, 0x91, 0x5b, 0x50, 0x50, 0x50, 0x50, 0x50, 0x81, 0x56, 0x5b, 0x60, 0x20,
     0x81, 0x52, 0x60, 0x00, 0x82, 0x51, 0x80, 0x60, 0x20, 0x84, 0x01, 0x52, 0x60, 0x00, 0x5b, 0x81, 0x81, 0x10, 0x15,
     0x61, 0x01, 0x0a, 0x57, 0x60, 0x20, 0x81, 0x86, 0x01, 0x81, 0x01, 0x51, 0x60, 0x40, 0x86, 0x84, 0x01, 0x01, 0x52,
     0x01, 0x61, 0x00, 0xed, 0x56, 0x5b, 0x50, 0x60, 0x00, 0x60, 0x40, 0x82, 0x85, 0x01, 0x01, 0x52, 0x60, 0x40, 0x60,
     0x1f, 0x19, 0x60, 0x1f, 0x83, 0x01, 0x16, 0x84, 0x01, 0x01, 0x91, 0x50, 0x50, 0x92, 0x91, 0x50, 0x50, 0x56, 0x5b,
     0x60, 0x01, 0x81, 0x81, 0x1c, 0x90, 0x82, 0x16, 0x80, 0x61, 0x01, 0x3e, 0x57, 0x60, 0x7f, 0x82, 0x16, 0x91, 0x50,
     0x5b, 0x60, 0x20, 0x82, 0x10, 0x81, 0x03, 0x61, 0x01, 0x5e, 0x57, 0x63, 0x4e, 0x48, 0x7b, 0x71, 0x60, 0xe0, 0x1b,
     0x60, 0x00, 0x52, 0x60, 0x22, 0x60, 0x04, 0x52, 0x60, 0x24, 0x60, 0x00, 0xfd, 0x5b, 0x50, 0x91, 0x90, 0x50, 0x56,
     0xfe, 0xa2, 0x64, 0x69, 0x70, 0x66, 0x73, 0x58, 0x22, 0x12, 0x20, 0x3d, 0x43, 0x4d, 0x68, 0xb8, 0x00, 0x78, 0x47,
     0xcc, 0x10, 0xa8, 0x72, 0x7f, 0xe1, 0x5a, 0xe7, 0xf5, 0x7d, 0x18, 0x9b, 0x44, 0x30, 0x4c, 0x55, 0x3b, 0xef, 0x71,
     0x18, 0xd8, 0x06, 0x70, 0x3a, 0x64, 0x73, 0x6f, 0x6c, 0x63, 0x43, 0x00, 0x08, 0x1a, 0x00, 0x33, 0x83, 0x4d, 0x0d,
     0x8c, 0xa0, 0xb6, 0xd4, 0x58, 0x66, 0x23, 0x9f, 0xb0, 0x2b, 0xfc, 0x64, 0xea, 0x3b, 0xfd, 0xb4, 0xb3, 0x21, 0x46,
     0xef, 0xc3, 0xac, 0x24, 0xe9, 0xbd, 0xc8, 0x25, 0xc0, 0x73, 0x3d, 0xfa, 0x5a, 0xe5, 0xe7, 0xa0, 0x50, 0x66, 0x67,
     0x98, 0xab, 0xa6, 0x8b, 0x5d, 0xf7, 0xb6, 0x8c, 0x44, 0x1e, 0xa1, 0x00, 0xc5, 0x9a, 0x40, 0xeb, 0x77, 0x38, 0x96,
     0x3b, 0x06, 0x46, 0x0e, 0xac, 0x00, 0x00, 0x36, 0x59, 0xe9]"

definition legacy_message :: bytes where
  "legacy_message = [0xf9, 0x03, 0xd8, 0xf9, 0x03, 0xd2] @ legacy_header @ [0xb9, 0x03, 0xad] @ legacy_l2msg @
     [0x82, 0x32, 0xcc]"

definition legacy_tx :: bytes where
  "legacy_tx = [0, 0, 0, 0, 0, 0, 0, 0x41] @ legacy_signature_bytes @
     [0, 0, 0, 0, 0, 0x19, 0x9d, 0x8b] @ [0, 0, 0, 0, 0, 0, 0x03, 0xdb] @ legacy_message"

definition legacy_signer :: address where
  "legacy_signer = nat_to_be 20 0x91B62241cCec21Cebb3AbD24599855c009864e1E"

definition legacy_libs :: nitro_libs where
  "legacy_libs = \<lparr>nl_crypto = \<lparr>cr_keccak256 = (\<lambda>b. take 32 b), cr_high_s = (\<lambda>rs. False),
       cr_recover = (\<lambda>rs parity hash. if rs = take 64 legacy_signature_bytes then Inr legacy_signer else Inl ''unknown'')\<rparr>,
     nl_rlp = std_rlp,
     nl_json = \<lparr>js_header_to_vec = (\<lambda>v. Inl ''json''), js_header_from_slice = (\<lambda>b. Inl ''json''),
       js_msg_to_vec = (\<lambda>m. Inl ''json''), js_msg_from_slice = (\<lambda>b. Inl ''json'')\<rparr>,
     nl_brotli = (\<lambda>b n. Inl ''brotli''), nl_rlp_bytes = c_d_str Some\<rparr>"

definition nitro_config_default :: nitro_config where
  "nitro_config_default = \<lparr>legacy_signer_addresses = [], chain_id = 0, feed = feed_config_default, l1_http_url = [],
     l1_ws_url = [], sequencer_inbox_address = replicate 20 0, log_scan_step = 0, max_l1_blocks_to_scan_on_startup = 0,
     l1_finalized_poll_interval_ms = 0\<rparr>"

definition test_parse_message_with_legacy_message :: bool where
  "test_parse_message_with_legacy_message \<longleftrightarrow>
     (let cfg = nitro_config_default\<lparr>legacy_signer_addresses := [legacy_signer], chain_id := 1\<rparr>
      in case parse_hotshot_transactions legacy_libs cfg [[legacy_tx]] 1 of
           [entry] \<Rightarrow>
             (let body = feed_message_body (feed_message entry)
              in case message body of
                   Some l1_incoming_message \<Rightarrow>
                     (case header l1_incoming_message of
                        Some l1_incoming_header \<Rightarrow>
                          entry_sequence_number entry = 1678731 \<and> delayed_messages_read body = 13004 \<and>
                          header_kind l1_incoming_header = 3 \<and>
                          poster l1_incoming_header = nat_to_be 20 0xA4b000000000000000000073657175656e636572 \<and>
                          l1_base_fee l1_incoming_header = None \<and> request_id l1_incoming_header = None \<and>
                          block_number l1_incoming_header = 10314188 \<and> timestamp l1_incoming_header = 1771773426 \<and>
                          l2msg l1_incoming_message = legacy_l2msg \<and>
                          data_stats l1_incoming_message = None \<and> legacy_batch_gas_cost l1_incoming_message = None
                      | None \<Rightarrow> False)
                 | None \<Rightarrow> False)
         | _ \<Rightarrow> False)"

text \<open>What it decodes to, and the part of it that is the L1 message.\<close>

definition legacy_decoded_header :: l1_incoming_message_header where
  "legacy_decoded_header =
     \<lparr>header_kind = 3, poster = nat_to_be 20 0xA4b000000000000000000073657175656e636572, block_number = 10314188,
      timestamp = 1771773426, request_id = None, l1_base_fee = None\<rparr>"

definition legacy_body :: bytes where
  "legacy_body = [0xf9, 0x03, 0xd2] @ legacy_header @ c_str legacy_l2msg"

subsection \<open>They pass\<close>

lemma rlp_roundtrip_message_with_block_hash_and_metadata_passes: "test_rlp_roundtrip_message_with_block_hash_and_metadata"
  by code_simp

lemma rlp_roundtrip_nil_request_id_and_base_fee_passes: "test_rlp_roundtrip_nil_request_id_and_base_fee"
  by code_simp

lemma rlp_roundtrip_nontrivial_values_passes: "test_rlp_roundtrip_nontrivial_values"
  by code_simp

lemma verify_batch_more_batch_than_streamer_passes: "test_verify_batch_more_batch_than_streamer"
  by code_simp

lemma verify_batch_l2msg_match_passes: "test_verify_batch_l2msg_match"
  by code_simp

lemma verify_batch_l2msg_mismatch_passes: "test_verify_batch_l2msg_mismatch"
  by code_simp

lemma verify_batch_l2msg_none_message_passes: "test_verify_batch_l2msg_none_message"
  by code_simp

lemma verify_batch_delayed_msg_first_entry_valid_passes: "test_verify_batch_delayed_msg_first_entry_valid"
  by code_simp

lemma verify_batch_delayed_msg_first_entry_invalid_passes: "test_verify_batch_delayed_msg_first_entry_invalid"
  by code_simp

lemma verify_batch_delayed_msg_subsequent_entry_valid_passes: "test_verify_batch_delayed_msg_subsequent_entry_valid"
  by code_simp

lemma verify_batch_delayed_msg_subsequent_entry_invalid_passes: "test_verify_batch_delayed_msg_subsequent_entry_invalid"
  by code_simp

lemma verify_batch_mixed_messages_passes: "test_verify_batch_mixed_messages"
  by code_simp

lemma verify_batch_streamer_has_extra_entries_passes: "test_verify_batch_streamer_has_extra_entries"
  by code_simp

lemma verify_batch_nonzero_start_pos_passes: "test_verify_batch_nonzero_start_pos"
  by code_simp

lemma verify_batch_nonzero_start_pos_not_found_passes: "test_verify_batch_nonzero_start_pos_not_found"
  by code_simp

lemma verify_batch_l2msg_cannot_advance_delayed_messages_read_passes: "test_verify_batch_l2msg_cannot_advance_delayed_messages_read"
  by code_simp

lemma verify_batch_l2msg_cannot_rewind_delayed_messages_read_passes: "test_verify_batch_l2msg_cannot_rewind_delayed_messages_read"
  by code_simp

lemma verify_batch_after_delayed_messages_read_matches_segment_count_passes: "test_verify_batch_after_delayed_messages_read_matches_segment_count"
  by code_simp

text \<open>The transaction of the live chain, decoded from the inside out.\<close>

lemma length_legacy [simp]:
  "length legacy_l2msg = 941" "length legacy_header = 34" "length legacy_signature_bytes = 65"
  by code_simp+

lemma legacy_header_decodes: "decode_header std_rlp legacy_header = Inr (legacy_decoded_header, [])"
  by code_simp

lemma legacy_header_view: "\<exists>i is. c_decode_raw legacy_header = Inr (PvList (i # is), [])"
proof -
  have "(case c_decode_raw legacy_header of Inr (PvList (i # is), []) \<Rightarrow> True | _ \<Rightarrow> False)" by code_simp
  then show ?thesis by (auto split: sum.splits prod.splits payload_view.splits list.splits)
qed

lemma legacy_header_item: "c_is_item legacy_header"
  by (auto simp: c_is_item_def legacy_header_def c_split_def Let_def)

lemma legacy_string: "c_str legacy_l2msg = [0xb9, 0x03, 0xad] @ legacy_l2msg"
proof -
  have "c_hdr 128 941 = [0xb9, 0x03, 0xad]" by code_simp
  then show ?thesis by (simp add: c_str_def)
qed

lemma legacy_body_list:
  "legacy_body = c_hdr 192 (length (concat [legacy_header, c_str legacy_l2msg])) @ concat [legacy_header, c_str legacy_l2msg]"
proof -
  have "c_hdr 192 978 = [0xf9, 0x03, 0xd2]" by code_simp
  then show ?thesis by (simp add: legacy_body_def legacy_string)
qed

lemma legacy_body_raw: "c_decode_raw legacy_body = Inr (PvList [legacy_header, c_str legacy_l2msg], [])"
  unfolding legacy_body_list
  using c_decode_raw_list [of "[legacy_header, c_str legacy_l2msg]" "[]"] legacy_header_item c_is_item_str [of legacy_l2msg]
  by (simp add: legacy_string)

lemma legacy_message_list:
  "legacy_message = c_hdr 192 (length (concat [legacy_body, c_str [0x32, 0xcc]])) @ concat [legacy_body, c_str [0x32, 0xcc]]"
proof -
  have "c_hdr 192 984 = [0xf9, 0x03, 0xd8]" "c_str [0x32, 0xcc] = [0x82, 0x32, 0xcc]" by code_simp+
  then show ?thesis by (simp add: legacy_message_def legacy_body_def legacy_string)
qed

lemma legacy_message_raw: "c_decode_raw legacy_message = Inr (PvList [legacy_body, c_str [0x32, 0xcc]], [])"
proof -
  have "c_is_item legacy_body"
    unfolding legacy_body_list by (rule c_is_item_list) (simp add: legacy_string)
  moreover have "c_is_item (c_str [0x32, 0xcc])" by (rule c_is_item_str) simp
  moreover have "c_str [0x32, 0xcc] = [0x82, 0x32, 0xcc]" by code_simp
  ultimately show ?thesis
    unfolding legacy_message_list using c_decode_raw_list [of "[legacy_body, c_str [0x32, 0xcc]]" "[]"]
    by (simp add: legacy_body_def legacy_string)
qed

lemma legacy_body_decodes:
  "decode_l1_message std_rlp legacy_body =
    Inr (\<lparr>header = Some legacy_decoded_header, l2msg = legacy_l2msg, legacy_batch_gas_cost = None, data_stats = None\<rparr>, [])"
proof -
  have raw: "rl_decode_raw std_rlp = c_decode_raw" "rl_d_bytes std_rlp = c_d_str Some" by (simp_all add: std_rlp_def)
  have "c_d_str Some (c_str legacy_l2msg) = Inr (legacy_l2msg, [])" by (rule c_d_str_str) simp_all
  then show ?thesis
    using legacy_header_view
    by (auto simp: decode_l1_message_def decode_list_def raw legacy_body_raw decode_optional_field_def decode_exact_def
        legacy_header_decodes Let_def)
qed

lemma legacy_message_decodes:
  "decode_exact (decode_message_with_metadata std_rlp) legacy_message =
    Inr \<lparr>message = Some \<lparr>header = Some legacy_decoded_header, l2msg = legacy_l2msg, legacy_batch_gas_cost = None,
      data_stats = None\<rparr>, delayed_messages_read = 13004\<rparr>"
proof -
  have raw: "rl_decode_raw std_rlp = c_decode_raw" by (simp add: std_rlp_def)
  have "decode_exact (rl_d_u64 std_rlp) (c_str [0x32, 0xcc]) = Inr 13004" by code_simp
  then show ?thesis
    by (simp add: decode_message_with_metadata_def decode_list_def raw legacy_message_raw decode_optional_field_def
        legacy_body_raw legacy_body_decodes decode_exact_def Let_def)
qed

lemma legacy_messages_parse:
  "parse_legacy_messages ([0, 0, 0, 0, 0, 0x19, 0x9d, 0x8b] @ [0, 0, 0, 0, 0, 0, 0x03, 0xdb] @ legacy_message) [] [] =
    Inr ([1678731], [legacy_message])"
proof -
  have "to_be_bytes 1678731 = [0, 0, 0, 0, 0, 0x19, 0x9d, 0x8b]" "to_be_bytes 987 = [0, 0, 0, 0, 0, 0, 0x03, 0xdb]"
    by code_simp+
  then show ?thesis
    using parse_legacy_frames [of "[(1678731, legacy_message)]" "[]" "[]"]
    by (simp add: legacy_frame_def frame_def legacy_message_def)
qed

lemma legacy_signer_recovered:
  "recover_signer_address (nl_crypto legacy_libs) hash legacy_signature_bytes = Inr legacy_signer"
proof -
  have "legacy_signature_bytes ! 64 = 1 \<and> nat_from_be (take 32 (take 64 legacy_signature_bytes)) \<noteq> 0 \<and>
      nat_from_be (drop 32 (take 64 legacy_signature_bytes)) \<noteq> 0" by code_simp
  moreover have "signature_parity 1 = Some True" by code_simp
  ultimately show ?thesis by (simp add: recover_signer_address_def legacy_libs_def Let_def)
qed

lemma legacy_tx_parts:
  "take LEN_SIZE legacy_tx = [0, 0, 0, 0, 0, 0, 0, 0x41]"
  "drop LEN_SIZE legacy_tx = legacy_signature_bytes @
     [0, 0, 0, 0, 0, 0x19, 0x9d, 0x8b] @ [0, 0, 0, 0, 0, 0, 0x03, 0xdb] @ legacy_message"
  "\<not> length legacy_tx < LEN_SIZE"
  by (simp_all add: legacy_tx_def LEN_SIZE_def)

lemma parse_message_with_legacy_message_passes: "test_parse_message_with_legacy_message"
proof -
  let ?cfg = "nitro_config_default\<lparr>legacy_signer_addresses := [legacy_signer], chain_id := 1\<rparr>"
  have len: "unat (from_be_bytes [0, 0, 0, 0, 0, 0, 0, 0x41]) = 65" by code_simp
  have "\<exists>e. parse_nitro_hotshot_payload (nl_json legacy_libs) ?cfg legacy_tx vf = Inl e" for vf
    unfolding parse_nitro_hotshot_payload_def legacy_tx_parts Let_def len by (simp add: legacy_libs_def legacy_tx_parts(3))
  moreover have "parse_legacy_payload_bytes (nl_crypto legacy_libs) legacy_tx =
      Inr \<lparr>legacy_signature = legacy_signature_bytes, messages_hash = cr_keccak256 (nl_crypto legacy_libs)
        ([0, 0, 0, 0, 0, 0x19, 0x9d, 0x8b] @ [0, 0, 0, 0, 0, 0, 0x03, 0xdb] @ legacy_message),
        indices = [1678731], legacy_messages = [legacy_message]\<rparr>"
    unfolding parse_legacy_payload_bytes_def legacy_tx_parts Let_def len
    using legacy_messages_parse legacy_tx_parts(3) by simp
  moreover have "nl_rlp legacy_libs = std_rlp" by (simp add: legacy_libs_def)
  ultimately have "parse_hotshot_transactions legacy_libs ?cfg [[legacy_tx]] 1 = [legacy_entry 1 1678731
      \<lparr>message = Some \<lparr>header = Some legacy_decoded_header, l2msg = legacy_l2msg, legacy_batch_gas_cost = None,
        data_stats = None\<rparr>, delayed_messages_read = 13004\<rparr>]"
    by (auto simp: parse_transaction_def legacy_parse_nitro_hotshot_payload_def legacy_signer_recovered
        legacy_message_decodes split: sum.split) (metis sum.distinct(1))
  then show ?thesis
    by (simp add: test_parse_message_with_legacy_message_def Let_def legacy_entry_def legacy_decoded_header_def
        entry_sequence_number_def)
qed

text \<open>What a wrapped list of encoded segments parses to, for codecs as documented.\<close>

lemma codecs_okD:
  assumes "codecs_ok T"
  shows "brotli_inverts (brotli_read T) (brotli_compress T)" and "rlp_decodes (rlp_decode T) (rlp_encode T)"
    and "length (brotli_compress T x) \<le> 2 * length x + 1024" and "length x < 2 ^ 64 \<Longrightarrow> length (rlp_encode T x) \<le> length x + 9"
    and "\<not> is_ok (brotli_read T [0xff, 0xff, 0xff] n)" and "\<not> is_ok (brotli_read T [0xff, 0xff, 0xff, 0xff] n)"
  using assms by (auto simp: codecs_ok_def)

lemma decompress_compressed:
  assumes "codecs_ok T"
  shows "decompress (brotli_read T) (brotli_compress T x) n =
    (if length x \<le> n then Inr x else Inl ''decompression result too large'')"
  using codecs_okD(1) [OF assms] by (auto simp: decompress_def brotli_inverts_def)

lemma t_parse_wrapped:
  assumes "codecs_ok T" and "length inner \<le> MAX_DECOMPRESSED_LEN"
  shows "t_parse T (wrap_brotli T inner) =
    and_then (decode_segments (rlp_decode T) [] inner) (convert_segments (brotli_read T))"
  using assms by (simp add: t_parse_def wrap_brotli_def parse_batch_def decompress_compressed)

lemma length_encoded:
  assumes "codecs_ok T" and "\<forall>s \<in> set segs. length s < 2 ^ 64"
  shows "length (concat (map (rlp_encode T) segs)) \<le> sum_list (map length segs) + 9 * length segs"
  using assms(2)
proof (induction segs)
  case (Cons s segs)
  then show ?case using codecs_okD(4) [OF assms(1), of s] by simp
qed simp

lemma t_parse_segments:
  assumes "codecs_ok T" and "length segs \<le> 3" and "sum_list (map length segs) \<le> 1000000"
  shows "t_parse T (wrap_brotli T (concat (map (rlp_encode T) segs))) = convert_segments (brotli_read T) segs"
proof -
  have "length s \<le> 1000000" if "s \<in> set segs" for s
    using member_le_sum_list [of "length s" "map length segs"] that assms(3) by simp
  then have "\<forall>s \<in> set segs. length s < 2 ^ 64" by fastforce
  then show ?thesis
    using assms length_encoded [OF assms(1), of segs] decode_segments_encoded [OF codecs_okD(2) [OF assms(1)], of "[]" segs]
    by (simp add: t_parse_wrapped MAX_DECOMPRESSED_LEN_def MAX_SEGMENTS_def)
qed

lemma decode_segments_too_many:
  assumes "rlp_decodes rlp enc" and "length acc \<le> MAX_SEGMENTS" and "MAX_SEGMENTS < length acc + n" and "length s < 2 ^ 64"
  shows "decode_segments rlp acc (concat (replicate n (enc s))) = Inl ''too many segments in sequence batch''"
  using assms(2,3)
proof (induction n arbitrary: acc)
  case (Suc n)
  have "rlp (enc s @ concat (replicate n (enc s))) = Inr (s, concat (replicate n (enc s)))" and "enc s \<noteq> []"
    using assms(1,4) unfolding rlp_decodes_def by simp_all
  then show ?case using Suc.IH [of "acc @ [s]"] Suc.prems by (subst decode_segments.simps) auto
qed simp

lemma decompress_failed:
  "\<not> is_ok (brotli b (n + 1)) \<Longrightarrow> decompress brotli b n = Inl ''brotli decompression failed''"
  by (cases "brotli b (n + 1)") (simp_all add: decompress_def)

lemma undecompressable:
  assumes "codecs_ok T"
  shows "decompress (brotli_read T) [0xff, 0xff, 0xff] n = Inl ''brotli decompression failed''"
    and "decompress (brotli_read T) [0xff, 0xff, 0xff, 0xff] n = Inl ''brotli decompression failed''"
  by (rule decompress_failed, rule codecs_okD(5) [OF assms], rule decompress_failed, rule codecs_okD(6) [OF assms])

lemma empty_payload_passes: "empty_payload_errors T"
  by (simp add: empty_payload_errors_def t_parse_def parse_batch_def err_contains_def)

lemma unsupported_header_byte_passes: "unsupported_header_byte_errors T"
  by (simp add: unsupported_header_byte_errors_def t_parse_def parse_batch_def err_contains_def BROTLI_HEADER_BYTE_def)

lemma invalid_brotli_passes: "codecs_ok T \<Longrightarrow> invalid_brotli_errors T"
  by (simp add: invalid_brotli_errors_def t_parse_def parse_batch_def undecompressable)

lemma malformed_rlp_passes:
  assumes "codecs_ok T"
  shows "malformed_rlp_errors T"
proof -
  obtain e where "rlp_decode T [0x81, 0] = Inl e" "e \<noteq> InputTooShort" using assms by (auto simp: codecs_ok_def)
  then show ?thesis
    by (simp add: malformed_rlp_errors_def t_parse_wrapped [OF assms] MAX_DECOMPRESSED_LEN_def MAX_SEGMENTS_def
        decode_segments.simps [of _ "[]"] err_contains_def)
qed

lemma max_segments_passes:
  assumes "codecs_ok T"
  shows "max_segments_enforced T"
proof -
  let ?one = "rlp_encode T [BATCH_SEGMENT_KIND_DELAYED_MESSAGES]"
  have "length (concat (replicate n ?one)) \<le> 10 * n" for n
    using codecs_okD(4) [OF assms, of "[BATCH_SEGMENT_KIND_DELAYED_MESSAGES]"] by (induction n) auto
  from this [of "MAX_SEGMENTS + 1"] show ?thesis
    using decode_segments_too_many [OF codecs_okD(2) [OF assms], of "[]" "MAX_SEGMENTS + 1" "[BATCH_SEGMENT_KIND_DELAYED_MESSAGES]"]
    by (simp add: max_segments_enforced_def Let_def t_parse_wrapped [OF assms] MAX_DECOMPRESSED_LEN_def MAX_SEGMENTS_def
        err_contains_def del: replicate_Suc)
qed

lemma decompressed_oversize_passes: "codecs_ok T \<Longrightarrow> decompressed_oversize_errors T"
  by (simp add: decompressed_oversize_errors_def t_parse_def parse_batch_def decompress_compressed err_contains_def)

lemma segment_messages_simps:
  "segment_messages brotli [] = Inr []"
  "segment_messages brotli (BATCH_SEGMENT_KIND_L2_MESSAGE # data) = Inr [L2Msg data]"
  "segment_messages brotli (BATCH_SEGMENT_KIND_DELAYED_MESSAGES # data) = Inr [DelayedMsg]"
  "segment_messages brotli (BATCH_SEGMENT_KIND_ADVANCE_TIMESTAMP # data) = Inr []"
  "segment_messages brotli (BATCH_SEGMENT_KIND_ADVANCE_L1_BLOCK_NUMBER # data) = Inr []"
  "segment_messages brotli (BATCH_SEGMENT_KIND_L2_MESSAGE_BROTLI # data) =
    and_then (map_err (\<lambda>e. ''brotli-compressed L2 message segment would replay as a placeholder'')
      (decompress brotli data MAX_L2_MESSAGE_SIZE)) (\<lambda>m. Inr [L2Msg m])"
  "segment_messages brotli (0xff # data) = Inl ''unknown batch segment kind''"
  by (simp_all add: segment_messages_def segment_kinds)

lemmas segment_tests = parses_l2_msg_segment_def parses_delayed_msg_segment_def parses_brotli_l2_msg_segment_def
  brotli_l2_msg_undecompressable_errors_def segment_that_would_become_a_placeholder_does_not_shift_the_stream_def
  unknown_kind_errors_def advance_segments_consume_no_slot_def empty_segment_skipped_def

lemma segment_tests_pass:
  assumes "codecs_ok T"
  shows "parses_l2_msg_segment T" and "parses_delayed_msg_segment T" and "parses_brotli_l2_msg_segment T"
    and "brotli_l2_msg_undecompressable_errors T"
    and "segment_that_would_become_a_placeholder_does_not_shift_the_stream T" and "unknown_kind_errors T"
    and "advance_segments_consume_no_slot T" and "empty_segment_skipped T"
proof -
  have one: "t_parse T (wrap_brotli T (rlp_encode T a)) = convert_segments (brotli_read T) [a]" if "length a \<le> 2000" for a
    using t_parse_segments [OF assms, of "[a]"] that by simp
  have three: "t_parse T (wrap_brotli T (rlp_encode T a @ rlp_encode T b @ rlp_encode T c)) =
      convert_segments (brotli_read T) [a, b, c]" if "length a + length b + length c \<le> 100" for a b c
    using t_parse_segments [OF assms, of "[a, b, c]"] that by simp
  have c: "length (brotli_compress T (str_bytes ''compressed payload'')) \<le> 1060"
    using codecs_okD(3) [OF assms, of "str_bytes ''compressed payload''"] by (simp add: str_bytes_def)
  show "parses_brotli_l2_msg_segment T"
    using c by (simp add: segment_tests one segment_messages_simps decompress_compressed [OF assms] str_bytes_def
        MAX_L2_MESSAGE_SIZE_def)
  show "parses_l2_msg_segment T" "parses_delayed_msg_segment T" "brotli_l2_msg_undecompressable_errors T"
    "segment_that_would_become_a_placeholder_does_not_shift_the_stream T" "unknown_kind_errors T"
    "advance_segments_consume_no_slot T" "empty_segment_skipped T"
    by (simp_all add: segment_tests one three segment_messages_simps undecompressable [OF assms] str_bytes_def err_contains_def)
qed

lemma brotli_l2_msg_oversize_passes:
  assumes "codecs_ok T"
  shows "brotli_l2_msg_oversize_errors T"
proof -
  let ?s = "BATCH_SEGMENT_KIND_L2_MESSAGE_BROTLI # brotli_compress T (replicate (MAX_L2_MESSAGE_SIZE + 1) 0)"
  have "length ?s \<le> 900000"
    using codecs_okD(3) [OF assms, of "replicate (MAX_L2_MESSAGE_SIZE + 1) 0"] by (simp add: MAX_L2_MESSAGE_SIZE_def)
  then show ?thesis
    using t_parse_segments [OF assms, of "[?s, [BATCH_SEGMENT_KIND_DELAYED_MESSAGES]]"]
    by (simp add: brotli_l2_msg_oversize_errors_def Let_def segment_messages_simps decompress_compressed [OF assms]
        err_contains_def del: replicate_Suc)
qed

text \<open>Such codecs exist: an uncompressed stream behind a marker, and RLP strings that refuse a byte with a header.\<close>

definition std_codecs :: batch_codecs where
  "std_codecs =
     \<lparr>brotli_read = (\<lambda>b n. case b of [] \<Rightarrow> Inl ''eof'' | m # x \<Rightarrow> if m = 0 then Inr (take n x) else Inl ''invalid''),
      brotli_compress = (\<lambda>x. 0 # x),
      rlp_decode = (\<lambda>b. if length b \<ge> 2 \<and> hd b = 0x81 \<and> b ! 1 < 0x80 then Inl (OtherRlpError ''non-canonical single byte'')
        else c_d_str Some b),
      rlp_encode = c_str\<rparr>"

lemma c_str_hd:
  assumes "length s < 2 ^ 64" and "length s \<noteq> 1"
  shows "hd (c_str s) \<noteq> 0x81"
proof -
  have k: "length (be_trimmed (length s)) \<le> 8" by (rule be_trimmed_length) (use assms(1) in simp)
  have "\<exists>n < 256. n \<noteq> 129 \<and> hd (c_str s) = of_nat n"
  proof (cases "length s < 56")
    case True
    then show ?thesis using assms(2) by (intro exI [of _ "128 + length s"]) (simp add: c_str_def c_hdr_def)
  next
    case False
    then show ?thesis using assms(2) k
      by (intro exI [of _ "128 + 55 + length (be_trimmed (length s))"]) (simp add: c_str_def c_hdr_def)
  qed
  then obtain n where n: "n < 256" "n \<noteq> 129" "hd (c_str s) = of_nat n" by blast
  then have "unat (hd (c_str s)) = n" by (simp only: unat_u8_of_nat mod_less)
  then show ?thesis using n(2) by auto
qed

lemma c_str_shape:
  assumes "length s < 2 ^ 64"
  shows "length (c_str s) \<le> length s + 9"
proof -
  have "length (be_trimmed (length s)) \<le> 8" by (rule be_trimmed_length) (use assms in simp)
  then show ?thesis by (simp add: c_str_def c_hdr_def)
qed

lemma std_codecs_ok: "codecs_ok std_codecs"
proof -
  have "rlp_decodes (rlp_decode std_codecs) c_str"
    unfolding rlp_decodes_def
  proof (intro allI impI)
    fix s rest :: bytes
    assume l: "length s < 2 ^ 64"
    have ne: "c_str s \<noteq> []" by (auto simp: c_str_def c_hdr_def)
    have "\<not> (hd (c_str s @ rest) = 0x81 \<and> (c_str s @ rest) ! 1 < 0x80)"
    proof (cases "length s = 1")
      case True
      then obtain b where "s = [b]" by (cases s) auto
      then show ?thesis by (auto simp: c_str_def c_hdr_def word_less_nat_alt)
    qed (use c_str_hd [OF l] ne in simp)
    then show "c_str s \<noteq> [] \<and> rlp_decode std_codecs (c_str s @ rest) = Inr (s, rest)"
      using ne c_item_str [OF l] by (simp add: std_codecs_def c_d_str_def)
  qed
  then show ?thesis
    using c_str_shape by (auto simp: codecs_ok_def std_codecs_def brotli_inverts_def)
qed

end
