(* ===== verification/Tests_Da.thy ===== *)
theory Tests_Da
  imports Concrete_Service
begin

text \<open>
  The unit tests of the certificate (\<open>src/da_api/nitro/certificate/mod.rs\<close>, \<open>src/da_api/nitro/utils.rs\<close>) on the model, for
  every key manager whose key signs as documented: recovery gives its address, and the last byte of a signature is 27
  or 28.
\<close>

definition test_signer :: "sign_lib \<Rightarrow> 'w key_manager \<Rightarrow> bool" where
  "test_signer L km \<longleftrightarrow> signer_ok L (km_signer km) \<and>
     (\<forall>h. \<exists>sig. sign_hash_sync (km_signer km) h = Inr sig \<and> (sig ! 64 = 27 \<or> sig ! 64 = 28)) \<and>
     parent_chain_id km = 0 \<and> tee_verifier_address km = replicate 20 0"

definition create_mock_cert :: cas_certificate where
  "create_mock_cert =
     \<lparr>cc_header = (replicate 32 0)[0 := version_byte CertV0], cc_start_message_pos = 1, cc_end_message_pos = 2,
      cc_start_hotshot_block = 3, cc_after_delayed_messages_read = 4, cc_min_hotshot_block = 5,
      cc_signature = replicate 65 0xCC, cc_downstream = replicate 10 0xDD\<rparr>"

definition test_round_trip_serialization :: bool where
  "test_round_trip_serialization \<longleftrightarrow>
     and_then (cert_to_bytes create_mock_cert) cert_from_bytes = Inr create_mock_cert"

definition da_cert :: bytes where
  "da_cert =
     [0x01, 0xff, 0xa2, 0xf5, 0x86, 0x8a, 0x6c, 0x1f, 0x36, 0xe9, 0x48, 0xad, 0xe0, 0xea, 0xf0, 0x93, 0x98,
      0x3a, 0xf3, 0x30, 0xa1, 0xec, 0x81, 0x83, 0xa6, 0x19, 0x55, 0xe4, 0xfd, 0x8d, 0x67, 0x31, 0x3f, 0xbd,
      0x1c, 0xb9, 0x4d, 0xcf, 0xf2, 0x13, 0x6d, 0xfa, 0xb4, 0xd1, 0xd4, 0x50, 0x6c, 0xc5, 0x16, 0x0a, 0x3b,
      0x58, 0xc9, 0x48, 0x1a, 0x87, 0x51, 0x3c, 0x71, 0x88, 0x25, 0x26, 0xae, 0x8a, 0xc6, 0xe3, 0x0e, 0x3f,
      0x4a, 0x9d, 0x56, 0xda, 0x07, 0x89, 0x3b, 0xf5, 0x24, 0x5f, 0xd0, 0xff, 0x0c, 0x50, 0xe2, 0xa6, 0x6b,
      0x52, 0x06, 0x7d, 0x8e, 0x8b, 0x23, 0xbe, 0xb3, 0xc8, 0xe4, 0xf8, 0x23, 0x07, 0x43]"

definition test_reference_da_cert :: "sign_lib \<Rightarrow> 'w key_manager \<Rightarrow> bool" where
  "test_reference_da_cert L km \<longleftrightarrow> length da_cert = 99 \<and>
     (case and_then (build_espresso_certificate L km 0 0 0 0 0 da_cert) cert_to_bytes of
        Inr bytes \<Rightarrow>
          (let sequencer_msg = replicate SEQUENCER_HEADER_LEN 0 @ bytes
           in length sequencer_msg = SEQUENCER_HEADER_LEN + length bytes \<and>
              length sequencer_msg = ESPRESSO_CERT_SIZE + length da_cert + SEQUENCER_HEADER_LEN)
      | Inl e \<Rightarrow> False)"

definition test_build_espresso_certificate :: "sign_lib \<Rightarrow> 'w key_manager \<Rightarrow> bool" where
  "test_build_espresso_certificate L km \<longleftrightarrow>
     (let downstream = replicate 20 1; expected_signer = signer_addr (km_signer km) in
      case build_espresso_certificate L km 10 20 5 7 3 downstream of
        Inr cert \<Rightarrow>
          cc_signature cert \<noteq> replicate 65 0 \<and> (cc_signature cert ! 64 = 27 \<or> cc_signature cert ! 64 = 28) \<and>
          cc_downstream cert = downstream \<and> cc_start_message_pos cert = 10 \<and> cc_end_message_pos cert = 20 \<and>
          cc_start_hotshot_block cert = 5 \<and> cc_after_delayed_messages_read cert = 7 \<and> cc_min_hotshot_block cert = 3 \<and>
          cert_validate L cert expected_signer 0 (replicate 20 0) = Inr () \<and>
          (case and_then (cert_to_bytes cert) cert_from_bytes of
             Inr recovered \<Rightarrow>
               cert_validate L recovered expected_signer 0 (replicate 20 0) = Inr () \<and>
               cc_signature recovered = cc_signature cert
           | Inl e \<Rightarrow> False)
      | Inl e \<Rightarrow> False)"

definition extracted :: "sign_lib \<Rightarrow> 'w key_manager \<Rightarrow> bytes \<Rightarrow> da_api_error + bytes" where
  "extracted L km downstream =
     and_then (build_espresso_certificate L km 0 0 0 0 0 downstream) (\<lambda>espresso_cert.
     and_then (cert_to_bytes espresso_cert) (\<lambda>bytes.
     try_extract_da_sequencer_msg L (replicate SEQUENCER_HEADER_LEN 0 @ bytes) (signer_addr (km_signer km))
       (parent_chain_id km) (tee_verifier_address km)))"

definition test_remove_espresso_metadata :: "sign_lib \<Rightarrow> 'w key_manager \<Rightarrow> bool" where
  "test_remove_espresso_metadata L km \<longleftrightarrow>
     (let downstream = replicate 20 9; expected_data = replicate SEQUENCER_HEADER_LEN 0 @ downstream in
      case extracted L km downstream of
        Inr out \<Rightarrow> length out = SEQUENCER_HEADER_LEN + 20 \<and> out = expected_data
      | Inl e \<Rightarrow> False)"

definition test_extract_espresso_metadata_from_da_certificate :: "sign_lib \<Rightarrow> 'w key_manager \<Rightarrow> bool" where
  "test_extract_espresso_metadata_from_da_certificate L km \<longleftrightarrow>
     (case extracted L km (replicate 99 0xAB) of
        Inr out \<Rightarrow> length out = SEQUENCER_HEADER_LEN + 99
      | Inl e \<Rightarrow> False)"

subsection \<open>They pass\<close>

lemma round_trip_serialization_passes: "test_round_trip_serialization"
proof -
  have "wf_cert create_mock_cert" by (simp add: wf_cert_def create_mock_cert_def version_byte_def numeral_eq_Suc)
  then show ?thesis using cert_roundtrip cert_to_bytes_wf by (simp add: test_round_trip_serialization_def)
qed

lemma test_signer_builds:
  assumes "test_signer L km" and "2 \<le> length downstream"
  obtains cert where "build_espresso_certificate L km a b c d e downstream = Inr cert"
    and "cc_signature cert ! 64 = 27 \<or> cc_signature cert ! 64 = 28" and "wf_cert cert"
    and "cert_validate L cert (signer_addr (km_signer km)) 0 (replicate 20 0) = Inr ()"
    and "cert_to_bytes cert = Inr (cert_layout cert)" and "cert_from_bytes (cert_layout cert) = Inr cert"
proof -
  obtain sig where h: "sign_hash_sync (km_signer km) (compute_cas_signing_hash L (build_payload a b c d e downstream)
      (parent_chain_id km) (tee_verifier_address km)) = Inr sig" and v: "sig ! 64 = 27 \<or> sig ! 64 = 28"
    using assms(1) unfolding test_signer_def by meson
  have s: "sign_message L km (build_payload a b c d e downstream) = Inr sig" "sig ! 64 = 27 \<or> sig ! 64 = 28"
    using h v by (simp_all add: sign_message_def sign_typed_message_def)
  then obtain cert where c: "build_espresso_certificate L km a b c d e downstream = Inr cert"
    using assms(2) by (simp add: build_espresso_certificate_def sign_payload_def Let_def)
  have "cc_signature cert = sig" using build_certificate_Inr(1) [OF c] s(1) by simp
  moreover have "signer_ok L (km_signer km)" using assms(1) by (simp add: test_signer_def)
  ultimately show ?thesis
    using that [OF c] s(2) built_certificate_valid [OF _ c] cert_roundtrip [of cert] cert_to_bytes_wf [of cert] assms(1)
    by (simp add: test_signer_def)
qed

lemma reference_da_cert_passes:
  assumes "test_signer L km"
  shows "test_reference_da_cert L km"
proof -
  have len: "length da_cert = 99" by (simp add: da_cert_def)
  obtain cert where c: "build_espresso_certificate L km 0 0 0 0 0 da_cert = Inr cert" "wf_cert cert"
    "cert_to_bytes cert = Inr (cert_layout cert)"
    by (rule test_signer_builds [OF assms, of da_cert 0 0 0 0 0]) (use len in auto)
  have "cc_downstream cert = da_cert" by (subst build_certificate_Inr(3) [OF c(1)]) simp
  then show ?thesis
    using c len length_cert_layout [OF c(2)] by (simp add: test_reference_da_cert_def cert_sizes)
qed

lemma build_espresso_certificate_passes:
  assumes "test_signer L km"
  shows "test_build_espresso_certificate L km"
proof -
  obtain cert where c: "build_espresso_certificate L km 10 20 5 7 3 (replicate 20 1) = Inr cert"
    "cc_signature cert ! 64 = 27 \<or> cc_signature cert ! 64 = 28"
    "cert_validate L cert (signer_addr (km_signer km)) 0 (replicate 20 0) = Inr ()"
    "cert_to_bytes cert = Inr (cert_layout cert)" "cert_from_bytes (cert_layout cert) = Inr cert"
    by (rule test_signer_builds [OF assms, of "replicate 20 1" 10 20 5 7 3]) auto
  have "cc_signature cert \<noteq> replicate 65 0" using c(2) nth_replicate [of 64 65 "0 :: u8"] by force
  moreover have "cc_downstream cert = replicate 20 1 \<and> cc_start_message_pos cert = 10 \<and> cc_end_message_pos cert = 20 \<and>
      cc_start_hotshot_block cert = 5 \<and> cc_after_delayed_messages_read cert = 7 \<and> cc_min_hotshot_block cert = 3"
    by (subst build_certificate_Inr(3) [OF c(1)], simp)+
  ultimately show ?thesis using c by (simp add: test_build_espresso_certificate_def Let_def)
qed

lemma extracted_eq:
  assumes "test_signer L km" and "2 \<le> length downstream"
  shows "extracted L km downstream = Inr (replicate SEQUENCER_HEADER_LEN 0 @ downstream)"
proof -
  obtain cert where c: "build_espresso_certificate L km 0 0 0 0 0 downstream = Inr cert"
    "cert_to_bytes cert = Inr (cert_layout cert)"
    by (rule test_signer_builds [OF assms, of 0 0 0 0 0])
  then show ?thesis
    using extract_built [OF _ c(1), of "replicate SEQUENCER_HEADER_LEN 0"] assms(1)
    by (simp add: extracted_def test_signer_def)
qed

lemma remove_espresso_metadata_passes: "test_signer L km \<Longrightarrow> test_remove_espresso_metadata L km"
  by (simp add: test_remove_espresso_metadata_def extracted_eq)

lemma extract_espresso_metadata_passes:
  "test_signer L km \<Longrightarrow> test_extract_espresso_metadata_from_da_certificate L km"
  by (simp add: test_extract_espresso_metadata_from_da_certificate_def extracted_eq)

text \<open>Such a key manager exists.\<close>

lemma test_signer_exists:
  "test_signer c_sign (c_key_manager\<lparr>km_signer := c_signer\<lparr>sign_hash_sync := \<lambda>h. Inr (c_pad h @ [27])\<rparr>,
     parent_chain_id := 0, tee_verifier_address := replicate 20 0\<rparr>)"
  by (simp add: test_signer_def signer_ok_def c_sign_def c_signer_def nth_append) (rule exI [of _ False], simp)

end
