(* ===== verification/Tests_Feed.thy ===== *)
theory Tests_Feed
  imports Feed_Server "HOL-Library.Code_Target_Nat"
begin

text \<open>
  The unit tests of the feed server (\<open>src/rollups/nitro/feed/broadcaster.rs\<close>, \<open>src/rollups/nitro/feed/ws_server.rs\<close>) on the
  model. A connected client is the loop that serves it, fed with what was broadcast after it subscribed; the test
  that counts connections over open sockets is left out.
\<close>

definition empty_msg :: message_with_metadata where
  "empty_msg = \<lparr>message = None, delayed_messages_read = 0\<rparr>"

text \<open>Broadcasting a message built from its parts, which only the tests do.\<close>

definition broadcast_single ::
  "shared_state \<Rightarrow> message_with_metadata \<Rightarrow> u64 \<Rightarrow> b256 option \<Rightarrow> bytes \<Rightarrow> shared_state" where
  "broadcast_single sh msg msg_idx hash metadata =
     broadcast_single_feed_message sh
       \<lparr>sequence_number = msg_idx, feed_message_body = msg, signature = [], block_metadata = metadata,
        cumulative_sum_msg_size = 0, block_hash = hash\<rparr>"

definition broadcast_empty :: "u64 \<Rightarrow> shared_state \<Rightarrow> shared_state" where
  "broadcast_empty i sh = broadcast_single sh empty_msg i None []"

definition new_shared :: "u64 \<Rightarrow> shared_state" where
  "new_shared chain = ws_shared (broadcaster_new broadcaster_config_default chain)"

definition msg_count :: "shared_state \<Rightarrow> nat" where
  "msg_count sh = backlog_count (sh_backlog sh)"

subsection \<open>Broadcaster\<close>

definition test_broadcaster_messages_removed_on_confirmation :: bool where
  "test_broadcaster_messages_removed_on_confirmation \<longleftrightarrow>
     (let b1 = broadcast_empty 1 (new_shared 5555); b2 = broadcast_empty 2 b1; b3 = broadcast_empty 3 b2;
          b4 = broadcast_empty 4 b3; b5 = broadcast_empty 5 b4;
          b6 = broadcast_empty 6 b5;
          c4 = broadcaster_confirm b6 4; c5 = broadcaster_confirm c4 5; c4' = broadcaster_confirm c5 4;
          b7 = broadcast_empty 7 (broadcaster_confirm c4' 5);
          c8 = broadcaster_confirm b7 8
      in msg_count b1 = 1 \<and> msg_count b2 = 2 \<and> msg_count b3 = 3 \<and> msg_count b4 = 4 \<and> msg_count b5 = 5 \<and> msg_count b6 = 6 \<and>
         msg_count c4 = 2 \<and> msg_count c5 = 1 \<and> msg_count c4' = 1 \<and> msg_count b7 = 2 \<and> msg_count c8 = 0)"

definition test_broadcast_feed_messages_appended_to_backlog :: bool where
  "test_broadcast_feed_messages_appended_to_backlog \<longleftrightarrow>
     (let b = new_shared 1;
          msgs = map (\<lambda>i. \<lparr>sequence_number = i, feed_message_body = empty_msg, signature = [], block_metadata = [],
                            cumulative_sum_msg_size = 0, block_hash = None\<rparr>) [1, 2, 3]
      in msg_count b = 0 \<and> msg_count (broadcast_feed_messages b msgs) = 3)"

subsection \<open>Backlog\<close>

definition test_bm :: broadcast_message where
  "test_bm = \<lparr>bm_version = 1,
     bm_messages = [Some \<lparr>sequence_number = 1, feed_message_body = empty_msg, signature = [], block_metadata = [],
       cumulative_sum_msg_size = 0, block_hash = None\<rparr>],
     bm_confirmed = None\<rparr>"

definition test_backlog_skips_duplicates :: bool where
  "test_backlog_skips_duplicates \<longleftrightarrow>
     (let b = backlog_append [] test_bm in backlog_count b = 1 \<and> backlog_count (backlog_append b test_bm) = 1)"

definition test_confirm_before_append :: bool where
  "test_confirm_before_append \<longleftrightarrow>
     (let b = backlog_append [] test_bm in backlog_count b = 1 \<and> backlog_count (backlog_confirm b 1) = 0)"

subsection \<open>Clients\<close>

text \<open>
  The frames a client gets that connects in state \<open>before\<close> asking for \<open>seq\<close>, up to the state \<open>after\<close>. The serializer
  and the socket do their work.
\<close>

definition frames_received :: "u64 \<Rightarrow> shared_state \<Rightarrow> shared_state \<Rightarrow> broadcast_message list" where
  "frames_received sq before after =
     cl_frames (fst (run_ws_client (sh_config before) (\<lambda>bm. Inr []) (sh_backlog before) sq 0 WriteOk
       (map (\<lambda>bm. Recv bm WriteOk) (drop (length (sh_sent before)) (sh_sent after))) 1))"

definition frame_positions :: "broadcast_message \<Rightarrow> u64 option list" where
  "frame_positions bm = map (map_option sequence_number) (bm_messages bm)"

definition test_client_receives_live_broadcast :: bool where
  "test_client_receives_live_broadcast \<longleftrightarrow>
     (let sh = new_shared 1
      in case frames_received 0 sh (broadcast_empty 1 sh) of
           bm # rest \<Rightarrow> bm_version bm = 1 \<and> frame_positions bm = [Some 1]
         | [] \<Rightarrow> False)"

definition test_client_receives_seq_zero :: bool where
  "test_client_receives_seq_zero \<longleftrightarrow>
     (let sh = new_shared 1
      in case frames_received 0 sh (broadcast_empty 0 sh) of bm # rest \<Rightarrow> frame_positions bm = [Some 0] | [] \<Rightarrow> False)"

definition test_client_receives_backlog_on_connect :: bool where
  "test_client_receives_backlog_on_connect \<longleftrightarrow>
     (let sh = fold broadcast_empty [1, 2, 3] (new_shared 1)
      in case frames_received 1 sh sh of bm # rest \<Rightarrow> length (bm_messages bm) = 3 | [] \<Rightarrow> False)"

definition test_client_receives_partial_backlog :: bool where
  "test_client_receives_partial_backlog \<longleftrightarrow>
     (let sh = fold broadcast_empty [1, 2, 3, 4, 5] (new_shared 1)
      in case frames_received 3 sh sh of
           bm # rest \<Rightarrow> length (bm_messages bm) = 3 \<and> hd (frame_positions bm) = Some 3
         | [] \<Rightarrow> False)"

definition test_client_receives_confirmation :: bool where
  "test_client_receives_confirmation \<longleftrightarrow>
     (let sh = new_shared 1
      in case frames_received 0 sh (broadcaster_confirm sh 10) of
           bm # rest \<Rightarrow> bm_messages bm = [] \<and> bm_confirmed bm = Some 10
         | [] \<Rightarrow> False)"

definition test_multiple_clients_receive_same_broadcast :: bool where
  "test_multiple_clients_receive_same_broadcast \<longleftrightarrow>
     (let sh = new_shared 1; after = broadcast_empty 1 sh
      in list_all (\<lambda>frames. case frames of bm # rest \<Rightarrow> length (bm_messages bm) = 1 | [] \<Rightarrow> False)
           [frames_received 0 sh after, frames_received 0 sh after])"

text \<open>\<open>bind_listener\<close> opens the socket and gives its address.\<close>

definition test_broadcaster_lifecycle :: "(string \<Rightarrow> r_error + string) \<Rightarrow> bool" where
  "test_broadcaster_lifecycle bind_listener \<longleftrightarrow>
     (let cfg = broadcaster_config_default\<lparr>ws_server_config :=
            ws_broadcast_server_config_default\<lparr>ws_addr := ''127.0.0.1'', ws_port := 0\<rparr>\<rparr>;
          b = broadcaster_new cfg 1
      in \<not> ws_server_started b \<and> listener_addr b = None \<and>
         (case broadcaster_start bind_listener b of
            (Inr addr, b') \<Rightarrow>
              ws_server_started b' \<and> listener_addr b' = Some addr \<and> \<not> ws_server_started (broadcaster_stop b')
          | _ \<Rightarrow> False))"

subsection \<open>They pass\<close>

lemma broadcaster_messages_removed_on_confirmation_passes: "test_broadcaster_messages_removed_on_confirmation"
  by code_simp

lemma broadcast_feed_messages_appended_to_backlog_passes: "test_broadcast_feed_messages_appended_to_backlog"
  by code_simp

lemma backlog_skips_duplicates_passes: "test_backlog_skips_duplicates"
  by code_simp

lemma confirm_before_append_passes: "test_confirm_before_append"
  by code_simp

lemma client_receives_live_broadcast_passes: "test_client_receives_live_broadcast"
  by code_simp

lemma client_receives_seq_zero_passes: "test_client_receives_seq_zero"
  by code_simp

lemma client_receives_backlog_on_connect_passes: "test_client_receives_backlog_on_connect"
  by code_simp

lemma client_receives_partial_backlog_passes: "test_client_receives_partial_backlog"
  by code_simp

lemma client_receives_confirmation_passes: "test_client_receives_confirmation"
  by code_simp

lemma multiple_clients_receive_same_broadcast_passes: "test_multiple_clients_receive_same_broadcast"
  by code_simp

lemma broadcaster_lifecycle_passes:
  assumes "bind_listener ''127.0.0.1:0'' = Inr addr"
  shows "test_broadcaster_lifecycle bind_listener"
proof -
  have "show_nat 0 = ''0''" by code_simp
  then show ?thesis
    using assms
    by (simp add: test_broadcaster_lifecycle_def broadcaster_new_def ws_server_new_def ws_server_started_def
        listener_addr_def broadcaster_start_def ws_server_start_def broadcaster_stop_def ws_server_stop_def Let_def)
qed

end
