(* ===== verification/Tests_Keys.thy ===== *)
theory Tests_Keys
  imports Key_Manager
begin

text \<open>
  The unit tests of the key manager (\<open>src/key_manager/key_manager.rs\<close>) on the model, with the mocks of the contract and
  of the attestation devices. What the mocks mutate is the world. The ABI codec of byte strings is a parameter, as are
  the hash and the random key; a key's address is the tail of the hash of its public key.
\<close>

subsection \<open>Mocks\<close>

record mock_world =
  registered_addrs :: "address list"
  register_failures_remaining :: u8
  always_registered :: bool
  failures_remaining :: u8

record mock_libs =
  abi_encode :: "bytes \<Rightarrow> bytes"
  abi_decode :: "bytes \<Rightarrow> r_error + bytes"

text \<open>Every call of a mock reads and updates the world.\<close>

definition mock_generate_zk_proof :: "mock_libs \<Rightarrow> bytes \<Rightarrow> (mock_world, r_error, bytes \<times> bytes) io" where
  "mock_generate_zk_proof M attestation =
     ret (if attestation = [] then Inl ''Received empty attestation in MockAttestationClient''
          else Inr (abi_encode M attestation, map (\<lambda>c. of_nat (of_char c)) ''mock_proof''))"

definition mock_register_service :: "mock_libs \<Rightarrow> sign_lib \<Rightarrow> bytes \<Rightarrow> bytes \<Rightarrow> u8 \<Rightarrow> (mock_world, r_error, unit) io" where
  "mock_register_service M L attestation data ty = State (\<lambda>w.
     if register_failures_remaining w > 0
     then (Inl ''mock registration failure'', w\<lparr>register_failures_remaining := register_failures_remaining w - 1\<rparr>)
     else case abi_decode M attestation of
            Inl e \<Rightarrow> (Inl ''failed to ABI-decode journal in mock'', w)
          | Inr pub_key_bytes \<Rightarrow>
              let addr = drop 12 (sl_keccak256 L (drop 1 pub_key_bytes))
              in (Inr (), w\<lparr>registered_addrs := addr # registered_addrs w\<rparr>))"

definition mock_registered_services :: "address \<Rightarrow> tee_type \<Rightarrow> (mock_world, r_error, bool) io" where
  "mock_registered_services addr ty =
     State (\<lambda>w. if always_registered w then (Inr True, w) else (Inr (addr \<in> set (registered_addrs w)), w))"

definition mock_tee_verifier :: "mock_libs \<Rightarrow> sign_lib \<Rightarrow> mock_world espresso_tee_verifier" where
  "mock_tee_verifier M L =
     \<lparr>register_service = mock_register_service M L, registered_services = mock_registered_services\<rparr>"

definition mock_tee_verifier_new :: mock_world where
  "mock_tee_verifier_new =
     \<lparr>registered_addrs = [], register_failures_remaining = 0, always_registered = False, failures_remaining = 0\<rparr>"

definition mock_get_attestation :: "bytes \<Rightarrow> (mock_world, r_error, bytes) io" where
  "mock_get_attestation pub_key = State (\<lambda>w.
     if failures_remaining w > 0
     then (Inl ''mock attestation failure'', w\<lparr>failures_remaining := failures_remaining w - 1\<rparr>)
     else (Inr pub_key, w))"

definition make_test_key_manager ::
  "mock_libs \<Rightarrow> sign_lib \<Rightarrow> private_key_signer \<Rightarrow> u8 \<Rightarrow> key_manager_error + mock_world key_manager" where
  "make_test_key_manager M L random_signer max_attempts =
     key_manager_new (mock_tee_verifier M L) (mock_generate_zk_proof M) mock_get_attestation max_attempts TeeNitro 1
       (replicate 20 0) random_signer"

text \<open>\<open>initialize\<close> of a fresh key manager in a world, with its result and the world after it.\<close>

definition initialized ::
  "mock_libs \<Rightarrow> sign_lib \<Rightarrow> private_key_signer \<Rightarrow> mock_world \<Rightarrow> (key_manager_error + unit) \<times> mock_world" where
  "initialized M L signer w =
     (case make_test_key_manager M L signer 3 of
        Inl e \<Rightarrow> (Inl e, w)
      | Inr km \<Rightarrow> run_state (initialize L km) w)"

definition registers :: "private_key_signer \<Rightarrow> (key_manager_error + unit) \<times> mock_world \<Rightarrow> bool" where
  "registers signer r \<longleftrightarrow> fst r = Inr () \<and> signer_addr signer \<in> set (registered_addrs (snd r))"

subsection \<open>Tests\<close>

definition test_initialize :: "mock_libs \<Rightarrow> sign_lib \<Rightarrow> private_key_signer \<Rightarrow> bool" where
  "test_initialize M L signer \<longleftrightarrow> registers signer (initialized M L signer mock_tee_verifier_new)"

definition test_initialize_already_registered :: "mock_libs \<Rightarrow> sign_lib \<Rightarrow> private_key_signer \<Rightarrow> bool" where
  "test_initialize_already_registered M L signer \<longleftrightarrow>
     fst (initialized M L signer (mock_tee_verifier_new\<lparr>always_registered := True\<rparr>)) = Inr ()"

definition test_initialize_preparation_attempts :: "mock_libs \<Rightarrow> sign_lib \<Rightarrow> private_key_signer \<Rightarrow> bool" where
  "test_initialize_preparation_attempts M L signer \<longleftrightarrow>
     registers signer (initialized M L signer (mock_tee_verifier_new\<lparr>failures_remaining := 2\<rparr>)) \<and>
     fst (initialized M L signer (mock_tee_verifier_new\<lparr>failures_remaining := 3\<rparr>)) =
       Inl (PreparationExhausted 3 (signer_addr signer))"

definition test_initialize_registration_attempts :: "mock_libs \<Rightarrow> sign_lib \<Rightarrow> private_key_signer \<Rightarrow> bool" where
  "test_initialize_registration_attempts M L signer \<longleftrightarrow>
     registers signer (initialized M L signer (mock_tee_verifier_new\<lparr>register_failures_remaining := 2\<rparr>)) \<and>
     fst (initialized M L signer (mock_tee_verifier_new\<lparr>register_failures_remaining := 3\<rparr>)) =
       Inl (RegistrationExhausted 3 (signer_addr signer))"

definition test_sign_typed_message_recovers :: "sign_lib \<Rightarrow> private_key_signer \<Rightarrow> bool" where
  "test_sign_typed_message_recovers L signer \<longleftrightarrow>
     (let chain = 42161 :: u64; verifier_addr = replicate 20 0xAB;
          msg = map (\<lambda>c. of_nat (of_char c)) ''commitment payload''
      in case sign_typed_message L msg signer chain verifier_addr of
           Inr sig_bytes \<Rightarrow>
             (let commitment = sl_keccak256 L msg;
                  domain = \<lparr>domain_name = ''EspressoTEEVerifier'', domain_version = ''1'', domain_chain_id = unat chain,
                            verifying_contract = verifier_addr\<rparr>;
                  signing_hash = sl_eip712_hash L domain commitment
              in (sig_bytes ! 64 = 27 \<or> sig_bytes ! 64 = 28) \<and>
                 sl_recover L (take 64 sig_bytes, sig_bytes ! 64 = 28) signing_hash = Inr (signer_addr signer))
         | Inl e \<Rightarrow> False)"

subsection \<open>They pass\<close>

text \<open>A random key, and the ABI codec, as documented.\<close>

definition random_key :: "mock_libs \<Rightarrow> sign_lib \<Rightarrow> private_key_signer \<Rightarrow> bool" where
  "random_key M L signer \<longleftrightarrow> signer_public_key signer \<noteq> [] \<and>
     signer_addr signer = drop 12 (sl_keccak256 L (drop 1 (signer_public_key signer))) \<and>
     (\<forall>b. abi_encode M b \<noteq> [] \<and> abi_decode M (abi_encode M b) = Inr b) \<and>
     (\<forall>h. \<exists>sig. sign_hash_sync signer h = Inr sig \<and> (sig ! 64 = 27 \<or> sig ! 64 = 28) \<and>
        sl_recover L (take 64 sig, sig ! 64 = 28) h = Inr (signer_addr signer))"

lemma random_keyD:
  assumes "random_key M L signer"
  shows "signer_public_key signer \<noteq> []" and "abi_encode M b \<noteq> []" and "abi_decode M (abi_encode M b) = Inr b"
    and "drop 12 (sl_keccak256 L (drop 1 (signer_public_key signer))) = signer_addr signer"
  using assms by (simp_all add: random_key_def)

lemma mock_runs:
  "run_state (mock_generate_zk_proof M b) w = (if b = [] then Inl ''Received empty attestation in MockAttestationClient''
     else Inr (abi_encode M b, map (\<lambda>c. of_nat (of_char c)) ''mock_proof''), w)"
  "run_state (mock_registered_services addr ty) w = (Inr (always_registered w \<or> addr \<in> set (registered_addrs w)), w)"
  "run_state (mock_get_attestation pk) w =
     (if failures_remaining w > 0
      then (Inl ''mock attestation failure'', w\<lparr>failures_remaining := failures_remaining w - 1\<rparr>) else (Inr pk, w))"
  by (simp_all add: mock_generate_zk_proof_def mock_registered_services_def mock_get_attestation_def)

lemma mock_register_run:
  assumes "random_key M L signer"
  shows "run_state (mock_register_service M L (abi_encode M (signer_public_key signer)) p ty) w =
    (if register_failures_remaining w > 0
     then (Inl ''mock registration failure'', w\<lparr>register_failures_remaining := register_failures_remaining w - 1\<rparr>)
     else (Inr (), w\<lparr>registered_addrs := signer_addr signer # registered_addrs w\<rparr>))"
  using random_keyD [OF assms] by (simp add: mock_register_service_def Let_def)

lemma random_key_passes:
  assumes "random_key M L signer"
  shows "test_initialize M L signer" and "test_initialize_already_registered M L signer"
    and "test_initialize_preparation_attempts M L signer" and "test_initialize_registration_attempts M L signer"
proof -
  have km: "make_test_key_manager M L signer 3 = Inr \<lparr>km_tee_verifier = mock_tee_verifier M L,
      km_generate_zk_proof = mock_generate_zk_proof M, km_get_attestation = mock_get_attestation,
      max_register_attempts = 3, km_tee_type = TeeNitro, km_signer = signer, parent_chain_id = 1,
      tee_verifier_address = replicate 20 0\<rparr>"
    by (simp add: make_test_key_manager_def key_manager_new_def)
  have three: "prepare_attempts L km 3 = prepare_attempts L km (Suc (Suc (Suc 0)))"
    "register_attempts km j p 3 = register_attempts km j p (Suc (Suc (Suc 0)))" for km :: "mock_world key_manager" and j p
    by (simp_all only: numeral_3_eq_3)
  note run = registers_def initialized_def km initialize_def verify_registration_on_chain_def prepare_register_service_def
    mock_tee_verifier_def mock_tee_verifier_new_def mock_runs mock_register_run [OF assms] random_keyD [OF assms]
    three run_io_then run_io_map_err on_chain_tee_type_def Let_def
  show "test_initialize M L signer" by (simp add: test_initialize_def run)
  show "test_initialize_already_registered M L signer" by (simp add: test_initialize_already_registered_def run)
  show "test_initialize_preparation_attempts M L signer" by (simp add: test_initialize_preparation_attempts_def run)
  show "test_initialize_registration_attempts M L signer" by (simp add: test_initialize_registration_attempts_def run)
qed

lemma sign_typed_message_recovers_passes:
  assumes "random_key M L signer"
  shows "test_sign_typed_message_recovers L signer"
proof -
  obtain sig where "sign_hash_sync signer (compute_cas_signing_hash L (map (\<lambda>c. of_nat (of_char c)) ''commitment payload'')
      42161 (replicate 20 0xAB)) = Inr sig" "sig ! 64 = 27 \<or> sig ! 64 = 28"
    "sl_recover L (take 64 sig, sig ! 64 = 28) (compute_cas_signing_hash L
      (map (\<lambda>c. of_nat (of_char c)) ''commitment payload'') 42161 (replicate 20 0xAB)) = Inr (signer_addr signer)"
    using assms unfolding random_key_def by meson
  then show ?thesis
    by (simp add: test_sign_typed_message_recovers_def sign_typed_message_def compute_cas_signing_hash_def Let_def)
qed

text \<open>Such a key and codec exist.\<close>

lemma random_key_exists:
  "random_key \<lparr>abi_encode = (\<lambda>b. 1 # b), abi_decode = (\<lambda>b. Inr (drop 1 b))\<rparr>
     \<lparr>sl_keccak256 = (\<lambda>b. replicate 12 0 @ take 20 (b @ replicate 20 0)), sl_eip712_hash = (\<lambda>d h. h),
      sl_abi_encode_journal = (\<lambda>j. [1]), sl_signature_try_from = (\<lambda>b. Inr (take 64 b, b ! 64 = 28)),
      sl_recover = (\<lambda>s h. Inr (replicate 20 7))\<rparr>
     \<lparr>signer_addr = replicate 20 7, signer_public_key = 4 # replicate 64 7,
      sign_hash_sync = (\<lambda>h. Inr (replicate 64 1 @ [27]))\<rparr>"
  by (simp add: random_key_def nth_append)

end
