(* ===== verification/Tests_Secrets.thy ===== *)
theory Tests_Secrets
  imports Service "HOL-Library.Code_Target_Nat"
begin

text \<open>
  The unit tests of the secret overrides (\<open>src/secrets.rs\<close>) on the model. The configuration and the overrides are the
  values that the tests read from their JSON texts; the tests of the JSON reader itself are left out. \<open>parse_url\<close> is
  the URL parser, \<open>no_stake\<close> the test for an empty stake table, which hold for the values of the tests.
\<close>

definition placeholder_config :: "unit service_config" where
  "placeholder_config =
     \<lparr>svc_espresso_client =
        \<lparr>ec_client = \<lparr>base_url = ''http://placeholder.invalid/'', client_timeout_secs = default_client_timeout_secs\<rparr>,
         ec_light_client = \<lparr>genesis = (), fallback_query_urls = [], db_path = None,
           num_stake_tables_in_memory = default_num_stake_tables_in_memory, fallback_delay_ms = default_fallback_delay_ms\<rparr>\<rparr>,
      svc_streamer = streamer_config_default,
      svc_rollup = \<lparr>namespace_id = 1, stack =
        \<lparr>legacy_signer_addresses = [], chain_id = 412346,
         feed = feed_config_default\<lparr>web_socket_url := ''PLACEHOLDER'', current_message_count := 0\<rparr>,
         l1_http_url = ''PLACEHOLDER'', l1_ws_url = ''PLACEHOLDER'', sequencer_inbox_address = replicate 20 0,
         log_scan_step = default_log_scan_step, max_l1_blocks_to_scan_on_startup = 0,
         l1_finalized_poll_interval_ms = default_l1_finalized_poll_interval_ms\<rparr>\<rparr>,
      svc_da_server = \<lparr>listen_addr = ''0.0.0.0:9000'',
        da_providers =
          [\<lparr>prov_name = ''anytrust'', endpoint_url = ''PLACEHOLDER'', is_anytrust = True, anytrust_fallback_url = None\<rparr>,
           \<lparr>prov_name = ''calldata'', endpoint_url = '''', is_anytrust = False, anytrust_fallback_url = None\<rparr>],
        cfg_calldata_max_size = None\<rparr>,
      svc_submitter = submitter_config_default, svc_advanced = advanced_config_default,
      svc_key_manager = \<lparr>kmc_tee_verifier_address = replicate 20 0, attestation_verifier_url = ''http://localhost:9000'',
        kmc_max_register_attempts = default_max_register_attempts,
        attestation_client_timeout_secs = default_attestation_client_timeout_secs, kmc_tee_type = TeeTest\<rparr>,
      is_fresh_deployment = False\<rparr>"

definition sample_overrides :: secret_overrides where
  "sample_overrides =
     \<lparr>ov_espresso_base_url = ''https://query.example.com/'', ov_feed_ws_url = ''wss://feed.example.com/feed'',
      ov_l1_ws_url = ''wss://l1.example.com'', ov_l1_http_url = ''https://l1.example.com/'',
      ov_anytrust_endpoint = ''http://anytrust.example.com:9876'', ov_starting_hotshot_height = 9199257,
      ov_is_fresh_deployment = True, ov_operator_private_key = None, ov_log_filter = None\<rparr>"

text \<open>The URLs of the tests parse, and print as they are.\<close>

definition test_parse_url :: "string \<Rightarrow> string option" where
  "test_parse_url s =
     (if s \<in> {''https://query.example.com/'', ''https://l1.example.com/''} then Some s else None)"

definition t_assert :: "unit service_config \<Rightarrow> r_error + unit" where
  "t_assert = assert_no_placeholders_nitro False test_parse_url (\<lambda>g. True)"

definition t_err_contains :: "string \<Rightarrow> r_error + unit \<Rightarrow> bool" where
  "t_err_contains needle r = (case r of Inl e \<Rightarrow> str_contains needle e | Inr u \<Rightarrow> False)"

subsection \<open>Tests\<close>

definition resolve_operator_private_key_prefers_aws_value :: "(string \<Rightarrow> string option) \<Rightarrow> bool" where
  "resolve_operator_private_key_prefers_aws_value var \<longleftrightarrow>
     (let overrides =
        \<lparr>ov_espresso_base_url = ''https://x/'', ov_feed_ws_url = ''wss://x'', ov_l1_ws_url = ''wss://x'',
         ov_l1_http_url = ''https://l1.example.com/'', ov_anytrust_endpoint = ''http://x'', ov_starting_hotshot_height = 0,
         ov_is_fresh_deployment = True, ov_operator_private_key = Some ''0xfromsecret'', ov_log_filter = None\<rparr>
      in resolve_operator_private_key var (Some overrides) = Inr ''0xfromsecret'')"

definition apply_and_assert_replaces_all_placeholders :: bool where
  "apply_and_assert_replaces_all_placeholders \<longleftrightarrow>
     \<not> is_ok (t_assert placeholder_config) \<and>
     (case apply_overrides_nitro test_parse_url sample_overrides placeholder_config of
        Inr cfg \<Rightarrow>
          base_url (ec_client (svc_espresso_client cfg)) = ''https://query.example.com/'' \<and>
          web_socket_url (feed (stack (svc_rollup cfg))) = ''wss://feed.example.com/feed'' \<and>
          l1_ws_url (stack (svc_rollup cfg)) = ''wss://l1.example.com'' \<and>
          l1_http_url (stack (svc_rollup cfg)) = ''https://l1.example.com/'' \<and>
          map_option endpoint_url (find is_anytrust (da_providers (svc_da_server cfg))) =
            Some ''http://anytrust.example.com:9876'' \<and>
          map_option endpoint_url (find (\<lambda>p. prov_name p = ''calldata'') (da_providers (svc_da_server cfg))) = Some '''' \<and>
          starting_hotshot_height (svc_streamer cfg) = 9199257 \<and> is_fresh_deployment cfg \<and> is_ok (t_assert cfg)
      | Inl e \<Rightarrow> False)"

definition assert_fails_when_l1_ws_url_left_as_placeholder :: bool where
  "assert_fails_when_l1_ws_url_left_as_placeholder \<longleftrightarrow>
     (case apply_overrides_nitro test_parse_url (sample_overrides\<lparr>ov_l1_ws_url := PLACEHOLDER_STR\<rparr>) placeholder_config of
        Inr cfg \<Rightarrow> t_err_contains ''l1_ws_url'' (t_assert cfg)
      | Inl e \<Rightarrow> False)"

definition assert_fails_when_l1_http_url_left_as_placeholder :: bool where
  "assert_fails_when_l1_http_url_left_as_placeholder \<longleftrightarrow>
     (let cfg = placeholder_config; ec = svc_espresso_client cfg; ro = svc_rollup cfg; st = stack ro; da = svc_da_server cfg;
          cfg = cfg\<lparr>svc_espresso_client := ec\<lparr>ec_client := (ec_client ec)\<lparr>base_url := ''https://query.example.com/''\<rparr>\<rparr>,
            svc_rollup := ro\<lparr>stack := st\<lparr>feed := (feed st)\<lparr>web_socket_url := ''wss://feed.example.com/feed''\<rparr>,
              l1_ws_url := ''wss://l1.example.com''\<rparr>\<rparr>,
            svc_da_server := da\<lparr>da_providers := map (\<lambda>p. if is_anytrust p
              then p\<lparr>endpoint_url := ''http://anytrust.example.com:9876''\<rparr> else p) (da_providers da)\<rparr>\<rparr>
      in t_err_contains ''l1_http_url'' (t_assert cfg))"

definition assert_fails_when_base_url_left_as_sentinel :: bool where
  "assert_fails_when_base_url_left_as_sentinel \<longleftrightarrow>
     t_err_contains ''espresso_client.base_url'' (t_assert placeholder_config)"

subsection \<open>They pass\<close>

lemma resolve_operator_private_key_passes: "resolve_operator_private_key_prefers_aws_value var"
  by (simp add: resolve_operator_private_key_prefers_aws_value_def resolve_operator_private_key_def)

lemma apply_and_assert_passes: "apply_and_assert_replaces_all_placeholders"
  by code_simp

lemma assert_l1_ws_url_passes: "assert_fails_when_l1_ws_url_left_as_placeholder"
  by code_simp

lemma assert_l1_http_url_passes: "assert_fails_when_l1_http_url_left_as_placeholder"
  by code_simp

lemma assert_base_url_passes: "assert_fails_when_base_url_left_as_sentinel"
  by code_simp

end
