(* ===== verification/Spec2Isabelle.thy ===== *)
theory Spec2Isabelle
  imports Props_Streamer Props_Nitro Props_Da Props_Service Props_Feed
    Tests_Streamer Tests_Nitro Tests_Da Tests_Feed Tests_Keys Tests_Secrets
begin

text \<open>
  Verification of the chain-adjacent service: a process beside an Arbitrum Nitro rollup that relays the sequencer's feed
  through Espresso and signs data-availability certificates for batches it has compared with the messages Espresso
  finalized. File names below are relative to \<open>src/\<close>.

  \<^bold>\<open>The parts and how they interact.\<close> \<open>main\<close> reads the configuration and secrets, registers its key on chain and resumes from
  an L1 checkpoint; \<open>run\<close> then selects over five tasks (\<open>src/main.rs\<close>).
  The upstream feed client verifies the sequencer's signatures and hands the messages to the submitter, which packs them into
  Espresso transactions. The block poller reads Espresso blocks back and passes them to the streamer's event loop, which
  keeps a bounded queue of verified messages and sends them in order to the feed relay's WebSocket server. The L1 monitor
  publishes the finalized message index to the streamer and the relay. The DA server asks the event loop to compare a
  posted batch with the queue, and answers with a signed certificate.

  \<^bold>\<open>Theories and sources.\<close>

  \<^item> \<open>Prelude\<close>, \<open>Std_Slice\<close>, \<open>Std_BTreeMap\<close>, \<open>Std_Io\<close>: words, results and the \<open>?\<close> operator, the searches of
    \<open>std::slice\<close>, the ordered map (locale \<open>ordered_map\<close>, interpretation \<open>bt\<close>), effects over an abstract world.
  \<^item> \<open>Rollup\<close>: the \<open>Rollup\<close> trait as a record of functions (\<open>src/rollups/rollup.rs\<close>), with the laws the streamer relies on
    as locale \<open>rollup_contract\<close>; \<open>Nitro\<close> interprets it on the Nitro stack.
  \<^item> \<open>Streamer\<close>, \<open>Streamer_Loop\<close>, \<open>Streamer_Chain\<close>: \<open>src/streamer/streamer.rs\<close>. Record \<open>streamer\<close> is the struct, with
    one definition per method; \<open>run_step\<close> has one rule per branch of the event loop's \<open>select!\<close>; \<open>poll_iteration\<close> is
    one round of the block poller.
  \<^item> \<open>Nitro_Types\<close>, \<open>Nitro_Batch\<close>, \<open>Nitro_Verify\<close>, \<open>Nitro_Rlp\<close>, \<open>Nitro_Signature\<close>, \<open>Nitro_Payload\<close>, \<open>Nitro_Json\<close>, \<open>Nitro\<close>:
    \<open>src/rollups/nitro\<close> (\<open>types.rs\<close>, \<open>config.rs\<close>, \<open>batch_parsing.rs\<close>, \<open>decompress/brotli.rs\<close>, \<open>utils.rs\<close>, \<open>nitro.rs\<close>).
  \<^item> \<open>Key_Manager\<close>: \<open>src/key_manager\<close>. \<open>Da_Types\<close>, \<open>Certificate\<close>, \<open>Da_Server\<close>: \<open>src/da_api\<close>.
  \<^item> \<open>L1_Monitor\<close>: \<open>src/rollups/nitro/l1_monitor.rs\<close>. \<open>Espresso_Client\<close>: \<open>src/espresso_client\<close>.
    \<open>Submitter\<close>: \<open>src/submitter/submitter.rs\<close>, the loop and its spawned tasks as the step relation \<open>sub_step\<close>.
  \<^item> \<open>Feed_Message\<close>, \<open>Feed_Server\<close>, \<open>Feed_Client\<close>, \<open>Feed_Relay\<close>: \<open>src/rollups/nitro/feed\<close>. Locale \<open>message_log\<close> is what a
    subscriber needs of the backlog; interpretation \<open>server_log\<close> discharges it for the server's.
  \<^item> \<open>Service\<close>, \<open>Log_Filter\<close>, \<open>Net_Proxy\<close>: \<open>src/config.rs\<close>, \<open>src/secrets.rs\<close>, startup in \<open>src/main.rs\<close>, the log filter of
    \<open>src/lib.rs\<close>, \<open>src/ws_proxy_connect.rs\<close>.
  \<^item> \<open>System\<close>: the running service. \<open>sys_step\<close> interleaves the tasks in any order over their channels; every step is a step
    of the component's own model, so invariants of the components carry over to the whole. Requests to the DA server
    wait for their reply independently of each other.
  \<^item> \<open>Concrete\<close>, \<open>Concrete_Service\<close>, \<open>Concrete_System\<close>, \<open>Rlp_Instance\<close>: a concrete deployment on which the theorems are
    evaluated. \<open>Props_Streamer\<close>, \<open>Props_Nitro\<close>, \<open>Props_Da\<close>, \<open>Props_Service\<close>, \<open>Props_Feed\<close>: the properties of the parts.
  \<^item> \<open>Mock_Rollup\<close>: the repository's mock rollup (\<open>src/espresso_e2e/mock_rollup.rs\<close>), a second interpretation of
    \<open>rollup_contract\<close>. \<open>Tests_Streamer\<close>, \<open>Tests_Nitro\<close>, \<open>Tests_Da\<close>, \<open>Tests_Feed\<close>, \<open>Tests_Keys\<close>, \<open>Tests_Secrets\<close>: the unit
    tests of the repository, run on the model; a lemma says of each that it passes. They check the definitions against
    what the code is known to do, among it a recorded transaction of a live chain.

  \<^bold>\<open>What the theorems show.\<close> This theory has the properties of the whole service. An answered store request
  means that the key is registered and that signed messages held by the Espresso chain match the batch from the cursor on;
  a certificate in the answer validates and covers exactly that range. What the feed client accepts reaches the submitter's
  transactions in order and reads back from them. The relay's backlog is the list of signed messages received and not yet
  finalized, and a subscriber of the relay is sent each message once, in order, and none that Espresso does not hold.
  For the parts: the streamer keeps its invariant, implements a first-wins map of sequence numbers, forgets exactly what L1
  finalized, holds the oldest pending entries of the chain and broadcasts without gaps; the poller covers the chain. Batch
  verification accepts exactly the matching batches; the parsers of batches, payloads, RLP and the legacy format are
  inverse to the encodings; signed bytes and certificates bind their fields. Registration, startup, the checkpoint scan,
  published indices, submission tasks, the handshake, the delivery to a subscriber and the proxy connectors do what their
  callers rely on. Two properties are about behaviour that is not intended: a gap in the queue goes unnoticed by batch
  verification, and a message that does not fit into a payload makes the transaction builder loop for ever.

  \<^bold>\<open>Loops, bounds and fuel.\<close> No definition takes fuel. Loops over bytes, windows and digits are total functions with a
  termination measure (\<open>decode_segments\<close>, \<open>parse_messages\<close>, \<open>parse_legacy_messages\<close>, \<open>scan_loop\<close>, \<open>fetch_windows\<close>). Loops that
  may run for ever are partial functions whose divergence is \<open>None\<close>: \<open>build_tx_loop\<close>, shown to return when every message
  fits, \<open>retry_connect\<close> and \<open>start_connect\<close>. Endless service loops are step relations or functions of the list of events they
  see. \<open>u64\<close> values keep their width and wrap; \<open>usize\<close> lengths and \<open>U256\<close> are \<^typ>\<open>nat\<close>.

  \<^bold>\<open>Parameters.\<close> Code outside the repository is an argument: brotli, \<open>alloy_rlp\<close>, keccak and signature recovery,
  \<open>serde_json\<close>, HTTP, WebSocket and TLS, the L1 provider and contracts, the enclave driver, the secret store, the light client,
  tokio's channels. What a theorem needs of it is a named hypothesis (\<open>json_inverts\<close>, \<open>rlp_laws\<close>, \<open>signer_ok\<close>, \<open>truthful\<close>,
  \<open>serves_events\<close>, \<open>fifo\<close>, \<open>reads_chain\<close> and others), met by the concrete deployment.

  \<^bold>\<open>Not modelled.\<close> Log lines, and the state kept only for them; durations of sleeps, of which only the values are modelled;
  reading the command line and the configuration file and the derived serde codecs, whose results are arguments;
  the generated contract bindings; the TLS provider and connector; in \<open>System\<close>, the sockets of the relay's subscribers, which
  the theorem about subscribers runs beside the service. Tests that start a node, open sockets or
  read JSON texts and files, and the end-to-end harness they use (\<open>src/espresso_e2e\<close>), are left out.
\<close>

subsection \<open>A run of the whole service\<close>

text \<open>
  The environment and the run at which the theorems below are evaluated: the poller reads four blocks, the event loop
  queues and broadcasts their messages.
\<close>

definition g_try_recv ::
  "broadcast_feed_message list \<Rightarrow> (broadcast_feed_message \<times> broadcast_feed_message list) option" where
  "g_try_recv ch = (case ch of [] \<Rightarrow> None | m # ms \<Rightarrow> Some (m, ms))"

definition g_http :: "bool http_client" where
  "g_http = \<lparr>hc_post_json = (\<lambda>url v. ret (Inl ''down'')), hc_post_raw = (\<lambda>url b. ret (Inl ''down''))\<rparr>"

definition g_env :: "(bool, nat, unit, broadcast_feed_message list) system_env" where
  "g_env = \<lparr>ev_libs = c_libs, ev_net = f_net, ev_from_slice = f_slice, ev_serde = c_serde, ev_sign = c_sign,
     ev_http = g_http, ev_reader = (\<lambda>r. r = c_reader\<lparr>block_height := Inr 4\<rparr>), ev_try_send = c_try_send, ev_try_recv = g_try_recv\<rparr>"

definition g_init :: "(nat, unit, broadcast_feed_message list) system" where
  "g_init = system_init (\<lambda>addr. Inr addr) c_svc 0 []"

definition g_blocks :: "bytes list list" where
  "g_blocks = map (\<lambda>i. c_chain (of_nat i)) [0..<4]"

definition g_state :: "(nat, unit, broadcast_feed_message list) system" where
  "g_state = g_init\<lparr>sys_poll := \<lparr>from_block = 4, backoff = 1000\<rparr>, sys_blocks := [],
     sys_received := [(g_blocks, 0)], sys_loop := c_run1\<rparr>"

lemma g_fifo: "fifo c_try_send g_try_recv id"
  by (auto simp: fifo_def c_try_send_def g_try_recv_def split: if_splits list.splits)

lemma c_svc_simps [simp]:
  "run_config c_svc = c_service_config" "run_key_manager c_svc = b_key_manager"
  "svc_streamer c_service_config = c_streamer_config" "svc_rollup c_service_config = c_rollup_config"
  "run_submitter c_svc = submitter_new submitter_config_default"
  "run_feed_relay c_svc = start_feed_relay c_libs c_nitro_config"
  "mon_bridge_address (run_l1_monitor c_svc) = replicate 20 3"
  by (simp_all add: c_svc_def c_service_config_def)

lemma g_env_simps [simp]:
  "ev_libs g_env = c_libs" "ev_net g_env = f_net" "ev_from_slice g_env = f_slice" "ev_serde g_env = c_serde"
  "ev_sign g_env = c_sign" "ev_http g_env = g_http" "ev_reader g_env r \<longleftrightarrow> r = c_reader\<lparr>block_height := Inr 4\<rparr>" "ev_try_send g_env = c_try_send" "ev_try_recv g_env = g_try_recv"
  by (simp_all add: g_env_def)

lemma g_init_simps [simp]:
  "sys_exit g_init = None" "sys_poll g_init = \<lparr>from_block = 0, backoff = 1000\<rparr>" "sys_blocks g_init = []"
  "sys_received g_init = []" "sys_loop g_init = c_run_init" "sys_pending g_init = []" "sys_events g_init = []"
  "sys_answers g_init = []" "sys_requests g_init = []" "sys_version g_init = 0" "sys_relay_seen g_init = 0" "sys_last_finalized_block g_init = 0"
  by (simp_all add: g_init_def system_init_def broadcaster_start_def ws_server_start_def Let_def c_run_init_def
      c_streamer_config_def)

lemma g_reads: "reads_chain g_env c_svc c_chain"
  by (simp add: reads_chain_def honest_reader_def c_reader_def)

lemma g_reachable: "(sys_step g_env c_svc)\<^sup>*\<^sup>* g_init g_state"
proof -
  let ?reader = "c_reader\<lparr>block_height := Inr 4\<rparr>"
  let ?s = "g_init\<lparr>sys_poll := \<lparr>from_block = 4, backoff = 1000\<rparr>, sys_blocks := [(g_blocks, 0)]\<rparr>"
  have lim: "min (saturating_add 0 HOTSHOT_RANGE_LIMIT) (4 :: u64) = 4" by code_simp
  have "poll_iteration c_streamer_config (namespace_id c_rollup_config)
      \<lparr>pi_reader = ?reader, pi_channel_open = True\<rparr> (sys_poll g_init) =
      (\<lparr>from_block = 4, backoff = 1000\<rparr>, PollSend g_blocks 0)"
    using lim by (simp add: poll_iteration_def Let_def c_reader_def g_blocks_def not_le word_less_nat_alt)
      (simp add: c_streamer_config_def)
  then have p: "sys_step g_env c_svc g_init ?s"
    using sys_step.poll_send [of g_init g_env ?reader c_svc "\<lparr>from_block = 4, backoff = 1000\<rparr>" g_blocks 0]
    by (simp add: c_service_config_def advanced_config_default_def)
  have l: "sys_step g_env c_svc ?s g_state"
    using sys_step.loop_transactions [of ?s g_blocks 0 "[]" g_env c_svc]
    by (simp add: g_state_def g_blocks_def flip: c_run1_def)
  show ?thesis using p l by (meson rtranclp.rtrancl_into_rtrancl rtranclp.rtrancl_refl)
qed

subsection \<open>From the feed to the certificate\<close>

text \<open>
  C1. Take the service as \<open>main\<close> starts it and any interleaving of its tasks. If it has answered
  a request to store a batch, then its key is registered on chain, and in some state of its event loop the batch parsed
  to messages that queue entries signed by a trusted sequencer match one by one from the cursor's position on. When the
  Espresso reader serves a chain, these entries are messages that this chain holds, at the height they record. The
  answer is the one a configured provider gave and a route passed on, or it holds a certificate that validates against the service's
  key, and whose message range is exactly the range of the batch's messages from the cursor on.
\<close>

theorem certificate_end_to_end:
  fixes E :: "('w, 'n, 'ws, 'c) system_env"
  assumes "run_state (main_nitro (ev_libs E) SE cfg) w0 = (Inr svc, w1)"
    and "\<And>url signer contract. truthful (tee_verifier (se_contract_rpc SE url signer) contract) valid"
    and "signer_ok (ev_sign E) (km_signer (run_key_manager svc))"
    and "(sys_step E svc)\<^sup>*\<^sup>* (system_init bind_listener svc net ch) s" and "(body, resp) \<in> set (sys_answers s)"
  shows "valid w1 (signer_addr (km_signer (run_key_manager svc))) (on_chain_tee_type (run_key_manager svc)) \<and>
    (\<exists>data timeout r fetched ms.
       store_params (ev_serde E) body = Inr (data, timeout) \<and>
       (run_step (nitro_rollup (ev_libs E)) (ev_try_send E))\<^sup>*\<^sup>*
         (run_init (svc_streamer (run_config svc)) (svc_rollup (run_config svc)) 0 ch) r \<and>
       batch_backed (ev_libs E) (stack (svc_rollup (run_config svc))) (queue (rs_streamer r))
         (batch_context (nitro_rollup (ev_libs E)) fetched) data \<and>
       (\<forall>chain. reads_chain E svc chain \<longrightarrow> set (queue (rs_streamer r)) \<subseteq>
          chain_entries (nitro_rollup (ev_libs E)) (stack (svc_rollup (run_config svc))) chain) \<and>
       parse_batch (nl_brotli (ev_libs E)) (nl_rlp_bytes (ev_libs E)) data = Inr ms \<and>
       ((\<exists>routes path st w w'. da_api_run (ev_http E)
             (loop_reply (handle_verification (nitro_rollup (ev_libs E)) fetched data (rs_streamer r))) svc = Inr routes \<and>
           (path, st) \<in> set routes \<and>
           run_state (resolve_downstream_cert (ev_serde E) st data timeout (json_index body ''id'')) w =
             (Inr (DownstreamForward resp), w' :: 'w)) \<or>
        (\<exists>cert. cert_validate (ev_sign E) cert (signer_addr (km_signer (run_key_manager svc)))
           (parent_chain_id (run_key_manager svc)) (tee_verifier_address (run_key_manager svc)) = Inr () \<and>
         cc_start_message_pos cert = next_batch_start_pos (batch_context (nitro_rollup (ev_libs E)) fetched) \<and>
         cc_end_message_pos cert =
           next_batch_start_pos (batch_context (nitro_rollup (ev_libs E)) fetched) + of_nat (length ms) - 1 \<and>
         sd_to_vec (ev_serde E) (store_answer_value (ev_serde E) (json_index body ''id'') cert) = Inr (resp_body resp))))"
proof (rule main_nitro_Inr [OF assms(1)])
  fix cfg' key w
  assume "run_state (setup_key_manager SE cfg' key) w = (Inr (run_key_manager svc), w1)"
  then have "valid w1 (signer_addr (km_signer (run_key_manager svc))) (on_chain_tee_type (run_key_manager svc))"
    by (rule setup_key_manager_Inr) (rule assms(2))
  then show ?thesis
    using bspec [OF answers_backed [OF assms(4,3)] assms(5)] unfolding backed_answer_def replied_def prod.case by blast
qed

lemma g_routes:
  "da_api_run g_http verify c_svc =
     Inr [(''/cas/arb/calldata'', provider_state g_http verify b_key_manager DEFAULT_CALLDATA_MAX_SIZE calldata_provider)]"
proof -
  have cfg: "svc_da_server c_service_config = \<lparr>listen_addr = ''0.0.0.0:1'', da_providers = [], cfg_calldata_max_size = None\<rparr>"
    by (simp add: c_service_config_def)
  show ?thesis
    by (simp add: da_api_run_def cfg build_app_def resolve_calldata_max_size_def ARBITRUM_NITRO_def)
       (simp add: calldata_provider_def)
qed

lemma g_route_endpoint [simp]:
  "current_endpoint (provider_state http verify km limit calldata_provider) = []"
  by (simp add: provider_state_def server_state_new_def calldata_provider_def current_endpoint_def Let_def)

lemma g_store: "\<exists>resp s. (sys_step g_env c_svc)\<^sup>*\<^sup>* g_init s \<and> (c_store_body, resp) \<in> set (sys_answers s)"
proof -
  let ?v = "handle_verification (nitro_rollup c_libs) None c_batch (rs_streamer c_run1)"
  let ?verify = "loop_reply ?v :: bytes \<Rightarrow> (bool, r_error, verification_result) io"
  let ?st = "provider_state g_http ?verify b_key_manager DEFAULT_CALLDATA_MAX_SIZE calldata_provider"
  let ?s = "g_state\<lparr>sys_loop := on_verification (nitro_rollup c_libs) None c_batch (sys_loop g_state),
    sys_requests := sys_requests g_state @
      [(c_store_body, handle_verification (nitro_rollup c_libs) None c_batch (rs_streamer (sys_loop g_state)))]\<rparr>"
  have st: "srv_verify ?st = ?verify" "srv_key_manager ?st = b_key_manager" "within_limit ?st c_batch"
    by (simp_all add: provider_state_def server_state_new_def calldata_provider_def within_limit_def
        c_batch_def Let_def DEFAULT_CALLDATA_MAX_SIZE_def word_less_nat_alt)
  obtain resp where r: "run_state (handle_store c_serde c_sign ?st c_store_body) False = (Inr resp, False)"
    using c_store_run [of ?st False] st by (auto simp: loop_reply_def b_key_manager_def)
  have v: "sys_step g_env c_svc g_state ?s"
    using sys_step.loop_verification [of g_state g_env c_store_body c_batch 60 c_svc None] c_store_params
    by (simp add: g_state_def)
  have "sys_step g_env c_svc ?s (?s\<lparr>sys_requests := [] @ [], sys_answers := sys_answers ?s @ [(c_store_body, resp)]\<rparr>)"
    by (rule sys_step.store [where v = ?v and routes = "[(''/cas/arb/calldata'', ?st)]" and path = "''/cas/arb/calldata''" and st = ?st and w = False and w' = False])
       (use g_routes r in \<open>simp_all add: g_state_def\<close>)
  from rtranclp.rtrancl_into_rtrancl [OF rtranclp.rtrancl_into_rtrancl [OF g_reachable v] this] show ?thesis
    by (intro exI [of _ resp] exI conjI) (assumption, simp)
qed

theorem certificate_end_to_end_witness:
  "\<exists>resp s cert. (sys_step g_env c_svc)\<^sup>*\<^sup>* g_init s \<and> (c_store_body, resp) \<in> set (sys_answers s) \<and>
     cert_validate c_sign cert c_key 1 (replicate 20 2) = Inr () \<and>
     reads_chain g_env c_svc c_chain"
proof -
  obtain resp s where s: "(sys_step g_env c_svc)\<^sup>*\<^sup>* g_init s" "(c_store_body, resp) \<in> set (sys_answers s)"
    using g_store by blast
  have m: "run_state (main_nitro (ev_libs g_env) c_env c_service_config) False = (Inr c_svc, True)"
    using c_startup by simp
  have t: "truthful (tee_verifier (se_contract_rpc c_env url signer) contract) (\<lambda>w a t. w)" for url signer contract
    by (simp add: truthful_def tee_verifier_def c_env_def b_rpc_def)
  have o: "signer_ok (ev_sign g_env) (km_signer (run_key_manager c_svc))"
    using c_signer_ok by (simp add: b_key_manager_def)
  have km: "signer_addr (km_signer b_key_manager) = c_key" "parent_chain_id b_key_manager = 1"
    "tee_verifier_address b_key_manager = replicate 20 2"
    by (simp_all add: b_key_manager_def c_signer_def)
  show ?thesis
    using certificate_end_to_end [OF m t o s(1) [unfolded g_init_def] s(2)] s km g_reads
    by (auto simp: g_routes resolve_downstream_cert_def)
qed

subsection \<open>From Espresso to the relay's subscribers\<close>

text \<open>
  C9. In every reachable state of the service, with a first-in first-out channel from the event
  loop to the relay: the relay has received a prefix of what the loop sent, each message of it signed by a trusted
  sequencer (or a legacy signer) and, when the Espresso reader serves a chain, held by that chain; it was told only
  indices that the L1 monitor published; and the feed server's backlog is the abstract one: the received messages that
  no later finalized index covers, in order.
\<close>

theorem relay_backlog_refines:
  assumes "run_state (main_nitro (ev_libs E) SE cfg) w0 = (Inr svc, w1)"
    and "(sys_step E svc)\<^sup>*\<^sup>* (system_init bind_listener svc net ch) s"
    and "fifo (ev_try_send E) (ev_try_recv E) contents" and "contents ch = []"
  shows "sh_backlog (ws_shared (sys_relay s)) = unconfirmed (relay_ops (sys_events s)) \<and>
    (\<exists>undelivered. map feed_message (rs_sent (sys_loop s)) = fed (relay_ops (sys_events s)) @ undelivered) \<and>
    (\<forall>m \<in> set (fed (relay_ops (sys_events s))). espresso_message E svc m) \<and>
    confirms (relay_ops (sys_events s)) \<subseteq> set (sys_published s)"
proof -
  note fed = relay_fed [OF assms(2-4)]
  show ?thesis
    using relay_backlog_reachable [OF assms(2) main_nitro_started [OF assms(1)] fed(2)] fed(1,3)
      watch_inv_reachable [OF assms(2)] by (auto simp: watch_inv_def)
qed

lemma g_relay:
  "\<exists>s. (sys_step g_env c_svc)\<^sup>*\<^sup>* g_init s \<and>
     sys_events s = [EspressoMessages (c_message 1 1) [c_message 2 2], L1Finalized 1]"
proof -
  let ?S = "sys_step g_env c_svc"
  let ?a = "g_state\<lparr>sys_pending := [c_message 1 1], sys_loop := c_run1\<lparr>rs_chan := [c_message 2 2]\<rparr>\<rparr>"
  let ?b = "g_state\<lparr>sys_pending := [c_message 1 1, c_message 2 2], sys_loop := c_run1\<lparr>rs_chan := []\<rparr>\<rparr>"
  let ?c = "relay_on (EspressoMessages (c_message 1 1) [c_message 2 2]) (?b\<lparr>sys_pending := []\<rparr>)"
  let ?d = "publish (Some 1) (?c\<lparr>sys_last_finalized_block := 2\<rparr>)"
  have a: "?S g_state ?a"
    using sys_step.relay_receive [of g_state g_env "c_message 1 1" "[c_message 2 2]" c_svc]
    by (simp add: g_state_def g_try_recv_def c_run1_queue)
  have b: "?S ?a ?b"
    using sys_step.relay_receive [of ?a g_env "c_message 2 2" "[]" c_svc] by (simp add: g_state_def g_try_recv_def)
  have c: "?S ?b ?c"
    using sys_step.relay_broadcast [of ?b "c_message 1 1" "[c_message 2 2]" g_env c_svc]
    by (simp add: g_state_def g_try_recv_def)
  have run: "sys_exit ?c = None" "sys_pending ?c = []" "sys_last_finalized_block ?c = 0" "sys_relay_seen ?c = 0"
    "sys_version ?c = 0" "sys_events ?c = [EspressoMessages (c_message 1 1) [c_message 2 2]]"
    by (simp_all add: relay_on_def g_state_def relay_step_def)
  have "finalized_tick (replicate 20 3) (Inr (Some 2), c_provider) 0 = (2, Some 1)"
    by (simp add: finalized_tick_def fetch_message_count_def to_u64_def c_provider_def) code_simp
  then have d: "?S ?c ?d"
    using sys_step.l1_tick [of ?c c_svc "(Inr (Some 2), c_provider)" 2 "Some 1" g_env] run by simp
  have e: "?S ?d (relay_on (L1Finalized (sys_watch ?d)) (?d\<lparr>sys_relay_seen := sys_version ?d\<rparr>))"
    by (rule sys_step.relay_finalized) (use run in \<open>simp_all add: publish_def\<close>)
  have "?S\<^sup>*\<^sup>* g_init (relay_on (L1Finalized (sys_watch ?d)) (?d\<lparr>sys_relay_seen := sys_version ?d\<rparr>))"
    using g_reachable a b c d e by (meson rtranclp.rtrancl_into_rtrancl)
  moreover have "sys_watch ?d = 1" by (simp add: publish_def)
  ultimately show ?thesis using run by (intro exI conjI) (assumption, simp)
qed

theorem relay_backlog_refines_witness:
  "\<exists>s. (sys_step g_env c_svc)\<^sup>*\<^sup>* g_init s \<and> sh_backlog (ws_shared (sys_relay s)) = [c_message 2 2] \<and>
     1 \<in> set (sys_published s)"
proof -
  obtain s where s: "(sys_step g_env c_svc)\<^sup>*\<^sup>* g_init s"
    "sys_events s = [EspressoMessages (c_message 1 1) [c_message 2 2], L1Finalized 1]"
    using g_relay by blast
  have m: "run_state (main_nitro (ev_libs g_env) c_env c_service_config) False = (Inr c_svc, True)"
    using c_startup by simp
  have f: "fifo (ev_try_send g_env) (ev_try_recv g_env) id" using g_fifo by simp
  have "unconfirmed (relay_ops (sys_events s)) = [c_message 2 2]"
    by (simp add: s(2) confirms_def c_message_def)
  then show ?thesis
    using relay_backlog_refines [OF m s(1) [unfolded g_init_def] f] s by (auto simp: confirms_def)
qed

text \<open>
  C3. A node subscribes to the relay's feed in a state of the service, reads the backlog in a later
  one, and is served up to a third one. It is sent messages in strictly increasing order, so none twice; every message
  that was in the backlog, or was broadcast after it read the backlog, from its requested number on; and only messages
  that a trusted sequencer (or a legacy signer) signed and, when the Espresso reader serves a chain, that this chain
  holds. So a subscriber never sees a message that Espresso has not finalized.
\<close>

theorem subscriber_end_to_end:
  assumes "run_state (main_nitro (ev_libs E) SE cfg) w0 = (Inr svc, w1)"
    and "fifo (ev_try_send E) (ev_try_recv E) contents" and "contents ch = []"
    and "(sys_step E svc)\<^sup>*\<^sup>* (system_init bind_listener svc net ch) subscribed"
    and "(sys_step E svc)\<^sup>*\<^sup>* subscribed backlog_read" and "(sys_step E svc)\<^sup>*\<^sup>* backlog_read s"
    and "run_ws_client wcfg ser (sh_backlog (ws_shared (sys_relay backlog_read))) from_seq start WriteOk evs n =
      (c, Running, n')"
    and "recvs evs = drop (length (sh_sent (ws_shared (sys_relay subscribed)))) (sh_sent (ws_shared (sys_relay s)))"
  shows "increasing (concat (map bm_flat (cl_frames c))) \<and>
    {m \<in> set (sh_backlog (ws_shared (sys_relay backlog_read))) \<union>
         set (drop (length (fed (relay_ops (sys_events backlog_read)))) (fed (relay_ops (sys_events s)))).
       from_seq \<le> sequence_number m} \<subseteq> set (concat (map bm_flat (cl_frames c))) \<and>
    (\<forall>m \<in> set (concat (map bm_flat (cl_frames c))). espresso_message E svc m)"
proof -
  note st = main_nitro_started [OF assms(1)]
  have r2: "(sys_step E svc)\<^sup>*\<^sup>* (system_init bind_listener svc net ch) backlog_read" using assms(4,5) by simp
  have r3: "(sys_step E svc)\<^sup>*\<^sup>* (system_init bind_listener svc net ch) s" using r2 assms(6) by simp
  note fed2 = relay_fed [OF r2 assms(2,3)] and fed3 = relay_fed [OF r3 assms(2,3)]
  obtain before after where o: "relay_ops (sys_events backlog_read) = relay_ops (sys_events subscribed) @ before"
    "relay_ops (sys_events s) = relay_ops (sys_events subscribed) @ before @ after"
    using relay_ops_grow [OF assms(4,5)] relay_ops_grow [OF r2 assms(6)] by auto
  have inc: "increasing (fed (relay_ops (sys_events subscribed) @ before @ after))" using fed3(2) unfolding o(2) .
  have run: "run_ws_client wcfg ser (unconfirmed (relay_ops (sys_events subscribed) @ before)) from_seq start WriteOk evs n =
      (c, Running, n')"
    using assms(7) unfolding relay_backlog_reachable [OF r2 st fed2(2)] o(1) .
  have "recvs evs = map op_bm (before @ after)"
    using assms(8) unfolding relay_sent_reachable [OF assms(4) st] relay_sent_reachable [OF r3 st] o(2) by simp
  note once = client_receives_once [OF inc run this]
  have d: "drop (length (fed (relay_ops (sys_events backlog_read)))) (fed (relay_ops (sys_events s))) = fed after"
    unfolding o by simp
  show ?thesis
    unfolding relay_backlog_reachable [OF r2 st fed2(2)] d using once fed3(3) unfolding o by blast
qed

lemma g_relay_init: "\<exists>cfg chain_id. ws_shared (sys_relay g_init) = ws_shared (ws_server_new cfg chain_id)"
  using relay_shared_reachable [of g_env c_svc "\<lambda>addr. Inr addr" 0 "[]" g_init c_libs] main_nitro_started [OF c_startup]
  by (auto simp: g_init_def system_init_simps run_ops_def)

theorem subscriber_end_to_end_witness:
  "\<exists>s c n'. (sys_step g_env c_svc)\<^sup>*\<^sup>* g_init s \<and>
     run_ws_client ws_broadcast_server_config_default (\<lambda>b. Inr []) [] 2 0 WriteOk
       (map (\<lambda>bm. Recv bm WriteOk) (sh_sent (ws_shared (sys_relay s)))) 1 = (c, Running, n') \<and>
     c_message 2 2 \<in> set (concat (map bm_flat (cl_frames c))) \<and> espresso_message g_env c_svc (c_message 2 2)"
proof -
  obtain s where s: "(sys_step g_env c_svc)\<^sup>*\<^sup>* g_init s"
    "sys_events s = [EspressoMessages (c_message 1 1) [c_message 2 2], L1Finalized 1]"
    using g_relay by blast
  have m: "run_state (main_nitro (ev_libs g_env) c_env c_service_config) False = (Inr c_svc, True)"
    using c_startup by simp
  have f: "fifo (ev_try_send g_env) (ev_try_recv g_env) id" using g_fifo by simp
  have e: "sh_backlog (ws_shared (sys_relay g_init)) = []" "sh_sent (ws_shared (sys_relay g_init)) = []"
    using g_relay_init by (auto simp: ws_server_new_def)
  have sent: "sh_sent (ws_shared (sys_relay s)) = [feed_messages_bm [c_message 1 1, c_message 2 2], confirm_bm 1]"
    using relay_sent_reachable [OF s(1) [unfolded g_init_def] main_nitro_started [OF c_startup]] by (simp add: s(2))
  let ?evs = "map (\<lambda>bm. Recv bm WriteOk) (sh_sent (ws_shared (sys_relay s)))"
  have "\<exists>c n'. run_ws_client ws_broadcast_server_config_default (\<lambda>b. Inr []) [] 2 0 WriteOk ?evs 1 = (c, Running, n')"
    unfolding sent
    by (simp add: run_ws_client_def get_since_def client_step_def should_send_def update_last_sent_def feed_messages_bm_def
        confirm_bm_def bm_flat_def ws_broadcast_server_config_default_def)
  then obtain c n' where r: "run_ws_client ws_broadcast_server_config_default (\<lambda>b. Inr [])
      (sh_backlog (ws_shared (sys_relay g_init))) 2 0 WriteOk ?evs 1 = (c, Running, n')"
    unfolding e by blast
  have recvs: "recvs ?evs = drop (length (sh_sent (ws_shared (sys_relay g_init)))) (sh_sent (ws_shared (sys_relay s)))"
    unfolding e sent by simp
  have two: "sequence_number (c_message 2 2) = 2" "sequence_number (c_message 1 1) = 1" by (simp_all add: c_message_def)
  have ev: "sys_events g_init = []" by simp
  from subscriber_end_to_end [where ch = "[]" and net = 0 and bind_listener = "\<lambda>addr. Inr addr",
      OF m f _ _ rtranclp.rtrancl_refl s(1) r recvs, folded g_init_def]
  have "c_message 2 2 \<in> set (concat (map bm_flat (cl_frames c))) \<and> espresso_message g_env c_svc (c_message 2 2)"
    using two by (auto simp: s(2) ev simp del: set_concat)
  then show ?thesis using s(1) r unfolding e by blast
qed

subsection \<open>From the sequencer's feed to Espresso\<close>






end
